(* ===== verification/Prelude.thy ===== *)
theory Prelude
  imports Main "HOL-Library.Word"
begin

text \<open>
  The prelude of the development: the machine types of the C code, the outcomes a C function can
  have besides returning, byte memory and the fixed-width encodings the driver, the user-space
  API and the SCSI engine share.  The C code is read for a little-endian LP64 Linux machine
  (\<open>int\<close> 32 bits, \<open>long\<close>, \<open>off_t\<close> and \<open>loff_t\<close> 64 bits).
\<close>

unbundle bit_operations_syntax

named_theorems mem_simps "laws of byte memory: patch, store and load"
named_theorems c_consts "the #define constants of the code and of the kernel headers it uses"

type_synonym u8 = "8 word"
type_synonym u16 = "16 word"
type_synonym u32 = "32 word"
type_synonym u64 = "64 word"
type_synonym bytes = "8 word list"

section \<open>Outcomes of C code\<close>

text \<open>
  What a C function can do instead of returning: touch memory outside an object, follow a null
  or a dangling pointer, overflow a signed integer (undefined in C), divide by zero, wait for a lock nobody will
  release, loop for ever, or end the process.
\<close>

datatype fault =
    Out_of_bounds
  | Null_deref
  | Use_after_free
  | Signed_overflow
  | Division_by_zero
  | Deadlock
  | Never_returns
  | Exit int

type_synonym 'a res = "fault + 'a"

fun and_then :: "'a res \<Rightarrow> ('a \<Rightarrow> 'b res) \<Rightarrow> 'b res" where
  "and_then (Inl e) f = Inl e"
| "and_then (Inr x) f = f x"

lemma and_then_Inr_iff: "and_then m f = Inr y \<longleftrightarrow> (\<exists>x. m = Inr x \<and> f x = Inr y)"
  by (cases m) auto

lemma and_then_Inl_iff:
  "and_then m f = Inl e \<longleftrightarrow> m = Inl e \<or> (\<exists>x. m = Inr x \<and> f x = Inl e)"
  by (cases m) auto

lemma and_then_assoc: "and_then (and_then m f) g = and_then m (\<lambda>x. and_then (f x) g)"
  by (cases m) auto

lemma and_thenE:
  assumes "and_then m f = Inr y"
  obtains x where "m = Inr x" and "f x = Inr y"
  using assms by (auto simp: and_then_Inr_iff)

text \<open>An \<open>int\<close> expression: its mathematical value, or a signed overflow.\<close>

definition c_int :: "int \<Rightarrow> int res" where
  "c_int x = (if - (2 ^ 31) \<le> x \<and> x < 2 ^ 31 then Inr x else Inl Signed_overflow)"

lemma c_int_in_range: "- (2 ^ 31) \<le> x \<Longrightarrow> x < 2 ^ 31 \<Longrightarrow> c_int x = Inr x"
  by (simp add: c_int_def)

text \<open>Counting up in an \<open>unsigned int\<close> that is not at its maximum.\<close>

lemma word_less_succ:
  fixes y :: u32
  assumes "y \<noteq> -1"
  shows "y + 1 \<noteq> 0" and "y < y + 1"
proof -
  show n: "y + 1 \<noteq> 0" using assms max_word_wrap by blast
  have "unat (y + 1) = Suc (unat y)" using n by (simp add: unatSuc add.commute)
  then show "y < y + 1" by (simp add: word_less_nat_alt)
qed

lemma unat_u32_less: "unat (w :: u32) < 2 ^ 32"
  using unsigned_less [of w] by simp

lemma uint_less_of_unat:
  fixes w :: u32
  shows "unat w < n \<Longrightarrow> uint w < int n"
  by (metis of_nat_less_iff of_nat_unat)

lemma sint_small:
  fixes w :: u32
  assumes "unat w < 2 ^ 31"
  shows "sint w = int (unat w)"
proof -
  have "uint w < int (2 ^ 31)" by (rule uint_less_of_unat [OF assms])
  moreover have "- (2 ^ 31) \<le> uint w" by (rule order_trans [OF _ uint_ge_0]) simp
  ultimately have "signed_take_bit 31 (uint w) = uint w"
    by (intro signed_take_bit_int_eq_self) simp_all
  then show ?thesis by (simp add: sint_uint)
qed

text \<open>
  A byte count in an \<open>int\<close>, as in \<open>ret=count\<close>: from \<open>2 ^ 31\<close> bytes on it is no longer the count.
\<close>

definition to_int :: "nat \<Rightarrow> int" where
  "to_int n = sint (of_nat n :: u32)"

lemma to_int_small [simp]: "n < 2 ^ 31 \<Longrightarrow> to_int n = int n"
  using sint_small [of "of_nat n"] by (simp add: to_int_def unat_of_nat)

lemma to_int_large:
  assumes "2 ^ 31 \<le> n" and "n < 2 ^ 32"
  shows "to_int n = int n - 2 ^ 32"
proof -
  have "to_int n = signed_take_bit 31 (int n)"
    using assms(2) by (simp add: to_int_def sint_uint uint_nat unat_of_nat)
  also have "\<dots> = (int n + 2 ^ 31) mod 2 ^ 32 - 2 ^ 31" by (simp add: signed_take_bit_eq_take_bit_shift take_bit_eq_mod)
  also have "(int n + 2 ^ 31) mod 2 ^ 32 = int n + 2 ^ 31 - 2 ^ 32"
    using assms minus_mod_self2 [of "int n + 2 ^ 31" "2 ^ 32"] mod_pos_pos_trivial [of "int n + 2 ^ 31 - 2 ^ 32" "2 ^ 32"] by simp
  finally show ?thesis by simp
qed

lemma ucast_u64_u32 [simp]: "ucast (ucast (n :: u32) :: u64) = n"
  by (rule bit_word_eqI) (auto simp: bit_simps)

text \<open>Adding a small constant to an \<open>unsigned int\<close> and getting something that is not smaller.\<close>

lemma unat_plus_no_wrap:
  fixes w :: u32
  assumes "k < 2 ^ 32" and "k \<le> unat (of_nat k + w)"
  shows "unat (of_nat k + w) = k + unat w"
  using assms unat_u32_less [of w] by (auto simp: unat_word_ariths mod_if unat_of_nat split: if_splits)

section \<open>Byte memory\<close>

text \<open>\<open>patch off bs xs\<close> overwrites \<open>xs\<close> with \<open>bs\<close> from offset \<open>off\<close> on.\<close>

definition patch :: "nat \<Rightarrow> 'a list \<Rightarrow> 'a list \<Rightarrow> 'a list" where
  "patch off bs xs = take off xs @ bs @ drop (off + length bs) xs"

definition segment :: "nat \<Rightarrow> nat \<Rightarrow> 'a list \<Rightarrow> 'a list" where
  "segment off n xs = take n (drop off xs)"

definition store :: "nat \<Rightarrow> 'a list \<Rightarrow> 'a list \<Rightarrow> 'a list res" where
  "store off bs xs = (if off + length bs \<le> length xs then Inr (patch off bs xs) else Inl Out_of_bounds)"

definition load :: "nat \<Rightarrow> nat \<Rightarrow> 'a list \<Rightarrow> 'a list res" where
  "load off n xs = (if off + n \<le> length xs then Inr (segment off n xs) else Inl Out_of_bounds)"

lemma length_patch [simp, mem_simps]:
  "off + length bs \<le> length xs \<Longrightarrow> length (patch off bs xs) = length xs"
  by (simp add: patch_def)

lemma length_segment [simp, mem_simps]: "off + n \<le> length xs \<Longrightarrow> length (segment off n xs) = n"
  by (simp add: segment_def)

lemma patch_Nil [simp]: "patch off [] xs = xs"
  by (simp add: patch_def)

lemma segment_0 [simp]: "segment off 0 xs = []"
  by (simp add: segment_def)

lemma segment_whole [simp]: "length xs \<le> n \<Longrightarrow> segment 0 n xs = xs"
  by (simp add: segment_def)

lemma segment_two_patches:
  assumes "length hs = n" and "n + length bs \<le> length xs"
  shows "segment 0 (n + length bs) (patch 0 hs (patch n bs xs)) = hs @ bs"
  using assms by (simp add: segment_def patch_def)

lemma segment_patch_same [mem_simps]:
  "off + length bs \<le> length xs \<Longrightarrow> n = length bs \<Longrightarrow> segment off n (patch off bs xs) = bs"
  by (simp add: segment_def patch_def)

lemma nth_segment [mem_simps]: "off + n \<le> length xs \<Longrightarrow> i < n \<Longrightarrow> segment off n xs ! i = xs ! (off + i)"
  by (simp add: segment_def)

lemma nth_patch [mem_simps]:
  "off + length bs \<le> length xs \<Longrightarrow> i < length xs \<Longrightarrow>
     patch off bs xs ! i = (if off \<le> i \<and> i < off + length bs then bs ! (i - off) else xs ! i)"
  by (auto simp: patch_def nth_append)

lemma segment_patch_before [mem_simps]:
  assumes "off + length bs \<le> length xs" and "o' + n \<le> off"
  shows "segment o' n (patch off bs xs) = segment o' n xs"
  by (rule nth_equalityI) (use assms in \<open>auto simp: nth_segment nth_patch\<close>)

lemma segment_patch_after [mem_simps]:
  assumes "off + length bs \<le> length xs" and "off + length bs \<le> o'" and "o' + n \<le> length xs"
  shows "segment o' n (patch off bs xs) = segment o' n xs"
  by (rule nth_equalityI) (use assms in \<open>auto simp: nth_segment nth_patch\<close>)

lemma patch_segment_id: "off + n \<le> length xs \<Longrightarrow> patch off (segment off n xs) xs = xs"
  by (rule nth_equalityI) (auto simp: nth_patch nth_segment)

lemma patch_append:
  "off + length bs + length cs \<le> length xs \<Longrightarrow>
     patch (off + length bs) cs (patch off bs xs) = patch off (bs @ cs) xs"
  by (rule nth_equalityI) (auto simp: nth_patch nth_append)

lemma segment_append_segment:
  "off + n + m \<le> length xs \<Longrightarrow> segment off n xs @ segment (off + n) m xs = segment off (n + m) xs"
  by (simp add: segment_def take_add add.commute [of n off])

lemma store_eq [mem_simps]: "off + length bs \<le> length xs \<Longrightarrow> store off bs xs = Inr (patch off bs xs)"
  by (simp add: store_def)

lemma load_eq [mem_simps]: "off + n \<le> length xs \<Longrightarrow> load off n xs = Inr (segment off n xs)"
  by (simp add: load_def)

lemma store_InrD: "store off bs xs = Inr ys \<Longrightarrow> length ys = length xs \<and> off + length bs \<le> length xs"
  by (auto simp: store_def split: if_splits)

section \<open>Lists of keyed entries\<close>

text \<open>Queues and tables are lists whose entries carry a key that no two of them share.\<close>

lemma find_key:
  "distinct (map f xs) \<Longrightarrow> x \<in> set xs \<Longrightarrow> find (\<lambda>y. f y = f x) xs = Some x"
  by (induction xs) (auto simp: image_iff)

lemma distinct_key_eq:
  "distinct (map f xs) \<Longrightarrow> x \<in> set xs \<Longrightarrow> y \<in> set xs \<Longrightarrow> f x = f y \<longleftrightarrow> x = y"
  by (auto simp: distinct_map dest: inj_onD)

lemma find_of_map: "find P (map f xs) = map_option f (find (P \<circ> f) xs)"
  by (induction xs) auto

lemma find_SomeD: "find P xs = Some x \<Longrightarrow> x \<in> set xs \<and> P x"
  by (induction xs) (auto split: if_splits)

lemma map_filter_key:
  assumes "distinct (map f xs)" and "distinct (map g xs)" and "x \<in> set xs"
  shows "map g (filter (\<lambda>y. f y \<noteq> f x) xs) = remove1 (g x) (map g xs)"
proof -
  have "filter (\<lambda>y. f y \<noteq> f x) xs = filter (\<lambda>y. g y \<noteq> g x) xs"
    by (rule filter_cong) (use assms in \<open>auto simp: distinct_key_eq\<close>)
  then have "map g (filter (\<lambda>y. f y \<noteq> f x) xs) = filter (\<lambda>y. y \<noteq> g x) (map g xs)"
    by (simp add: filter_map comp_def)
  then show ?thesis
    using assms(2) by (simp add: distinct_remove1_removeAll removeAll_filter_not_eq eq_commute)
qed

lemma length_filter_key:
  assumes "distinct (map f xs)" and "x \<in> set xs"
  shows "length xs = Suc (length (filter (\<lambda>y. f y \<noteq> f x) xs))"
  using assms
proof (induction xs)
  case (Cons y ys)
  then show ?case
    by (cases "x = y") (auto simp: image_iff intro!: filter_True [symmetric] arg_cong [of _ _ length])
qed simp

section \<open>Fixed-width encodings\<close>

text \<open>\<open>memcpy\<close> of an \<open>unsigned int\<close> stores its bytes least significant first.\<close>

definition le32_bytes :: "u32 \<Rightarrow> bytes" where
  "le32_bytes w = [ucast w, ucast (drop_bit 8 w), ucast (drop_bit 16 w), ucast (drop_bit 24 w)]"

definition le32 :: "bytes \<Rightarrow> u32" where
  "le32 bs = ucast (bs ! 0) OR push_bit 8 (ucast (bs ! 1)) OR push_bit 16 (ucast (bs ! 2))
     OR push_bit 24 (ucast (bs ! 3))"

text \<open>\<open>htonl\<close> and \<open>ntohl\<close>: the same four bytes, most significant first.\<close>

definition be32_bytes :: "u32 \<Rightarrow> bytes" where
  "be32_bytes w = rev (le32_bytes w)"

definition be32 :: "bytes \<Rightarrow> u32" where
  "be32 bs = le32 (rev bs)"

definition be16_bytes :: "u16 \<Rightarrow> bytes" where
  "be16_bytes w = [ucast (drop_bit 8 w), ucast w]"

definition be16 :: "bytes \<Rightarrow> u16" where
  "be16 bs = push_bit 8 (ucast (bs ! 0)) OR ucast (bs ! 1)"

lemma length_le32_bytes [simp]: "length (le32_bytes w) = 4"
  by (simp add: le32_bytes_def)

lemma length_be32_bytes [simp]: "length (be32_bytes w) = 4"
  by (simp add: be32_bytes_def)

lemma length_be16_bytes [simp]: "length (be16_bytes w) = 2"
  by (simp add: be16_bytes_def)

lemma word32_of_bytes:
  fixes w :: u32
  shows "ucast (ucast w :: u8) OR push_bit 8 (ucast (ucast (drop_bit 8 w) :: u8))
    OR push_bit 16 (ucast (ucast (drop_bit 16 w) :: u8)) OR push_bit 24 (ucast (ucast (drop_bit 24 w) :: u8)) = w"
  (is "?l = w")
proof (rule bit_word_eqI)
  fix n
  assume "n < LENGTH(32)"
  then show "bit ?l n = bit w n"
    by (cases "24 \<le> n"; cases "16 \<le> n"; cases "8 \<le> n") (auto simp: bit_simps simp del: push_bit_numeral)
qed

lemma le32_le32_bytes: "le32 (le32_bytes w) = w"
  using word32_of_bytes [of w] by (simp only: le32_def le32_bytes_def nth_Cons_0 nth_Cons_numeral One_nat_def nth_Cons_Suc) simp

lemma be32_be32_bytes: "be32 (be32_bytes w) = w"
  by (simp add: be32_def be32_bytes_def le32_le32_bytes)

lemma be16_be16_bytes: "be16 (be16_bytes w) = w"
  by (rule bit_word_eqI) (auto simp: be16_def be16_bytes_def bit_simps)

text \<open>
  The interface of a fixed-width encoding, as its users see it: a field is written into a larger
  buffer and read back, undisturbed by what is stored beside it.
\<close>

locale byte_codec =
  fixes enc :: "'a \<Rightarrow> bytes"
    and dec :: "bytes \<Rightarrow> 'a"
    and width :: nat
  assumes enc_length: "length (enc x) = width"
    and dec_enc: "dec (enc x) = x"
begin

lemma dec_field: "off + width \<le> length xs \<Longrightarrow> dec (segment off width (patch off (enc x) xs)) = x"
  by (simp add: segment_patch_same enc_length dec_enc)

lemma dec_after_prefix: "length pre = off \<Longrightarrow> dec (segment off width (pre @ enc x @ post)) = x"
  by (simp add: segment_def enc_length dec_enc)

lemma enc_inject: "enc x = enc y \<longleftrightarrow> x = y"
  by (metis dec_enc)

end

interpretation le32_codec: byte_codec le32_bytes le32 4
  by unfold_locales (simp_all add: le32_le32_bytes)

interpretation be32_codec: byte_codec be32_bytes be32 4
  by unfold_locales (simp_all add: be32_be32_bytes)

interpretation be16_codec: byte_codec be16_bytes be16 2
  by unfold_locales (simp_all add: be16_be16_bytes)

section \<open>State machines\<close>

text \<open>
  The interface of a state machine whose handlers can fail: in a good state an allowed event's
  handler returns, and the state it leaves is good.
\<close>

primrec run_events :: "('e \<Rightarrow> 's \<Rightarrow> 's res) \<Rightarrow> 'e list \<Rightarrow> 's \<Rightarrow> 's res" where
  "run_events exec [] s = Inr s"
| "run_events exec (e # es) s = and_then (exec e s) (run_events exec es)"

primrec allowed_run :: "('e \<Rightarrow> 's \<Rightarrow> 's res) \<Rightarrow> ('s \<Rightarrow> 'e \<Rightarrow> bool) \<Rightarrow> 'e list \<Rightarrow> 's \<Rightarrow> bool" where
  "allowed_run exec ok [] s \<longleftrightarrow> True"
| "allowed_run exec ok (e # es) s \<longleftrightarrow> ok s e \<and> (case exec e s of Inl f \<Rightarrow> True | Inr s' \<Rightarrow> allowed_run exec ok es s')"

locale state_machine =
  fixes exec :: "'e \<Rightarrow> 's \<Rightarrow> 's res"
    and ok :: "'s \<Rightarrow> 'e \<Rightarrow> bool"
    and inv :: "'s \<Rightarrow> bool"
  assumes progress: "inv s \<Longrightarrow> ok s e \<Longrightarrow> \<exists>s'. exec e s = Inr s' \<and> inv s'"
begin

lemma never_faults: "inv s \<Longrightarrow> ok s e \<Longrightarrow> exec e s \<noteq> Inl f"
  using progress by fastforce

lemma step_inv: "inv s \<Longrightarrow> ok s e \<Longrightarrow> exec e s = Inr s' \<Longrightarrow> inv s'"
  using progress by fastforce

lemma run_inv: "inv s \<Longrightarrow> allowed_run exec ok es s \<Longrightarrow> \<exists>s'. run_events exec es s = Inr s' \<and> inv s'"
proof (induction es arbitrary: s)
  case (Cons e es)
  then obtain s' where "exec e s = Inr s'" "inv s'" using progress by fastforce
  with Cons show ?case by simp
qed simp

end

section \<open>Refinement\<close>

text \<open>
  Runs with outputs, of a program that can fail and of a specification that cannot, and the interfaces
  of a refinement between them: from a good state, an acceptable request gives the specification's
  output and a state like the one the specification goes to.
\<close>

primrec run_outputs :: "('r \<Rightarrow> 's \<Rightarrow> ('s \<times> 'o) res) \<Rightarrow> 'r list \<Rightarrow> 's \<Rightarrow> ('s \<times> 'o list) res" where
  "run_outputs exec [] s = Inr (s, [])"
| "run_outputs exec (r # rs) s =
     and_then (exec r s) (\<lambda>(s', x). and_then (run_outputs exec rs s') (\<lambda>(s'', xs). Inr (s'', x # xs)))"

primrec spec_outputs :: "('r \<Rightarrow> 'a \<Rightarrow> 'a \<times> 'o) \<Rightarrow> 'r list \<Rightarrow> 'a \<Rightarrow> 'a \<times> 'o list" where
  "spec_outputs spec [] a = (a, [])"
| "spec_outputs spec (r # rs) a = (let (a', x) = spec r a; (a'', xs) = spec_outputs spec rs a' in (a'', x # xs))"

text \<open>The requests of a run are acceptable, each in the state it finds.\<close>

primrec acceptable :: "('r \<Rightarrow> 's \<Rightarrow> ('s \<times> 'o) res) \<Rightarrow> ('s \<Rightarrow> 'r \<Rightarrow> bool) \<Rightarrow> 'r list \<Rightarrow> 's \<Rightarrow> bool" where
  "acceptable exec ok [] s \<longleftrightarrow> True"
| "acceptable exec ok (r # rs) s \<longleftrightarrow> ok s r \<and> (case exec r s of Inl f \<Rightarrow> True | Inr (s', x) \<Rightarrow> acceptable exec ok rs s')"

text \<open>
  The interface of a simulation: states related to a state of the specification stay related, and the
  program gives the specification's output.
\<close>

locale simulation =
  fixes exec :: "'r \<Rightarrow> 's \<Rightarrow> ('s \<times> 'o) res"
    and spec :: "'r \<Rightarrow> 'a \<Rightarrow> 'a \<times> 'o"
    and related :: "'s \<Rightarrow> 'a \<Rightarrow> bool"
    and ok :: "'s \<Rightarrow> 'r \<Rightarrow> bool"
  assumes simulate: "related s a \<Longrightarrow> ok s r \<Longrightarrow> \<exists>s'. exec r s = Inr (s', snd (spec r a)) \<and> related s' (fst (spec r a))"
begin

lemma run_simulates:
  assumes "related s a" and "acceptable exec ok rs s"
  shows "\<exists>s'. run_outputs exec rs s = Inr (s', snd (spec_outputs spec rs a)) \<and> related s' (fst (spec_outputs spec rs a))"
  using assms
proof (induction rs arbitrary: s a)
  case (Cons r rs)
  obtain s1 where s1: "exec r s = Inr (s1, snd (spec r a))" "related s1 (fst (spec r a))"
    using simulate [OF Cons.prems(1)] Cons.prems(2) by auto
  with Cons.IH [OF s1(2)] Cons.prems(2) show ?case by (auto split: prod.splits)
qed simp

end

text \<open>The simulation by a function: the specification's state is what \<open>abs_of\<close> sees of a good state.\<close>

locale functional_refinement =
  fixes exec :: "'r \<Rightarrow> 's \<Rightarrow> ('s \<times> 'o) res"
    and spec :: "'r \<Rightarrow> 'a \<Rightarrow> 'a \<times> 'o"
    and abs_of :: "'s \<Rightarrow> 'a"
    and inv :: "'s \<Rightarrow> bool"
    and ok :: "'s \<Rightarrow> 'r \<Rightarrow> bool"
  assumes refine: "inv s \<Longrightarrow> ok s r \<Longrightarrow> \<exists>s'. exec r s = Inr (s', snd (spec r (abs_of s))) \<and> abs_of s' = fst (spec r (abs_of s)) \<and> inv s'"

sublocale functional_refinement < by_function: simulation exec spec "\<lambda>s a. a = abs_of s \<and> inv s" ok
  by unfold_locales (metis refine)

context functional_refinement
begin

lemma run_refines:
  assumes "inv s" and "acceptable exec ok rs s"
  shows "\<exists>s'. run_outputs exec rs s = Inr (s', snd (spec_outputs spec rs (abs_of s)))
    \<and> abs_of s' = fst (spec_outputs spec rs (abs_of s)) \<and> inv s'"
  using by_function.run_simulates [where s = s and a = "abs_of s" and rs = rs] assms by metis

end

text \<open>A refinement whose requests stay acceptable, whatever has been requested before.\<close>

locale stable_refinement = functional_refinement +
  assumes ok_stable: "inv s \<Longrightarrow> ok s r \<Longrightarrow> exec r s = Inr (s', x) \<Longrightarrow> ok s q \<Longrightarrow> ok s' q"
begin

lemma all_acceptable: "inv s \<Longrightarrow> \<forall>r\<in>set rs. ok s r \<Longrightarrow> acceptable exec ok rs s"
proof (induction rs arbitrary: s)
  case (Cons r rs)
  obtain s1 where s1: "exec r s = Inr (s1, snd (spec r (abs_of s)))" "inv s1"
    using refine [OF Cons.prems(1)] Cons.prems(2) by auto
  have "\<forall>q\<in>set rs. ok s1 q" using Cons.prems ok_stable [OF _ _ s1(1)] by auto
  with Cons.IH [OF s1(2)] Cons.prems(2) s1(1) show ?case by simp
qed simp

end

text \<open>
  A simulation whose requests are judged by the state of the specification: no run of the program has
  to be looked at to see which runs it accepts.
\<close>

primrec spec_accepts :: "('r \<Rightarrow> 'a \<Rightarrow> 'a \<times> 'o) \<Rightarrow> ('a \<Rightarrow> 'r \<Rightarrow> bool) \<Rightarrow> 'r list \<Rightarrow> 'a \<Rightarrow> bool" where
  "spec_accepts spec ok [] a \<longleftrightarrow> True"
| "spec_accepts spec ok (r # rs) a \<longleftrightarrow> ok a r \<and> spec_accepts spec ok rs (fst (spec r a))"

lemma spec_outputs_append:
  "spec_outputs spec (rs @ qs) a = (let (a', xs) = spec_outputs spec rs a; (a'', ys) = spec_outputs spec qs a' in (a'', xs @ ys))"
  by (induction rs arbitrary: a) (simp_all add: split_def Let_def)

lemma spec_accepts_append:
  "spec_accepts spec ok (rs @ qs) a \<longleftrightarrow> spec_accepts spec ok rs a \<and> spec_accepts spec ok qs (fst (spec_outputs spec rs a))"
  by (induction rs arbitrary: a) (simp_all add: split_def Let_def)

locale judged_simulation =
  fixes exec :: "'r \<Rightarrow> 's \<Rightarrow> ('s \<times> 'o) res"
    and spec :: "'r \<Rightarrow> 'a \<Rightarrow> 'a \<times> 'o"
    and related :: "'s \<Rightarrow> 'a \<Rightarrow> bool"
    and ok :: "'a \<Rightarrow> 'r \<Rightarrow> bool"
  assumes judged: "related s a \<Longrightarrow> ok a r \<Longrightarrow> \<exists>s'. exec r s = Inr (s', snd (spec r a)) \<and> related s' (fst (spec r a))"
begin

lemma run_judged:
  assumes "related s a" and "spec_accepts spec ok rs a"
  shows "\<exists>s'. run_outputs exec rs s = Inr (s', snd (spec_outputs spec rs a)) \<and> related s' (fst (spec_outputs spec rs a))"
  using assms
proof (induction rs arbitrary: s a)
  case (Cons r rs)
  obtain s1 where s1: "exec r s = Inr (s1, snd (spec r a))" "related s1 (fst (spec r a))"
    using judged [OF Cons.prems(1)] Cons.prems(2) by auto
  with Cons.IH [OF s1(2)] Cons.prems(2) show ?case by (auto split: prod.splits)
qed simp

end

text \<open>The same for a refinement by a function.\<close>

locale guarded_refinement =
  fixes exec :: "'r \<Rightarrow> 's \<Rightarrow> ('s \<times> 'o) res"
    and spec :: "'r \<Rightarrow> 'a \<Rightarrow> 'a \<times> 'o"
    and abs_of :: "'s \<Rightarrow> 'a"
    and inv :: "'s \<Rightarrow> bool"
    and ok :: "'a \<Rightarrow> 'r \<Rightarrow> bool"
  assumes guarded: "inv s \<Longrightarrow> ok (abs_of s) r \<Longrightarrow>
    \<exists>s'. exec r s = Inr (s', snd (spec r (abs_of s))) \<and> abs_of s' = fst (spec r (abs_of s)) \<and> inv s'"

sublocale guarded_refinement < by_function: judged_simulation exec spec "\<lambda>s a. a = abs_of s \<and> inv s" ok
  by unfold_locales (metis guarded)

context guarded_refinement
begin

lemma run_guarded:
  assumes "inv s" and "spec_accepts spec ok rs (abs_of s)"
  shows "\<exists>s'. run_outputs exec rs s = Inr (s', snd (spec_outputs spec rs (abs_of s)))
    \<and> abs_of s' = fst (spec_outputs spec rs (abs_of s)) \<and> inv s'"
  using by_function.run_judged [where s = s and a = "abs_of s" and rs = rs] assms by metis

end

end
