(* ===== verification/Kernel_Types.thy ===== *)
theory Kernel_Types
  imports Prelude
begin

text \<open>
  The data of the kernel driver: the constants of \<open>include/vscsi.h\<close>, the structures of
  \<open>include/vscsihba.h\<close>, and what the driver uses of the kernel's own structures
  (\<open>struct scsi_cmnd\<close>, \<open>struct scatterlist\<close>, user memory, spinlocks, the slab cache).
  Kernel constants have the values of the 2.6 headers.
\<close>

section \<open>Constants\<close>

definition SCSITAP_CONNECTION_READY :: u32 where
  [c_consts]: "SCSITAP_CONNECTION_READY = 1"

definition SCSITAP_CONNECTION_NOT_READY :: u32 where
  [c_consts]: "SCSITAP_CONNECTION_NOT_READY = 0"

definition SCSITAP_TASK_EMPTY :: u32 where
  [c_consts]: "SCSITAP_TASK_EMPTY = 0"

definition SCSITAP_TASK_SUBMITTED :: u32 where
  [c_consts]: "SCSITAP_TASK_SUBMITTED = 1"

definition SCSITAP_TASK_RECEIVED :: u32 where
  [c_consts]: "SCSITAP_TASK_RECEIVED = 4"

definition SCSITAP_TASK_ABORTED :: u32 where
  [c_consts]: "SCSITAP_TASK_ABORTED = 6"

definition SCSITAP_UHEADER_SIZE :: nat where
  [c_consts]: "SCSITAP_UHEADER_SIZE = 31"

definition SCSITAP_IOCTL_REGISTER_CLIENT :: u32 where
  [c_consts]: "SCSITAP_IOCTL_REGISTER_CLIENT = 0xAB00"

definition SCSITAP_IOCTL_RECEIVE_TASK :: u32 where
  [c_consts]: "SCSITAP_IOCTL_RECEIVE_TASK = 0xAB02"

definition SCSITAP_IOCTL_UNREGISTER_CLIENT :: u32 where
  [c_consts]: "SCSITAP_IOCTL_UNREGISTER_CLIENT = 0xAB04"

definition SCSITAP_IOCTL_SET_TASK :: u32 where
  [c_consts]: "SCSITAP_IOCTL_SET_TASK = 0xAB05"

text \<open>Constants of the kernel headers.\<close>

definition MAX_COMMAND_SIZE :: nat where
  [c_consts]: "MAX_COMMAND_SIZE = 16"

definition SCSI_SENSE_BUFFERSIZE :: nat where
  [c_consts]: "SCSI_SENSE_BUFFERSIZE = 96"

definition NOT_READY :: u8 where
  [c_consts]: "NOT_READY = 2"

definition DID_NO_CONNECT :: u32 where
  [c_consts]: "DID_NO_CONNECT = 1"

definition SUCCESS :: int where
  [c_consts]: "SUCCESS = 0x2002"

definition SCSI_MLQUEUE_HOST_BUSY :: int where
  [c_consts]: "SCSI_MLQUEUE_HOST_BUSY = 0x1055"

definition EBADF :: int where
  [c_consts]: "EBADF = 9"

definition EFAULT :: int where
  [c_consts]: "EFAULT = 14"

definition EINVAL :: int where
  [c_consts]: "EINVAL = 22"

definition ENODEV :: int where
  [c_consts]: "ENODEV = 19"

definition ENOMEM :: int where
  [c_consts]: "ENOMEM = 12"

text \<open>The characters of the protocol between the driver and the target process.\<close>

definition chr_C :: u8 where
  [c_consts]: "chr_C = 67"

definition chr_D :: u8 where
  [c_consts]: "chr_D = 68"

definition chr_I :: u8 where
  [c_consts]: "chr_I = 73"

definition chr_O :: u8 where
  [c_consts]: "chr_O = 79"

section \<open>The mid layer's command block\<close>

datatype dma_data_direction = DMA_BIDIRECTIONAL | DMA_TO_DEVICE | DMA_FROM_DEVICE | DMA_NONE

text \<open>
  A scatter-gather entry: the memory \<open>page_address (sg.page)\<close> points at (\<open>None\<close> when it
  is null, as for a high-memory page that is not mapped), the offset and the length.
\<close>

record scatterlist =
  sg_page :: "bytes option"
  sg_offset :: nat
  sg_length :: nat

text \<open>\<open>request_buffer\<close> is a flat buffer when \<open>use_sg\<close> is 0, an array of entries otherwise.\<close>

datatype request_buffer = Flat bytes | Sg "scatterlist list"

record scsi_cmnd =
  sc_device_lun :: u32
  sc_data_direction :: dma_data_direction
  sc_cmd_len :: u8
  sc_cmnd :: bytes
  sc_request_bufflen :: u32
  sc_use_sg :: u16
  sc_request_buffer :: request_buffer
  sc_sense_buffer :: bytes
  sc_result :: u32
  sc_resid :: u32
  sc_scsi_done :: "nat option"
  sc_SCp_ptr :: "nat option"

section \<open>Tasks and sessions\<close>

text \<open>
  A task is named by its address in the slab cache, a command block, a callback and a session by
  theirs; list heads are lists, in the order of the links.
  A session is the \<open>hostdata\<close> of one \<open>Scsi_Host\<close>; the record also holds the command
  blocks of that host (\<open>sc->device->host\<close> is this host) and the calls of \<open>scsi_done\<close>
  made for them, each as callback and command.
\<close>

record scsitap_task =
  tk_addr :: nat
  tk_cmd_number :: u32
  tk_lun :: u32
  tk_flags :: u32
  tk_type :: u8
  tk_sc :: nat
  tk_session :: nat

record scsitap_session =
  ss_addr :: nat
  ss_dev_id :: u32
  ss_pid :: u32
  ss_flags :: u32
  ss_Device_Open :: u8
  ss_queue_lock :: bool
  ss_cmd_numbers :: u32
  ss_next_cmdnumber :: u32
  ss_queue :: "scsitap_task list"
  ss_host_lock :: bool
  ss_cmnds :: "nat \<Rightarrow> scsi_cmnd"
  ss_done :: "(nat \<times> nat) list"

definition upd_cmnd :: "nat \<Rightarrow> (scsi_cmnd \<Rightarrow> scsi_cmnd) \<Rightarrow> scsitap_session \<Rightarrow> scsitap_session" where
  "upd_cmnd sc f s = s\<lparr>ss_cmnds := (ss_cmnds s)(sc := f (ss_cmnds s sc))\<rparr>"

section \<open>Spinlocks\<close>

text \<open>
  Handlers are atomic steps: each takes and releases the locks that serialise it.  A lock that is
  held when a handler starts was leaked by one that has returned, so taking it waits for ever.
\<close>

definition spin_lock_queue :: "scsitap_session \<Rightarrow> scsitap_session res" where
  "spin_lock_queue s = (if ss_queue_lock s then Inl Deadlock else Inr (s\<lparr>ss_queue_lock := True\<rparr>))"

definition spin_unlock_queue :: "scsitap_session \<Rightarrow> scsitap_session" where
  "spin_unlock_queue s = s\<lparr>ss_queue_lock := False\<rparr>"

definition spin_lock_host :: "scsitap_session \<Rightarrow> scsitap_session res" where
  "spin_lock_host s = (if ss_host_lock s then Inl Deadlock else Inr (s\<lparr>ss_host_lock := True\<rparr>))"

definition spin_unlock_host :: "scsitap_session \<Rightarrow> scsitap_session" where
  "spin_unlock_host s = s\<lparr>ss_host_lock := False\<rparr>"

section \<open>User memory\<close>

text \<open>
  The user's buffer is the byte list that is mapped from the address passed on.  The inatomic
  copies move what is mapped and return the number of bytes left over; \<open>put_user\<close> and
  \<open>get_user\<close> on an unmapped address write nothing and read 0.
\<close>

definition put_user :: "u8 \<Rightarrow> nat \<Rightarrow> bytes \<Rightarrow> bytes" where
  "put_user v off ub = ub[off := v]"

definition get_user :: "nat \<Rightarrow> bytes \<Rightarrow> u8" where
  "get_user off ub = (if off < length ub then ub ! off else 0)"

definition copy_to_user :: "nat \<Rightarrow> bytes \<Rightarrow> bytes \<Rightarrow> bytes \<times> nat" where
  "copy_to_user off bs ub = (let m = min (length bs) (length ub - off)
     in (patch off (take m bs) ub, length bs - m))"

definition copy_from_user :: "nat \<Rightarrow> nat \<Rightarrow> bytes \<Rightarrow> bytes \<times> nat" where
  "copy_from_user off n ub = (let bs = segment off n ub in (bs, n - length bs))"

lemma copy_to_user_fits [mem_simps]:
  assumes "off + length bs \<le> length ub"
  shows "copy_to_user off bs ub = (patch off bs ub, 0)"
proof -
  from assms have "min (length bs) (length ub - off) = length bs" by linarith
  then show ?thesis by (simp add: copy_to_user_def)
qed

lemma copy_to_user_append:
  "copy_to_user off (bs @ cs) ub = (let (ub', r) = copy_to_user off bs ub
     in if r \<noteq> 0 then (ub', r + length cs) else copy_to_user (off + length bs) cs ub')"
proof (cases "off + length bs \<le> length ub")
  case True
  define m where "m = min (length cs) (length ub - (off + length bs))"
  have "off + length (bs @ take m cs) \<le> length ub" using True by (simp add: m_def)
  then have "patch (off + length bs) (take m cs) (patch off bs ub) = patch off (bs @ take m cs) ub"
    using patch_append [of off bs "take m cs" ub] by simp
  moreover have "min (length (bs @ cs)) (length ub - off) = length bs + m" using True by (simp add: m_def)
  ultimately show ?thesis
    using True by (simp add: copy_to_user_def Let_def m_def)
next
  case False
  show ?thesis
  proof (cases "bs = []")
    case False
    with \<open>\<not> _ \<le> _\<close> have "length ub - off < length bs" by (cases bs) auto
    then have "min (length (bs @ cs)) (length ub - off) = length ub - off" "min (length bs) (length ub - off) = length ub - off"
      by auto
    with \<open>length ub - off < length bs\<close> show ?thesis by (simp add: copy_to_user_def Let_def)
  qed (simp add: copy_to_user_def Let_def)
qed

lemma copy_from_user_fits [mem_simps]:
  "off + n \<le> length ub \<Longrightarrow> copy_from_user off n ub = (segment off n ub, 0)"
  by (simp add: copy_from_user_def Let_def)

section \<open>The slab cache\<close>

text \<open>
  \<open>kmem_cache_free\<close> gives the object back to the allocator; what a later read of its
  \<open>flags\<close> field sees is the allocator's business.  The model takes it as a parameter:
  \<open>slab_stale f\<close> is what the field reads as after the free when it held \<open>f\<close> before.
  An allocator without poisoning leaves the field alone (\<open>slab_ok\<close>).  \<open>slab_alive\<close>
  says that the cache has not been destroyed.
\<close>

record slab =
  slab_alive :: bool
  slab_stale :: "u32 \<Rightarrow> u32"

definition slab_ok :: "slab \<Rightarrow> bool" where
  "slab_ok sl \<longleftrightarrow> slab_alive sl \<and> (\<forall>f. slab_stale sl f = f)"

lemma slab_okD [simp]: "slab_ok sl \<Longrightarrow> slab_alive sl" "slab_ok sl \<Longrightarrow> slab_stale sl f = f"
  by (simp_all add: slab_ok_def)

end
