(* ===== verification/Hba.thy ===== *)
theory Hba
  imports Kernel_Types
begin

text \<open>
  The host adapter, \<open>kernel/hba.c\<close>: the task queue of a session, the handlers the SCSI mid
  layer calls (\<open>queuecommand\<close> and the error handlers) and the completion of a task.  Session
  creation, removal and the module's start and stop are in the theory \<open>Sessions\<close>.
\<close>

section \<open>Sense data\<close>

definition set_sensedata :: "scsi_cmnd \<Rightarrow> scsi_cmnd" where
  "set_sensedata sc = sc\<lparr>sc_sense_buffer := replicate SCSI_SENSE_BUFFERSIZE 0\<rparr>"

definition set_sensedata_illegal :: "scsi_cmnd \<Rightarrow> scsi_cmnd" where
  "set_sensedata_illegal sc = sc\<lparr>sc_sense_buffer := (replicate SCSI_SENSE_BUFFERSIZE 0)
     [0 := 0x70, 2 := 0, 7 := 0x6, 12 := 0, 13 := 0x00]\<rparr>"

definition set_sensedata_commfailure :: "scsi_cmnd \<Rightarrow> scsi_cmnd" where
  "set_sensedata_commfailure sc = sc\<lparr>sc_sense_buffer := (sc_sense_buffer sc)
     [0 := 0x70, 2 := NOT_READY, 7 := 0x6, 12 := 0x08, 13 := 0x00]\<rparr>"

datatype eh_timer_return = EH_HANDLED | EH_NOT_HANDLED | EH_RESET_TIMER

definition scsitap_eh_timed_out :: "scsitap_session \<Rightarrow> scsitap_session \<times> eh_timer_return" where
  "scsitap_eh_timed_out s = (s, EH_HANDLED)"

section \<open>The task queue\<close>

definition task_of_cmd :: "scsitap_session \<Rightarrow> u32 \<Rightarrow> scsitap_task option" where
  "task_of_cmd s cmd_number = find (\<lambda>t. tk_cmd_number t = cmd_number) (ss_queue s)"

text \<open>\<open>task->flags = f\<close> through a pointer.\<close>

definition set_task_flags :: "nat \<Rightarrow> u32 \<Rightarrow> scsitap_session \<Rightarrow> scsitap_session" where
  "set_task_flags a f s = s\<lparr>ss_queue := map (\<lambda>t. if tk_addr t = a then t\<lparr>tk_flags := f\<rparr> else t) (ss_queue s)\<rparr>"

text \<open>\<open>sc->scsi_done(sc)\<close>: the mid layer takes the command back.\<close>

definition call_scsi_done :: "nat \<Rightarrow> scsitap_session \<Rightarrow> scsitap_session res" where
  "call_scsi_done sc s = (case sc_scsi_done (ss_cmnds s sc) of
       None \<Rightarrow> Inl Null_deref
     | Some f \<Rightarrow> Inr (s\<lparr>ss_done := ss_done s @ [(f, sc)]\<rparr>))"

text \<open>
  The task is unlinked and freed, and only then is its \<open>flags\<close> field tested: the test reads
  freed memory.
\<close>

definition scsitap_complete_task :: "slab \<Rightarrow> nat \<Rightarrow> scsitap_session \<Rightarrow> scsitap_session res" where
  "scsitap_complete_task sl a s = (case find (\<lambda>t. tk_addr t = a) (ss_queue s) of
       None \<Rightarrow> Inl Use_after_free
     | Some t \<Rightarrow>
         (let s1 = s\<lparr>ss_cmd_numbers := ss_cmd_numbers s - 1,
                     ss_queue := filter (\<lambda>u. tk_addr u \<noteq> a) (ss_queue s)\<rparr>;
              s2 = upd_cmnd (tk_sc t) (\<lambda>c. c\<lparr>sc_SCp_ptr := None\<rparr>) s1
          in if \<not> slab_alive sl then Inl Use_after_free
             else if slab_stale sl (tk_flags t) \<noteq> SCSITAP_TASK_ABORTED then call_scsi_done (tk_sc t) s2
             else Inr s2))"

definition scsitap_alloc_task :: "nat \<Rightarrow> nat option \<Rightarrow> scsitap_task option" where
  "scsitap_alloc_task session slot = (case slot of
       None \<Rightarrow> None
     | Some a \<Rightarrow> Some \<lparr>tk_addr = a, tk_cmd_number = 0, tk_lun = 0, tk_flags = SCSITAP_TASK_EMPTY,
                       tk_type = 0, tk_sc = 0, tk_session = session\<rparr>)"

section \<open>The mid layer's entry points\<close>

text \<open>
  \<open>queuecommand\<close>: \<open>slot\<close> is what \<open>kmem_cache_alloc\<close> returns, \<open>dn\<close> the
  callback.  The result is the new state and the return value.
\<close>

definition queue_task :: "nat \<Rightarrow> scsitap_task \<Rightarrow> scsitap_session \<Rightarrow> scsitap_session" where
  "queue_task sc t s =
     (let n = (if ss_next_cmdnumber s \<noteq> 0 then ss_next_cmdnumber s else 1);
          t' = t\<lparr>tk_lun := sc_device_lun (ss_cmnds s sc), tk_flags := SCSITAP_TASK_SUBMITTED, tk_sc := sc,
                 tk_cmd_number := n, tk_type := chr_C\<rparr>
      in upd_cmnd sc (\<lambda>c. c\<lparr>sc_SCp_ptr := Some (tk_addr t)\<rparr>)
           (s\<lparr>ss_next_cmdnumber := n + 1, ss_cmd_numbers := ss_cmd_numbers s + 1, ss_queue := ss_queue s @ [t']\<rparr>))"

definition scsitap_queuecommand ::
  "nat option \<Rightarrow> nat \<Rightarrow> nat \<Rightarrow> scsitap_session \<Rightarrow> (scsitap_session \<times> int) res" where
  "scsitap_queuecommand slot sc dn s =
     and_then (spin_lock_queue (spin_unlock_host s)) (\<lambda>s1.
       if ss_flags s1 \<noteq> SCSITAP_CONNECTION_READY then
         and_then (spin_lock_host (spin_unlock_queue s1)) (\<lambda>s2.
           let s3 = upd_cmnd sc (\<lambda>c. set_sensedata_commfailure
                      (c\<lparr>sc_result := push_bit 16 DID_NO_CONNECT, sc_resid := sc_request_bufflen c\<rparr>)) s2
           in Inr (s3\<lparr>ss_done := ss_done s3 @ [(dn, sc)]\<rparr>, 0))
       else
         let s2 = upd_cmnd sc (\<lambda>c. c\<lparr>sc_scsi_done := Some dn, sc_result := 0, sc_SCp_ptr := None\<rparr>) s1
         in case scsitap_alloc_task (ss_addr s2) slot of
              None \<Rightarrow> and_then (spin_lock_host (spin_unlock_queue s2)) (\<lambda>s3. Inr (s3, SCSI_MLQUEUE_HOST_BUSY))
            | Some t \<Rightarrow> and_then (spin_lock_host (spin_unlock_queue (queue_task sc t s2))) (\<lambda>s3. Inr (s3, 0)))"

definition scsitap_eh_abort :: "slab \<Rightarrow> nat \<Rightarrow> scsitap_session \<Rightarrow> (scsitap_session \<times> int) res" where
  "scsitap_eh_abort sl sc s =
     and_then (spin_lock_queue (spin_unlock_host s)) (\<lambda>s1.
       and_then (case sc_SCp_ptr (ss_cmnds s1 sc) of
             None \<Rightarrow> Inr s1
           | Some a \<Rightarrow> scsitap_complete_task sl a (set_task_flags a SCSITAP_TASK_ABORTED s1))
         (\<lambda>s2. and_then (spin_lock_host (spin_unlock_queue s2)) (\<lambda>s3. Inr (s3, SUCCESS))))"

text \<open>The loop of the host reset, over the tasks that were queued when it started.\<close>

primrec abort_each :: "slab \<Rightarrow> nat list \<Rightarrow> scsitap_session \<Rightarrow> scsitap_session res" where
  "abort_each sl [] s = Inr s"
| "abort_each sl (a # as) s =
     and_then (scsitap_complete_task sl a (set_task_flags a SCSITAP_TASK_ABORTED s)) (abort_each sl as)"

definition scsitap_eh_host_reset :: "slab \<Rightarrow> scsitap_session \<Rightarrow> (scsitap_session \<times> int) res" where
  "scsitap_eh_host_reset sl s =
     and_then (spin_lock_queue s) (\<lambda>s1.
       and_then (abort_each sl (map tk_addr (ss_queue s1)) s1) (\<lambda>s2.
         Inr (spin_unlock_queue s2, SUCCESS)))"

definition scsitap_eh_device_reset :: "scsitap_session \<Rightarrow> scsitap_session \<times> int" where
  "scsitap_eh_device_reset s = (s, SUCCESS)"

text \<open>The loop of \<open>scsitap_destroy_session\<close>: every pending command is finished as not connected.\<close>

primrec finish_each :: "slab \<Rightarrow> nat list \<Rightarrow> scsitap_session \<Rightarrow> scsitap_session res" where
  "finish_each sl [] s = Inr s"
| "finish_each sl (a # as) s = (case find (\<lambda>t. tk_addr t = a) (ss_queue s) of
       None \<Rightarrow> Inl Use_after_free
     | Some t \<Rightarrow> and_then (scsitap_complete_task sl a
           (upd_cmnd (tk_sc t) (\<lambda>c. set_sensedata_commfailure
              (c\<lparr>sc_result := push_bit 16 DID_NO_CONNECT, sc_resid := sc_request_bufflen c\<rparr>)) s))
         (finish_each sl as))"

section \<open>The queue invariant\<close>

text \<open>
  \<open>queue_links\<close>: every queued task and its command block point at each other, no two tasks
  share an address or a command, no command block points at a task that is not queued, and
  \<open>cmd_numbers\<close> counts the queue.  \<open>queue_inv\<close> adds the states a queued task can be in.
\<close>

definition queue_links :: "scsitap_session \<Rightarrow> bool" where
  "queue_links s \<longleftrightarrow>
     distinct (map tk_addr (ss_queue s)) \<and> distinct (map tk_sc (ss_queue s)) \<and>
     (\<forall>t\<in>set (ss_queue s). sc_SCp_ptr (ss_cmnds s (tk_sc t)) = Some (tk_addr t) \<and>
        sc_scsi_done (ss_cmnds s (tk_sc t)) \<noteq> None \<and> tk_cmd_number t \<noteq> 0) \<and>
     (\<forall>c a. sc_SCp_ptr (ss_cmnds s c) = Some a \<longrightarrow> (\<exists>t\<in>set (ss_queue s). tk_addr t = a \<and> tk_sc t = c)) \<and>
     ss_cmd_numbers s = of_nat (length (ss_queue s))"

definition live_flags :: "scsitap_session \<Rightarrow> bool" where
  "live_flags s \<longleftrightarrow> (\<forall>t\<in>set (ss_queue s). tk_flags t = SCSITAP_TASK_SUBMITTED \<or> tk_flags t = SCSITAP_TASK_RECEIVED)"

definition queue_inv :: "scsitap_session \<Rightarrow> bool" where
  "queue_inv s \<longleftrightarrow> queue_links s \<and> live_flags s"

text \<open>The commands the session holds, oldest first.\<close>

abbreviation pending :: "scsitap_session \<Rightarrow> nat list" where
  "pending s \<equiv> map tk_sc (ss_queue s)"

text \<open>A session between two handlers: the queue is in order and both locks are as the mid layer left them.\<close>

definition session_idle :: "scsitap_session \<Rightarrow> bool" where
  "session_idle s \<longleftrightarrow> queue_inv s \<and> \<not> ss_queue_lock s"

text \<open>What completing a task leaves of the session, before the callback.\<close>

definition unlink_task :: "scsitap_task \<Rightarrow> scsitap_session \<Rightarrow> scsitap_session" where
  "unlink_task t s = upd_cmnd (tk_sc t) (\<lambda>c. c\<lparr>sc_SCp_ptr := None\<rparr>)
     (s\<lparr>ss_cmd_numbers := ss_cmd_numbers s - 1, ss_queue := filter (\<lambda>u. tk_addr u \<noteq> tk_addr t) (ss_queue s)\<rparr>)"

lemma queue_linksD:
  assumes "queue_links s" and "t \<in> set (ss_queue s)"
  shows "find (\<lambda>u. tk_addr u = tk_addr t) (ss_queue s) = Some t"
    and "sc_SCp_ptr (ss_cmnds s (tk_sc t)) = Some (tk_addr t)"
    and "sc_scsi_done (ss_cmnds s (tk_sc t)) \<noteq> None"
  using assms by (auto simp: queue_links_def find_key)

lemma queue_links_unlink:
  assumes "queue_links s" and "t \<in> set (ss_queue s)"
  shows "queue_links (unlink_task t s)"
    and "pending (unlink_task t s) = remove1 (tk_sc t) (pending s)"
proof -
  have d: "distinct (map tk_addr (ss_queue s))" "distinct (map tk_sc (ss_queue s))"
    using assms by (auto simp: queue_links_def)
  have n: "length (ss_queue s) = Suc (length (filter (\<lambda>u. tk_addr u \<noteq> tk_addr t) (ss_queue s)))"
    by (rule length_filter_key [OF d(1) assms(2)])
  have k: "tk_addr u = tk_addr t \<longleftrightarrow> u = t" "tk_sc u = tk_sc t \<longleftrightarrow> u = t" if "u \<in> set (ss_queue s)" for u
    using distinct_key_eq [OF d(1) that assms(2)] distinct_key_eq [OF d(2) that assms(2)] by auto
  show "queue_links (unlink_task t s)"
    using assms n k
    by (auto simp: queue_links_def unlink_task_def upd_cmnd_def distinct_map_filter) metis
  show "pending (unlink_task t s) = remove1 (tk_sc t) (pending s)"
    using map_filter_key [OF d assms(2)] by (simp add: unlink_task_def upd_cmnd_def)
qed

lemma live_flags_unlink [simp]: "live_flags s \<Longrightarrow> live_flags (unlink_task t s)"
  by (auto simp: live_flags_def unlink_task_def upd_cmnd_def)

lemma complete_task_eq:
  assumes "queue_links s" and "t \<in> set (ss_queue s)" and "slab_ok sl"
  shows "scsitap_complete_task sl (tk_addr t) s =
    (if tk_flags t = SCSITAP_TASK_ABORTED then Inr (unlink_task t s)
     else Inr ((unlink_task t s)\<lparr>ss_done := ss_done s @ [(the (sc_scsi_done (ss_cmnds s (tk_sc t))), tk_sc t)]\<rparr>))"
  using queue_linksD [OF assms(1,2)] assms(3)
  by (auto simp: scsitap_complete_task_def call_scsi_done_def unlink_task_def upd_cmnd_def)

lemma flags_update_keeps [simp]:
  "tk_addr (if b then t\<lparr>tk_flags := f\<rparr> else t) = tk_addr t"
  "tk_sc (if b then t\<lparr>tk_flags := f\<rparr> else t) = tk_sc t"
  "tk_cmd_number (if b then t\<lparr>tk_flags := f\<rparr> else t) = tk_cmd_number t"
  by simp_all

lemma set_task_flags_sel [simp]:
  "pending (set_task_flags a f s) = pending s"
  "map tk_addr (ss_queue (set_task_flags a f s)) = map tk_addr (ss_queue s)"
  "ss_cmnds (set_task_flags a f s) = ss_cmnds s"
  "ss_cmd_numbers (set_task_flags a f s) = ss_cmd_numbers s"
  "ss_done (set_task_flags a f s) = ss_done s"
  "ss_queue_lock (set_task_flags a f s) = ss_queue_lock s"
  "ss_host_lock (set_task_flags a f s) = ss_host_lock s"
  "ss_flags (set_task_flags a f s) = ss_flags s"
  "length (ss_queue (set_task_flags a f s)) = length (ss_queue s)"
  by (simp_all add: set_task_flags_def comp_def del: if_split if_image_distrib)

lemma set_task_flags_links [simp]: "queue_links (set_task_flags a f s) = queue_links s"
  by (simp add: queue_links_def set_task_flags_def comp_def del: if_split if_image_distrib)

lemma unlink_task_sel [simp]:
  "ss_queue_lock (unlink_task t s) = ss_queue_lock s"
  "ss_host_lock (unlink_task t s) = ss_host_lock s"
  "ss_flags (unlink_task t s) = ss_flags s"
  "ss_done (unlink_task t s) = ss_done s"
  "ss_Device_Open (unlink_task t s) = ss_Device_Open s"
  "ss_addr (unlink_task t s) = ss_addr s"
  "ss_dev_id (unlink_task t s) = ss_dev_id s"
  by (simp_all add: unlink_task_def upd_cmnd_def)

lemma queue_links_update [simp]:
  "queue_links (s\<lparr>ss_queue_lock := l\<rparr>) = queue_links s" "queue_links (s\<lparr>ss_host_lock := l\<rparr>) = queue_links s"
  "queue_links (s\<lparr>ss_done := d\<rparr>) = queue_links s" "queue_links (s\<lparr>ss_flags := f\<rparr>) = queue_links s"
  "queue_links (s\<lparr>ss_Device_Open := n\<rparr>) = queue_links s" "queue_links (s\<lparr>ss_pid := p\<rparr>) = queue_links s"
  "live_flags (s\<lparr>ss_queue_lock := l\<rparr>) = live_flags s" "live_flags (s\<lparr>ss_host_lock := l\<rparr>) = live_flags s"
  "live_flags (s\<lparr>ss_done := d\<rparr>) = live_flags s" "live_flags (s\<lparr>ss_flags := f\<rparr>) = live_flags s"
  "live_flags (s\<lparr>ss_Device_Open := n\<rparr>) = live_flags s" "live_flags (s\<lparr>ss_pid := p\<rparr>) = live_flags s"
  by (simp_all add: queue_links_def live_flags_def)

text \<open>Setting a task's flags and unlinking it is unlinking it: how an abort works on the queue.\<close>

lemma unlink_flagged: "unlink_task (t\<lparr>tk_flags := f\<rparr>) (set_task_flags (tk_addr t) f s) = unlink_task t s"
proof -
  have "filter (\<lambda>u. tk_addr u \<noteq> tk_addr t) (map (\<lambda>u. if tk_addr u = tk_addr t then u\<lparr>tk_flags := f\<rparr> else u) q)
      = filter (\<lambda>u. tk_addr u \<noteq> tk_addr t) q" for q :: "scsitap_task list"
    by (induction q) auto
  then show ?thesis
    by (simp add: unlink_task_def set_task_flags_def upd_cmnd_def)
qed

lemma complete_aborted:
  assumes "queue_links s" and "t \<in> set (ss_queue s)" and "slab_ok sl"
  shows "scsitap_complete_task sl (tk_addr t) (set_task_flags (tk_addr t) SCSITAP_TASK_ABORTED s) = Inr (unlink_task t s)"
proof -
  let ?t = "t\<lparr>tk_flags := SCSITAP_TASK_ABORTED\<rparr>" and ?s = "set_task_flags (tk_addr t) SCSITAP_TASK_ABORTED s"
  have "?t \<in> set (ss_queue ?s)"
    using assms(2) by (auto simp: set_task_flags_def intro!: image_eqI [where x = t])
  then have "scsitap_complete_task sl (tk_addr ?t) ?s = Inr (unlink_task ?t ?s)"
    using assms complete_task_eq [of ?s ?t sl] by simp
  then show ?thesis by (simp add: unlink_flagged)
qed

lemma unlink_head:
  assumes "queue_links s" and "ss_queue s = t # q"
  shows "ss_queue (unlink_task t s) = q"
  using assms by (auto simp: unlink_task_def upd_cmnd_def queue_links_def filter_id_conv) (metis image_eqI)

lemma abort_each_drains:
  assumes "queue_links s" and "slab_ok sl"
  shows "\<exists>s'. abort_each sl (map tk_addr (ss_queue s)) s = Inr s' \<and> queue_links s' \<and> ss_queue s' = []
    \<and> ss_done s' = ss_done s \<and> ss_queue_lock s' = ss_queue_lock s \<and> ss_host_lock s' = ss_host_lock s
    \<and> ss_flags s' = ss_flags s"
  using assms(1)
proof (induction "ss_queue s" arbitrary: s)
  case Nil
  then show ?case by auto
next
  case (Cons t q)
  let ?s = "unlink_task t s"
  have t: "t \<in> set (ss_queue s)" and q: "ss_queue ?s = q" and l: "queue_links ?s"
    using Cons.hyps(2) Cons.prems queue_links_unlink unlink_head [OF Cons.prems] by (metis list.set_intros(1))+
  then have "abort_each sl (map tk_addr (ss_queue s)) s = abort_each sl (map tk_addr (ss_queue ?s)) ?s"
    using complete_aborted [OF Cons.prems t assms(2)] Cons.hyps(2) [symmetric] by simp
  with Cons.hyps(1) [OF q [symmetric] l] show ?case by simp
qed

section \<open>What the entry points do\<close>

lemmas lock_defs = spin_lock_queue_def spin_unlock_queue_def spin_lock_host_def spin_unlock_host_def

lemma queue_task_links:
  assumes "queue_links s" and "sc \<notin> set (pending s)" and "tk_addr t \<notin> tk_addr ` set (ss_queue s)"
    and "sc_scsi_done (ss_cmnds s sc) \<noteq> None"
  shows "queue_links (queue_task sc t s)" and "pending (queue_task sc t s) = pending s @ [sc]"
  using assms by (auto simp: queue_links_def queue_task_def upd_cmnd_def Let_def)

text \<open>
  A concrete session, at which the theorems are exercised: connected or not, with command 5 pending
  as task 7, or with nothing pending.
\<close>

definition demo_cmnd :: "nat option \<Rightarrow> scsi_cmnd" where
  "demo_cmnd task = \<lparr>sc_device_lun = 0, sc_data_direction = DMA_FROM_DEVICE, sc_cmd_len = 6,
     sc_cmnd = replicate 16 0, sc_request_bufflen = 4, sc_use_sg = 0, sc_request_buffer = Flat [1, 2, 3, 4],
     sc_sense_buffer = replicate 96 0, sc_result = 0, sc_resid = 0,
     sc_scsi_done = (case task of None \<Rightarrow> None | Some a \<Rightarrow> Some 3), sc_SCp_ptr = task\<rparr>"

definition demo_task :: "u32 \<Rightarrow> scsitap_task" where
  "demo_task f = \<lparr>tk_addr = 7, tk_cmd_number = 1, tk_lun = 0, tk_flags = f, tk_type = chr_C, tk_sc = 5, tk_session = 1\<rparr>"

definition demo_session :: "u32 \<Rightarrow> u32 option \<Rightarrow> scsitap_session" where
  "demo_session ready task = \<lparr>ss_addr = 1, ss_dev_id = 0, ss_pid = 0, ss_flags = ready, ss_Device_Open = 1,
     ss_queue_lock = False, ss_cmd_numbers = (if task = None then 0 else 1), ss_next_cmdnumber = 2,
     ss_queue = (case task of None \<Rightarrow> [] | Some f \<Rightarrow> [demo_task f]), ss_host_lock = True,
     ss_cmnds = (\<lambda>c. demo_cmnd (if c = 5 \<and> task \<noteq> None then Some 7 else None)), ss_done = []\<rparr>"

definition demo_slab :: "(u32 \<Rightarrow> u32) \<Rightarrow> slab" where
  "demo_slab stale = \<lparr>slab_alive = True, slab_stale = stale\<rparr>"

lemmas demo_defs = demo_cmnd_def demo_task_def demo_session_def demo_slab_def

lemma demo_session_idle:
  "session_idle (demo_session r None)" "session_idle (demo_session r (Some SCSITAP_TASK_SUBMITTED))"
  "session_idle (demo_session r (Some SCSITAP_TASK_RECEIVED))"
  by (simp_all add: session_idle_def queue_inv_def queue_links_def live_flags_def demo_defs c_consts split: if_splits)

lemma demo_session_sel [simp]:
  "ss_flags (demo_session r x) = r" "pending (demo_session r None) = []" "pending (demo_session r (Some f)) = [5]"
  "ss_queue (demo_session r None) = []" "ss_queue (demo_session r (Some f)) = [demo_task f]"
  "ss_done (demo_session r x) = []" "tk_flags (demo_task f) = f" "tk_sc (demo_task f) = 5"
  "ss_queue_lock (demo_session r x) = False"
  by (simp_all add: demo_defs)

lemma demo_slab_ok: "slab_ok (demo_slab (\<lambda>f. f))"
  by (simp add: slab_ok_def demo_slab_def)

lemma queuecommand_accepts_fact:
  assumes "session_idle s" and "ss_flags s = SCSITAP_CONNECTION_READY"
    and "sc \<notin> set (pending s)" and "a \<notin> tk_addr ` set (ss_queue s)"
  shows "\<exists>s'. scsitap_queuecommand (Some a) sc dn s = Inr (s', 0) \<and> session_idle s'
    \<and> pending s' = pending s @ [sc] \<and> ss_done s' = ss_done s \<and> ss_host_lock s'
    \<and> ss_cmd_numbers s' = ss_cmd_numbers s + 1"
proof -
  define s0 where "s0 = upd_cmnd sc (\<lambda>c. c\<lparr>sc_scsi_done := Some dn, sc_result := 0, sc_SCp_ptr := None\<rparr>)
     (s\<lparr>ss_host_lock := False, ss_queue_lock := True\<rparr>)"
  obtain t where t: "scsitap_alloc_task (ss_addr s) (Some a) = Some t" "tk_addr t = a"
    by (simp add: scsitap_alloc_task_def)
  have l0: "queue_links s0" and f0: "live_flags s0" and q0: "ss_queue s0 = ss_queue s"
    using assms(1,3) by (auto simp: s0_def session_idle_def queue_inv_def queue_links_def live_flags_def upd_cmnd_def)
  have l1: "queue_links (queue_task sc t s0)" "pending (queue_task sc t s0) = pending s @ [sc]"
    using queue_task_links [OF l0] assms(3,4) t(2) q0 by (auto simp: s0_def upd_cmnd_def)
  moreover have "live_flags (queue_task sc t s0)"
    using f0 by (auto simp: live_flags_def queue_task_def upd_cmnd_def Let_def)
  moreover have "scsitap_queuecommand (Some a) sc dn s
      = Inr ((queue_task sc t s0)\<lparr>ss_queue_lock := False, ss_host_lock := True\<rparr>, 0)"
    using assms(1,2) t(1)
    by (simp add: scsitap_queuecommand_def lock_defs session_idle_def s0_def Let_def queue_task_def upd_cmnd_def)
  moreover have "ss_done (queue_task sc t s0) = ss_done s"
      "ss_cmd_numbers (queue_task sc t s0) = ss_cmd_numbers s + 1"
    by (simp_all add: s0_def queue_task_def upd_cmnd_def Let_def)
  ultimately show ?thesis
    by (simp add: session_idle_def queue_inv_def)
qed

text \<open>
  C17.  A command given to a ready session, with a free slot of the slab, is accepted without fault:
  it becomes the youngest pending command, linked to its task both ways and counted; no callback is
  made, the host lock is held again on return as on entry, the queue lock is free.
\<close>

theorem queuecommand_accepts:
  assumes "session_idle s" and "ss_flags s = SCSITAP_CONNECTION_READY"
    and "sc \<notin> set (pending s)" and "a \<notin> tk_addr ` set (ss_queue s)"
  shows "\<exists>s'. scsitap_queuecommand (Some a) sc dn s = Inr (s', 0) \<and> session_idle s'
    \<and> pending s' = pending s @ [sc] \<and> ss_done s' = ss_done s \<and> ss_host_lock s'
    \<and> ss_cmd_numbers s' = ss_cmd_numbers s + 1"
  using assms by (rule queuecommand_accepts_fact)

theorem queuecommand_accepts_witness:
  "\<exists>s'. scsitap_queuecommand (Some 7) 5 3 (demo_session 1 None) = Inr (s', 0) \<and> pending s' = [5]"
  using queuecommand_accepts [OF demo_session_idle(1), of 1 5 7 3] by (auto simp: c_consts)

lemma queuecommand_not_ready_fact:
  assumes "session_idle s" and "ss_flags s \<noteq> SCSITAP_CONNECTION_READY" and "length (sc_sense_buffer (ss_cmnds s sc)) = SCSI_SENSE_BUFFERSIZE"
  shows "\<exists>s'. scsitap_queuecommand slot sc dn s = Inr (s', 0) \<and> session_idle s'
    \<and> ss_queue s' = ss_queue s \<and> ss_done s' = ss_done s @ [(dn, sc)] \<and> ss_host_lock s'
    \<and> sc_result (ss_cmnds s' sc) = 0x10000 \<and> sc_resid (ss_cmnds s' sc) = sc_request_bufflen (ss_cmnds s' sc)
    \<and> sc_sense_buffer (ss_cmnds s' sc) ! 2 = NOT_READY \<and> sc_sense_buffer (ss_cmnds s' sc) ! 12 = 8"
  using assms
  by (auto simp: scsitap_queuecommand_def lock_defs session_idle_def queue_inv_def queue_links_def live_flags_def
      upd_cmnd_def Let_def set_sensedata_commfailure_def c_consts)

text \<open>
  A command given to a session that is not ready is finished on the spot: the callback passed
  in is called once, the result is \<open>DID_NO_CONNECT << 16\<close>, nothing was transferred, the sense
  data says that the communication with the unit failed, and the queue is as it was.
\<close>

lemma queuecommand_not_ready:
  assumes "session_idle s" and "ss_flags s \<noteq> SCSITAP_CONNECTION_READY" and "length (sc_sense_buffer (ss_cmnds s sc)) = SCSI_SENSE_BUFFERSIZE"
  shows "\<exists>s'. scsitap_queuecommand slot sc dn s = Inr (s', 0) \<and> session_idle s'
    \<and> ss_queue s' = ss_queue s \<and> ss_done s' = ss_done s @ [(dn, sc)] \<and> ss_host_lock s'
    \<and> sc_result (ss_cmnds s' sc) = 0x10000 \<and> sc_resid (ss_cmnds s' sc) = sc_request_bufflen (ss_cmnds s' sc)
    \<and> sc_sense_buffer (ss_cmnds s' sc) ! 2 = NOT_READY \<and> sc_sense_buffer (ss_cmnds s' sc) ! 12 = 8"
  using assms by (rule queuecommand_not_ready_fact)

lemma queuecommand_not_ready_witness:
  "\<exists>s'. scsitap_queuecommand (Some 7) 5 3 (demo_session 0 None) = Inr (s', 0) \<and> ss_done s' = [(3, 5)]"
  using queuecommand_not_ready [OF demo_session_idle(1), of 0 5 "Some 7" 3] by (auto simp: c_consts demo_defs)

lemma queuecommand_busy_fact:
  assumes "session_idle s" and "ss_flags s = SCSITAP_CONNECTION_READY" and "sc \<notin> set (pending s)"
  shows "\<exists>s'. scsitap_queuecommand None sc dn s = Inr (s', SCSI_MLQUEUE_HOST_BUSY) \<and> session_idle s'
    \<and> ss_queue s' = ss_queue s \<and> ss_done s' = ss_done s \<and> ss_host_lock s'"
  using assms
  by (auto simp: scsitap_queuecommand_def scsitap_alloc_task_def lock_defs session_idle_def queue_inv_def
      queue_links_def live_flags_def upd_cmnd_def)

lemma pending_task:
  assumes "queue_links s" and "sc \<in> set (pending s)"
  obtains t where "t \<in> set (ss_queue s)" and "tk_sc t = sc" and "sc_SCp_ptr (ss_cmnds s sc) = Some (tk_addr t)"
  using assms by (auto simp: queue_links_def)

lemma not_pending_SCp:
  assumes "queue_links s" and "sc \<notin> set (pending s)"
  shows "sc_SCp_ptr (ss_cmnds s sc) = None"
  using assms by (cases "sc_SCp_ptr (ss_cmnds s sc)") (auto simp: queue_links_def image_iff, blast)

lemma eh_abort_removes_fact:
  assumes "session_idle s" and "slab_ok sl"
  shows "\<exists>s'. scsitap_eh_abort sl sc s = Inr (s', SUCCESS) \<and> session_idle s'
    \<and> pending s' = remove1 sc (pending s) \<and> ss_done s' = ss_done s \<and> ss_host_lock s'"
proof -
  define s1 where "s1 = s\<lparr>ss_host_lock := False, ss_queue_lock := True\<rparr>"
  have s1: "queue_links s1" "live_flags s1" "pending s1 = pending s" "ss_done s1 = ss_done s"
    "ss_queue_lock s1" "\<not> ss_host_lock s1"
    using assms(1) by (auto simp: s1_def session_idle_def queue_inv_def)
  have "\<exists>s2. (case sc_SCp_ptr (ss_cmnds s1 sc) of None \<Rightarrow> Inr s1
      | Some a \<Rightarrow> scsitap_complete_task sl a (set_task_flags a SCSITAP_TASK_ABORTED s1)) = Inr s2
      \<and> queue_inv s2 \<and> pending s2 = remove1 sc (pending s) \<and> ss_done s2 = ss_done s \<and> \<not> ss_host_lock s2"
  proof (cases "sc \<in> set (pending s1)")
    case True
    then obtain t where t: "t \<in> set (ss_queue s1)" "tk_sc t = sc" "sc_SCp_ptr (ss_cmnds s1 sc) = Some (tk_addr t)"
      using pending_task [OF s1(1)] by blast
    then show ?thesis
      using s1 complete_aborted [OF s1(1) t(1) assms(2)] queue_links_unlink [OF s1(1) t(1)]
      by (simp add: queue_inv_def)
  next
    case False
    then show ?thesis
      using s1 not_pending_SCp [OF s1(1)] by (simp add: queue_inv_def remove1_idem)
  qed
  moreover have "spin_lock_queue (spin_unlock_host s) = Inr s1"
    using assms(1) by (simp add: lock_defs s1_def session_idle_def)
  ultimately show ?thesis
    unfolding scsitap_eh_abort_def
    by (auto simp: lock_defs session_idle_def queue_inv_def)
qed

text \<open>
  C29.  Aborting a command takes exactly that command out of the queue, if it is there, and reports
  success; \<open>scsi_done\<close> is not called for it, and the other commands stay in their order.
\<close>

theorem eh_abort_removes:
  assumes "session_idle s" and "slab_ok sl"
  shows "\<exists>s'. scsitap_eh_abort sl sc s = Inr (s', SUCCESS) \<and> session_idle s'
    \<and> pending s' = remove1 sc (pending s) \<and> ss_done s' = ss_done s \<and> ss_host_lock s'"
  using assms by (rule eh_abort_removes_fact)

theorem eh_abort_removes_witness:
  "\<exists>s'. scsitap_eh_abort (demo_slab (\<lambda>f. f)) 5 (demo_session 1 (Some 1)) = Inr (s', SUCCESS) \<and> ss_queue s' = [] \<and> ss_done s' = []"
  using eh_abort_removes [OF demo_session_idle(2) demo_slab_ok, of 5 1] by (auto simp: SCSITAP_TASK_SUBMITTED_def)

lemma host_reset_drains_fact:
  assumes "session_idle s" and "slab_ok sl"
  shows "\<exists>s'. scsitap_eh_host_reset sl s = Inr (s', SUCCESS) \<and> session_idle s'
    \<and> ss_queue s' = [] \<and> ss_cmd_numbers s' = 0 \<and> ss_done s' = ss_done s"
proof -
  have l: "queue_links (s\<lparr>ss_queue_lock := True\<rparr>)"
    using assms(1) by (simp add: session_idle_def queue_inv_def)
  obtain s2 where "abort_each sl (map tk_addr (ss_queue s)) (s\<lparr>ss_queue_lock := True\<rparr>) = Inr s2"
      and "queue_links s2" "ss_queue s2 = []" "ss_done s2 = ss_done s"
    using abort_each_drains [OF l assms(2)] by auto
  then show ?thesis
    using assms(1)
    by (auto simp: scsitap_eh_host_reset_def lock_defs session_idle_def queue_inv_def live_flags_def queue_links_def)
qed

text \<open>
  The host reset empties the queue without calling \<open>scsi_done\<close>, leaves the command count at
  zero and both locks free, and reports success.
\<close>

lemma host_reset_drains:
  assumes "session_idle s" and "slab_ok sl"
  shows "\<exists>s'. scsitap_eh_host_reset sl s = Inr (s', SUCCESS) \<and> session_idle s'
    \<and> ss_queue s' = [] \<and> ss_cmd_numbers s' = 0 \<and> ss_done s' = ss_done s"
  using assms by (rule host_reset_drains_fact)

lemma host_reset_drains_witness:
  "\<exists>s'. scsitap_eh_host_reset (demo_slab (\<lambda>f. f)) (demo_session 1 (Some 4)) = Inr (s', SUCCESS) \<and> ss_queue s' = []"
  using host_reset_drains [OF demo_session_idle(3) demo_slab_ok, of 1] by (auto simp: SCSITAP_TASK_RECEIVED_def)

text \<open>
  C36.  The abort relies on reading the task's flags after the task was freed.  With an allocator
  that overwrites freed objects (slab poisoning writes \<open>0x6b6b6b6b\<close>), an aborted command is
  handed back to the mid layer through \<open>scsi_done\<close> as well as through the error handler.
\<close>

theorem abort_reads_freed_task:
  assumes "session_idle s" and "sc \<in> set (pending s)" and "slab_alive sl" and "slab_stale sl SCSITAP_TASK_ABORTED = 0x6b6b6b6b"
  shows "\<exists>s'. scsitap_eh_abort sl sc s = Inr (s', SUCCESS) \<and> sc \<in> snd ` set (drop (length (ss_done s)) (ss_done s'))"
proof -
  define s1 where "s1 = s\<lparr>ss_host_lock := False, ss_queue_lock := True\<rparr>"
  have s1: "queue_links s1" "sc \<in> set (pending s1)"
    using assms(1,2) by (auto simp: s1_def session_idle_def queue_inv_def)
  then obtain t where t: "t \<in> set (ss_queue s1)" "tk_sc t = sc" "sc_SCp_ptr (ss_cmnds s1 sc) = Some (tk_addr t)"
    using pending_task by blast
  let ?t = "t\<lparr>tk_flags := SCSITAP_TASK_ABORTED\<rparr>" and ?s = "set_task_flags (tk_addr t) SCSITAP_TASK_ABORTED s1"
  have "?t \<in> set (ss_queue ?s)"
    using t(1) by (auto simp: set_task_flags_def intro!: image_eqI [where x = t])
  then have "find (\<lambda>u. tk_addr u = tk_addr t) (ss_queue ?s) = Some ?t" "sc_scsi_done (ss_cmnds ?s (tk_sc ?t)) \<noteq> None"
    using queue_linksD [of ?s ?t] s1(1) by auto
  then have "\<exists>f. scsitap_complete_task sl (tk_addr t) ?s = Inr ((unlink_task t s1)\<lparr>ss_done := ss_done s @ [(f, sc)]\<rparr>)"
    using assms(3,4) t(2) unlink_flagged [where t = t and f = SCSITAP_TASK_ABORTED and s = s1]
    by (auto simp: scsitap_complete_task_def call_scsi_done_def unlink_task_def upd_cmnd_def c_consts s1_def)
  moreover have "spin_lock_queue (spin_unlock_host s) = Inr s1" and "\<not> ss_host_lock s1"
    using assms(1) by (simp_all add: lock_defs s1_def session_idle_def)
  ultimately show ?thesis
    using t(3) unfolding scsitap_eh_abort_def by (auto simp: lock_defs)
qed

theorem abort_reads_freed_task_witness:
  "\<exists>s'. scsitap_eh_abort (demo_slab (\<lambda>f. 0x6b6b6b6b)) 5 (demo_session 1 (Some 1)) = Inr (s', SUCCESS) \<and> 5 \<in> snd ` set (ss_done s')"
  using abort_reads_freed_task [OF demo_session_idle(2), of 5 1 "demo_slab (\<lambda>f. 0x6b6b6b6b)"]
  by (auto simp: SCSITAP_TASK_SUBMITTED_def demo_slab_def)

section \<open>Serial numbers\<close>

text \<open>
  The command number is how user space names a task.  Until the 32-bit counter wraps, the queue is
  sorted by number and every number is below the counter.
\<close>

definition numbers_inv :: "scsitap_session \<Rightarrow> bool" where
  "numbers_inv s \<longleftrightarrow> ss_next_cmdnumber s \<noteq> 0 \<and> sorted_wrt (\<lambda>t u. tk_cmd_number t < tk_cmd_number u) (ss_queue s)
     \<and> (\<forall>t\<in>set (ss_queue s). tk_cmd_number t < ss_next_cmdnumber s)"

lemma find_sorted_number:
  assumes "sorted_wrt (\<lambda>t u. tk_cmd_number t < tk_cmd_number u) q" and "t \<in> set q"
  shows "find (\<lambda>u. tk_cmd_number u = tk_cmd_number t) q = Some t"
  using assms by (induction q) auto

lemma find_appended: "find P xs = None \<Longrightarrow> find P (xs @ ys) = find P ys"
  by (induction xs) (auto split: if_splits)

lemma queue_task_numbers:
  assumes "numbers_inv s" and "ss_next_cmdnumber s \<noteq> -1"
  shows "numbers_inv (queue_task sc t s)"
    and "\<exists>u. task_of_cmd (queue_task sc t s) (ss_next_cmdnumber s) = Some u \<and> tk_sc u = sc"
proof -
  have lt: "y < ss_next_cmdnumber s + 1" if "y \<le> ss_next_cmdnumber s" for y
    using that word_less_succ(2) [OF assms(2)] by simp
  have "task_of_cmd s (ss_next_cmdnumber s) = None"
    using assms(1) by (auto simp: task_of_cmd_def numbers_inv_def find_None_iff)
  then show "\<exists>u. task_of_cmd (queue_task sc t s) (ss_next_cmdnumber s) = Some u \<and> tk_sc u = sc"
    using assms(1) by (auto simp: task_of_cmd_def queue_task_def upd_cmnd_def Let_def numbers_inv_def find_appended)
  show "numbers_inv (queue_task sc t s)"
    using assms(1) word_less_succ [OF assms(2)]
    by (auto simp: numbers_inv_def queue_task_def upd_cmnd_def Let_def sorted_wrt_append intro: lt)
qed

section \<open>The queue as the character device sees it\<close>

text \<open>
  The device's handlers find a task by number and complete it.  They rely on three things: a found
  task is a pending command, no command is pending twice, and completing a task removes exactly its
  command, without fault, and keeps the queue in order.
\<close>

locale command_queue =
  fixes inv :: "'s \<Rightarrow> bool"
    and commands :: "'s \<Rightarrow> nat list"
    and find_cmd :: "'s \<Rightarrow> u32 \<Rightarrow> 't option"
    and finish :: "'t \<Rightarrow> 's \<Rightarrow> 's res"
    and command :: "'t \<Rightarrow> nat"
  assumes inv_distinct: "inv s \<Longrightarrow> distinct (commands s)"
    and find_pending: "inv s \<Longrightarrow> find_cmd s n = Some t \<Longrightarrow> command t \<in> set (commands s)"
    and finish_ok: "inv s \<Longrightarrow> find_cmd s n = Some t \<Longrightarrow>
      \<exists>s'. finish t s = Inr s' \<and> inv s' \<and> commands s' = remove1 (command t) (commands s)"
begin

lemma finish_no_fault: "inv s \<Longrightarrow> find_cmd s n = Some t \<Longrightarrow> finish t s \<noteq> Inl e"
  using finish_ok by fastforce

lemma finish_removes:
  assumes "inv s" and "find_cmd s n = Some t" and "finish t s = Inr s'"
  shows "set (commands s') = set (commands s) - {command t}" and "inv s'"
    and "length (commands s) = Suc (length (commands s'))"
  using finish_ok [OF assms(1,2)] inv_distinct [OF assms(1)] find_pending [OF assms(1,2)] assms(3)
  by (auto simp: length_remove1 dest: length_pos_if_in_set)

text \<open>A command that was completed is not found again, whatever number is asked for.\<close>

lemma finished_not_found:
  assumes "inv s" and "find_cmd s n = Some t" and "finish t s = Inr s'" and "find_cmd s' m = Some u"
  shows "command u \<noteq> command t"
  using finish_removes [OF assms(1-3)] find_pending [OF _ assms(4)] by auto

end

lemma complete_task_live:
  assumes "queue_inv s" and "t \<in> set (ss_queue s)" and "slab_ok sl"
  shows "scsitap_complete_task sl (tk_addr t) s =
    Inr ((unlink_task t s)\<lparr>ss_done := ss_done s @ [(the (sc_scsi_done (ss_cmnds s (tk_sc t))), tk_sc t)]\<rparr>)"
proof -
  have "tk_flags t \<noteq> SCSITAP_TASK_ABORTED"
    using assms(1,2) by (auto simp: queue_inv_def live_flags_def c_consts)
  then show ?thesis
    using complete_task_eq [of s t sl] assms by (simp add: queue_inv_def)
qed

text \<open>Finishing everything that is pending, as the removal of a session does.\<close>

definition not_connected :: "scsi_cmnd \<Rightarrow> scsi_cmnd" where
  "not_connected c = set_sensedata_commfailure (c\<lparr>sc_result := push_bit 16 DID_NO_CONNECT, sc_resid := sc_request_bufflen c\<rparr>)"

lemma not_connected_sel [simp]:
  "sc_SCp_ptr (not_connected c) = sc_SCp_ptr c" "sc_scsi_done (not_connected c) = sc_scsi_done c"
  "sc_result (not_connected c) = 0x10000" "sc_resid (not_connected c) = sc_request_bufflen c"
  by (simp_all add: not_connected_def set_sensedata_commfailure_def c_consts)

lemma upd_cmnd_keeps_links:
  assumes "\<And>c. sc_SCp_ptr (f c) = sc_SCp_ptr c" and "\<And>c. sc_scsi_done (f c) = sc_scsi_done c"
  shows "queue_links (upd_cmnd sc f s) = queue_links s" and "live_flags (upd_cmnd sc f s) = live_flags s"
proof -
  have c: "sc_SCp_ptr (ss_cmnds (upd_cmnd sc f s) c) = sc_SCp_ptr (ss_cmnds s c)"
    "sc_scsi_done (ss_cmnds (upd_cmnd sc f s) c) = sc_scsi_done (ss_cmnds s c)" for c
    by (simp_all add: upd_cmnd_def assms)
  have q: "ss_queue (upd_cmnd sc f s) = ss_queue s" "ss_cmd_numbers (upd_cmnd sc f s) = ss_cmd_numbers s"
    by (simp_all add: upd_cmnd_def)
  show "queue_links (upd_cmnd sc f s) = queue_links s" and "live_flags (upd_cmnd sc f s) = live_flags s"
    by (simp_all add: queue_links_def live_flags_def c q)
qed

lemma finish_each_ok:
  assumes "queue_inv s" and "slab_ok sl"
  shows "\<exists>s'. finish_each sl (map tk_addr (ss_queue s)) s = Inr s' \<and> queue_inv s' \<and> ss_queue s' = []
    \<and> map snd (ss_done s') = map snd (ss_done s) @ pending s
    \<and> (\<forall>c\<in>set (pending s). ss_cmnds s' c = (not_connected (ss_cmnds s c))\<lparr>sc_SCp_ptr := None\<rparr>)
    \<and> (\<forall>c. c \<notin> set (pending s) \<longrightarrow> ss_cmnds s' c = ss_cmnds s c)"
  using assms(1)
proof (induction "ss_queue s" arbitrary: s)
  case Nil
  then show ?case by auto
next
  case (Cons t q)
  let ?s = "upd_cmnd (tk_sc t) not_connected s"
  define s2 where "s2 = (unlink_task t ?s)\<lparr>ss_done := ss_done s @ [(the (sc_scsi_done (ss_cmnds ?s (tk_sc t))), tk_sc t)]\<rparr>"
  have inv: "queue_inv ?s"
    using Cons.prems by (simp add: queue_inv_def upd_cmnd_keeps_links)
  have qs: "ss_queue ?s = t # q" and dlog: "ss_done ?s = ss_done s"
    using Cons.hyps(2) by (simp_all add: upd_cmnd_def)
  then have t: "t \<in> set (ss_queue ?s)" by simp
  have notin: "tk_sc t \<notin> tk_sc ` set q"
    using Cons.prems Cons.hyps(2) [symmetric] by (auto simp: queue_inv_def queue_links_def)
  have links: "queue_links ?s" using inv by (simp add: queue_inv_def)
  have inv2: "queue_inv s2" and q2: "ss_queue s2 = q"
    using queue_links_unlink(1) [OF links t] unlink_head [OF links qs] inv by (simp_all add: s2_def queue_inv_def)
  have find: "find (\<lambda>u. tk_addr u = tk_addr t) (ss_queue s) = Some t"
    using Cons.hyps(2) [symmetric] by simp
  have "scsitap_complete_task sl (tk_addr t) ?s = Inr s2"
    using complete_task_live [OF inv t assms(2)] dlog by (simp add: s2_def)
  then have step: "finish_each sl (map tk_addr (ss_queue s)) s = finish_each sl (map tk_addr q) s2"
    using find Cons.hyps(2) [symmetric] by (simp add: not_connected_def [abs_def])
  obtain s' where s': "finish_each sl (map tk_addr q) s2 = Inr s'" "queue_inv s'" "ss_queue s' = []"
      "map snd (ss_done s') = map snd (ss_done s2) @ map tk_sc q"
      "\<forall>c\<in>tk_sc ` set q. ss_cmnds s' c = (not_connected (ss_cmnds s2 c))\<lparr>sc_SCp_ptr := None\<rparr>"
      "\<forall>c. c \<notin> tk_sc ` set q \<longrightarrow> ss_cmnds s' c = ss_cmnds s2 c"
    using Cons.hyps(1) [OF q2 [symmetric] inv2] q2 by auto
  have cm: "ss_cmnds s2 c = (if c = tk_sc t then (not_connected (ss_cmnds s c))\<lparr>sc_SCp_ptr := None\<rparr> else ss_cmnds s c)" for c
    by (simp add: s2_def unlink_task_def upd_cmnd_def)
  have dn: "map snd (ss_done s2) = map snd (ss_done s) @ [tk_sc t]" by (simp add: s2_def)
  show ?case
    unfolding step using s' cm dn notin Cons.hyps(2) [symmetric] by auto
qed

interpretation hba_queue: command_queue
  "\<lambda>s. slab_ok sl \<and> queue_inv s" pending task_of_cmd "\<lambda>t. scsitap_complete_task sl (tk_addr t)" tk_sc
  for sl
proof (unfold_locales, goal_cases)
  case (1 s)
  then show ?case by (simp add: queue_inv_def queue_links_def)
next
  case (2 s n t)
  then show ?case by (auto simp: task_of_cmd_def dest: find_SomeD)
next
  case (3 s n t)
  then have t: "t \<in> set (ss_queue s)" by (auto simp: task_of_cmd_def dest: find_SomeD)
  with 3 show ?case
    using complete_task_live [of s t sl] queue_links_unlink [of s t] by (simp add: queue_inv_def)
qed

end
