(* ===== verification/Device.thy ===== *)
theory Device
  imports Hba
begin

text \<open>
  The character device, \<open>kernel/device.c\<close>, on one session: how a target process takes commands
  and answers them (\<open>read\<close>, \<open>write\<close>, the \<open>ioctl\<close> that claims a task).  The lookup
  of the session through the file is in the theory \<open>Sessions\<close>.
\<close>

section \<open>Copying between the command and user memory\<close>

definition scsitap_task_to_user :: "scsi_cmnd \<Rightarrow> scsitap_task \<Rightarrow> u8 \<Rightarrow> bytes \<Rightarrow> bytes \<times> int" where
  "scsitap_task_to_user c t type ub =
     (let ub = put_user type 0 ub;
          ub = put_user (if sc_data_direction c = DMA_TO_DEVICE then chr_O else chr_I) 1 ub;
          (ub, r) = copy_to_user 2 (le32_bytes (tk_cmd_number t)) ub
      in if r \<noteq> 0 then (ub, - EFAULT) else
      let (ub, r) = copy_to_user 6 (le32_bytes (tk_lun t)) ub
      in if r \<noteq> 0 then (ub, - EFAULT) else
      let ub = put_user (sc_cmd_len c) 10 ub;
          (ub, r) = copy_to_user 11 (segment 0 MAX_COMMAND_SIZE (sc_cmnd c)) ub
      in if r \<noteq> 0 then (ub, - EFAULT) else
      let (ub, r) = copy_to_user 27 (le32_bytes (sc_request_bufflen c)) ub
      in if r \<noteq> 0 then (ub, - EFAULT) else (ub, 31))"

text \<open>
  The scatter-gather loops run over \<open>use_sg\<close> entries; \<open>off\<close> is how far the flat buffer
  has been read or written.
\<close>

fun copy_from_user_sg ::
  "scatterlist list \<Rightarrow> nat \<Rightarrow> bytes \<Rightarrow> nat \<Rightarrow> (scatterlist list \<times> nat) res" where
  "copy_from_user_sg gs 0 ub off = Inr (gs, 0)"
| "copy_from_user_sg [] (Suc n) ub off = Inl Out_of_bounds"
| "copy_from_user_sg (g # gs) (Suc n) ub off = (case sg_page g of
       None \<Rightarrow> Inr (g # gs, 1)
     | Some pg \<Rightarrow>
         (let (bs, r) = copy_from_user off (sg_length g) ub
          in and_then (store (sg_offset g) bs pg) (\<lambda>pg'.
               let g' = g\<lparr>sg_page := Some pg'\<rparr>
               in if r \<noteq> 0 then Inr (g' # gs, r)
                  else and_then (copy_from_user_sg gs n ub (off + sg_length g))
                         (\<lambda>(gs', r'). Inr (g' # gs', r')))))"

fun copy_to_user_sg ::
  "nat \<Rightarrow> scatterlist list \<Rightarrow> nat \<Rightarrow> bytes \<Rightarrow> (bytes \<times> nat) res" where
  "copy_to_user_sg off gs 0 ub = Inr (ub, 0)"
| "copy_to_user_sg off [] (Suc n) ub = Inl Out_of_bounds"
| "copy_to_user_sg off (g # gs) (Suc n) ub = (case sg_page g of
       None \<Rightarrow> Inr (ub, 1)
     | Some pg \<Rightarrow> and_then (load (sg_offset g) (sg_length g) pg) (\<lambda>bs.
         let (ub', r) = copy_to_user off bs ub
         in if r \<noteq> 0 then Inr (ub', r) else copy_to_user_sg (off + sg_length g) gs n ub'))"

section \<open>read\<close>

text \<open>
  The part of \<open>scsitap_ctl_read\<close> that runs under the queue lock.  \<open>fp\<close> is
  \<open>file->f_pos\<close>, \<open>count\<close> the size asked for, \<open>ub\<close> the user's buffer.
\<close>

definition ctl_read_data :: "scsi_cmnd \<Rightarrow> scsitap_task \<Rightarrow> bytes \<Rightarrow> (bytes \<times> int) res" where
  "ctl_read_data c t ub =
     (let (ub1, ret) = scsitap_task_to_user c t chr_D ub
      in if ret < 0 then Inr (ub1, ret)
         else if sc_request_bufflen c > 0 then
           if sc_use_sg c = 0 then
             (case sc_request_buffer c of
                Flat xs \<Rightarrow> and_then (load 0 (unat (sc_request_bufflen c)) xs) (\<lambda>bs.
                  let (ub2, r) = copy_to_user (nat ret) bs ub1
                  in Inr (ub2, if r \<noteq> 0 then - EFAULT else ret))
              | Sg gs \<Rightarrow> Inl Out_of_bounds)
           else
             (case sc_request_buffer c of
                Flat xs \<Rightarrow> Inl Out_of_bounds
              | Sg gs \<Rightarrow> and_then (copy_to_user_sg (nat ret) gs (unat (sc_use_sg c)) ub1) (\<lambda>(ub2, r).
                  Inr (ub2, if r \<noteq> 0 then - EFAULT else ret)))
         else Inr (ub1, ret))"

definition ctl_read_locked :: "u64 \<Rightarrow> nat \<Rightarrow> bytes \<Rightarrow> scsitap_session \<Rightarrow> (bytes \<times> int) res" where
  "ctl_read_locked fp count ub s =
     (if ss_flags s \<noteq> SCSITAP_CONNECTION_READY then Inr (ub, - EINVAL)
      else if count = SCSITAP_UHEADER_SIZE then
        (case find (\<lambda>t. tk_flags t = SCSITAP_TASK_SUBMITTED) (ss_queue s) of
           Some t \<Rightarrow> Inr (scsitap_task_to_user (ss_cmnds s (tk_sc t)) t (tk_type t) ub)
         | None \<Rightarrow> Inr (ub, 0))
      else if count > SCSITAP_UHEADER_SIZE then
        (case task_of_cmd s (ucast fp) of
           None \<Rightarrow> Inr (ub, 0)
         | Some t \<Rightarrow>
             if tk_flags t \<noteq> SCSITAP_TASK_RECEIVED then Inr (ub, 0)
             else if count \<noteq> unat (of_nat SCSITAP_UHEADER_SIZE + sc_request_bufflen (ss_cmnds s (tk_sc t)))
               then Inr (ub, - EBADF)
             else ctl_read_data (ss_cmnds s (tk_sc t)) t ub)
      else Inr (ub, - EINVAL))"

text \<open>
  The handler sleeps while the queue is empty, unless a signal wakes it (\<open>sig\<close>); \<open>Inr None\<close>
  is a call that stays asleep.
\<close>

definition ctl_read :: "bool \<Rightarrow> u64 \<Rightarrow> nat \<Rightarrow> bytes \<Rightarrow> scsitap_session
    \<Rightarrow> (scsitap_session \<times> bytes \<times> int) option res" where
  "ctl_read sig fp count ub s =
     (if ss_queue s = [] \<and> \<not> sig then Inr None
      else and_then (spin_lock_queue s) (\<lambda>s1.
        and_then (ctl_read_locked fp count ub s1) (\<lambda>(ub', ret).
          Inr (Some (spin_unlock_queue s1, ub', ret)))))"

section \<open>write\<close>

text \<open>The data of a command that succeeded; the flag says that the user's buffer was too short.\<close>

definition accept_data :: "bytes \<Rightarrow> scsi_cmnd \<Rightarrow> (scsi_cmnd \<times> bool) res" where
  "accept_data ub c =
     (if sc_use_sg c = 0 then
        (case sc_request_buffer c of
           Flat xs \<Rightarrow> (let (bs, r) = copy_from_user 6 (unat (sc_request_bufflen c)) ub
             in and_then (store 0 bs xs) (\<lambda>xs'. Inr (c\<lparr>sc_request_buffer := Flat xs'\<rparr>, r \<noteq> 0)))
         | Sg gs \<Rightarrow> Inl Out_of_bounds)
      else
        (case sc_request_buffer c of
           Flat xs \<Rightarrow> Inl Out_of_bounds
         | Sg gs \<Rightarrow> and_then (copy_from_user_sg gs (unat (sc_use_sg c)) ub 6) (\<lambda>(gs', r).
             Inr (c\<lparr>sc_request_buffer := Sg gs'\<rparr>, r \<noteq> 0))))"

text \<open>
  What the answer makes of the command block: its data or sense data and the status to report, or
  \<open>None\<close> for the status when the copy failed.
\<close>

definition apply_answer :: "nat \<Rightarrow> bytes \<Rightarrow> u8 \<Rightarrow> scsi_cmnd \<Rightarrow> (scsi_cmnd \<times> u8 option) res" where
  "apply_answer count ub scsi_status c =
     (if scsi_status = 0 then
        (if count > 6 then
           and_then (accept_data ub c) (\<lambda>(c', failed).
             if failed then Inr (c', None) else Inr (set_sensedata c', Some scsi_status))
         else Inr (set_sensedata c, Some scsi_status))
      else if drop_bit 7 scsi_status = 0 then Inr (set_sensedata_illegal c, Some scsi_status)
      else (let (bs, r) = copy_from_user 6 14 ub
        in and_then (store 0 bs (sc_sense_buffer c)) (\<lambda>sb.
             let c' = c\<lparr>sc_sense_buffer := sb\<rparr>
             in if r \<noteq> 0 then Inr (c', None) else Inr (c', Some (scsi_status AND 0x1f)))))"

definition ctl_write_D :: "slab \<Rightarrow> nat \<Rightarrow> bytes \<Rightarrow> scsitap_session \<Rightarrow> (scsitap_session \<times> int) res" where
  "ctl_write_D sl count ub s =
     (let (nb, r) = copy_from_user 1 4 ub
      in if r \<noteq> 0 then Inr (s, - EFAULT)
         else case task_of_cmd s (le32 nb) of
           None \<Rightarrow> Inr (s, to_int count)
         | Some t \<Rightarrow>
             and_then (apply_answer count ub (get_user 5 ub) (ss_cmnds s (tk_sc t))) (\<lambda>(c, st).
               case st of
                 None \<Rightarrow> Inr (upd_cmnd (tk_sc t) (\<lambda>_. c) s, - EFAULT)
               | Some v \<Rightarrow>
                   and_then (scsitap_complete_task sl (tk_addr t)
                       (upd_cmnd (tk_sc t) (\<lambda>_. c\<lparr>sc_result := ucast v\<rparr>) s)) (\<lambda>s'.
                     Inr (s', to_int count))))"

definition ctl_write :: "slab \<Rightarrow> nat \<Rightarrow> bytes \<Rightarrow> scsitap_session \<Rightarrow> (scsitap_session \<times> int) res" where
  "ctl_write sl count ub s =
     and_then (spin_lock_queue s) (\<lambda>s1.
       and_then (if ss_flags s1 \<noteq> SCSITAP_CONNECTION_READY then Inr (s1, - EINVAL)
                 else if get_user 0 ub = chr_D then ctl_write_D sl count ub s1
                 else Inr (s1, 0)) (\<lambda>(s2, ret).
         Inr (spin_unlock_queue s2, ret)))"

section \<open>ioctl on a session\<close>

text \<open>\<open>SCSITAP_IOCTL_RECEIVE_TASK\<close>: the early return keeps the lock.\<close>

definition ioctl_receive :: "u64 \<Rightarrow> scsitap_session \<Rightarrow> (scsitap_session \<times> int) res" where
  "ioctl_receive arg s =
     and_then (spin_lock_queue s) (\<lambda>s1.
       if ss_flags s1 \<noteq> SCSITAP_CONNECTION_READY then Inr (s1, - 1)
       else case task_of_cmd s1 (ucast arg) of
         Some t \<Rightarrow> Inr (spin_unlock_queue (set_task_flags (tk_addr t) SCSITAP_TASK_RECEIVED s1), SUCCESS)
       | None \<Rightarrow> Inr (spin_unlock_queue s1, 0))"

section \<open>The request data as one byte string\<close>

text \<open>
  What the mid layer guarantees of a command block it hands over: the fixed arrays have their sizes
  and the request buffer, flat or scattered, holds \<open>request_bufflen\<close> bytes in mapped memory.
  \<open>cmnd_data\<close> forgets how the bytes are laid out.
\<close>

definition sg_ok :: "scatterlist \<Rightarrow> bool" where
  "sg_ok g \<longleftrightarrow> (case sg_page g of None \<Rightarrow> False | Some pg \<Rightarrow> sg_offset g + sg_length g \<le> length pg)"

fun sg_bytes :: "scatterlist list \<Rightarrow> bytes" where
  "sg_bytes [] = []"
| "sg_bytes (g # gs) = segment (sg_offset g) (sg_length g) (the (sg_page g)) @ sg_bytes gs"

definition cmnd_data :: "scsi_cmnd \<Rightarrow> bytes" where
  "cmnd_data c = (case sc_request_buffer c of Flat xs \<Rightarrow> xs | Sg gs \<Rightarrow> sg_bytes gs)"

definition wf_cmnd :: "scsi_cmnd \<Rightarrow> bool" where
  "wf_cmnd c \<longleftrightarrow> length (sc_cmnd c) = MAX_COMMAND_SIZE \<and> length (sc_sense_buffer c) = SCSI_SENSE_BUFFERSIZE
     \<and> length (cmnd_data c) = unat (sc_request_bufflen c)
     \<and> (case sc_request_buffer c of
          Flat xs \<Rightarrow> sc_use_sg c = 0
        | Sg gs \<Rightarrow> sc_use_sg c \<noteq> 0 \<and> unat (sc_use_sg c) = length gs \<and> (\<forall>g\<in>set gs. sg_ok g))"

lemma cmnd_data_update [simp]:
  "cmnd_data (c\<lparr>sc_SCp_ptr := p\<rparr>) = cmnd_data c" "cmnd_data (c\<lparr>sc_scsi_done := dn\<rparr>) = cmnd_data c"
  "cmnd_data (c\<lparr>sc_result := r\<rparr>) = cmnd_data c" "cmnd_data (c\<lparr>sc_resid := n\<rparr>) = cmnd_data c"
  "cmnd_data (c\<lparr>sc_sense_buffer := sb\<rparr>) = cmnd_data c"
  by (simp_all add: cmnd_data_def)

lemma wf_cmnd_update [simp]:
  "wf_cmnd (c\<lparr>sc_SCp_ptr := p\<rparr>) = wf_cmnd c" "wf_cmnd (c\<lparr>sc_scsi_done := dn\<rparr>) = wf_cmnd c"
  "wf_cmnd (c\<lparr>sc_result := r\<rparr>) = wf_cmnd c" "wf_cmnd (c\<lparr>sc_resid := n\<rparr>) = wf_cmnd c"
  "wf_cmnd c \<Longrightarrow> length sb = SCSI_SENSE_BUFFERSIZE \<Longrightarrow> wf_cmnd (c\<lparr>sc_sense_buffer := sb\<rparr>)"
  by (auto simp: wf_cmnd_def split: request_buffer.splits)

lemma wf_cmnd_sense_len: "wf_cmnd c \<Longrightarrow> length (sc_sense_buffer c) = SCSI_SENSE_BUFFERSIZE"
  by (simp add: wf_cmnd_def)

lemma wf_sense [simp]:
  "wf_cmnd c \<Longrightarrow> wf_cmnd (set_sensedata c)" "wf_cmnd c \<Longrightarrow> wf_cmnd (set_sensedata_illegal c)"
  "wf_cmnd c \<Longrightarrow> wf_cmnd (set_sensedata_commfailure c)"
  by (simp_all add: set_sensedata_def set_sensedata_illegal_def set_sensedata_commfailure_def wf_cmnd_sense_len)

lemma sense_keeps [simp]:
  "sc_SCp_ptr (set_sensedata c) = sc_SCp_ptr c" "sc_scsi_done (set_sensedata c) = sc_scsi_done c"
  "sc_SCp_ptr (set_sensedata_illegal c) = sc_SCp_ptr c" "sc_scsi_done (set_sensedata_illegal c) = sc_scsi_done c"
  "sc_SCp_ptr (set_sensedata_commfailure c) = sc_SCp_ptr c" "sc_scsi_done (set_sensedata_commfailure c) = sc_scsi_done c"
  "cmnd_data (set_sensedata c) = cmnd_data c" "cmnd_data (set_sensedata_illegal c) = cmnd_data c"
  "cmnd_data (set_sensedata_commfailure c) = cmnd_data c"
  by (simp_all add: set_sensedata_def set_sensedata_illegal_def set_sensedata_commfailure_def)

lemma copy_to_user_sg_flat:
  assumes "\<forall>g\<in>set gs. sg_ok g"
  shows "\<exists>r. copy_to_user_sg off gs (length gs) ub = Inr (fst (copy_to_user off (sg_bytes gs) ub), r)
    \<and> (r = 0 \<longleftrightarrow> snd (copy_to_user off (sg_bytes gs) ub) = 0)"
  using assms
proof (induction gs arbitrary: off ub)
  case Nil
  then show ?case by (simp add: copy_to_user_def)
next
  case (Cons g gs)
  then obtain pg where pg: "sg_page g = Some pg" "sg_offset g + sg_length g \<le> length pg"
    by (auto simp: sg_ok_def split: option.splits)
  show ?case
    using Cons.IH [of "off + sg_length g"] Cons.prems pg
    by (auto simp: copy_to_user_append load_def split: prod.splits)
qed
lemma copy_from_user_sg_flat:
  assumes "\<forall>g\<in>set gs. sg_ok g"
  shows "\<exists>gs' r. copy_from_user_sg gs (length gs) ub off = Inr (gs', r) \<and> length gs' = length gs \<and> (\<forall>g\<in>set gs'. sg_ok g)
    \<and> sg_bytes gs' = patch 0 (fst (copy_from_user off (length (sg_bytes gs)) ub)) (sg_bytes gs)
    \<and> (r = 0 \<longleftrightarrow> snd (copy_from_user off (length (sg_bytes gs)) ub) = 0)"
  using assms
proof (induction gs arbitrary: off)
  case Nil
  then show ?case by (simp add: copy_from_user_def)
next
  case (Cons g gs)
  then obtain pg where pg: "sg_page g = Some pg" "sg_offset g + sg_length g \<le> length pg"
    by (auto simp: sg_ok_def split: option.splits)
  let ?n = "sg_length g" and ?m = "length (sg_bytes gs)" and ?o = "sg_offset g"
  define bs where "bs = segment off ?n ub"
  have len: "length bs \<le> ?n" by (simp add: bs_def segment_def)
  then have bs: "?o + length bs \<le> length pg" using pg(2) by simp
  have seg: "segment ?o ?n (patch ?o bs pg) = bs @ drop (length bs) (segment ?o ?n pg)"
    using bs len by (simp add: segment_def patch_def drop_take add.commute)
  show ?case
  proof (cases "length bs = ?n")
    case True
    obtain gs' r where gs': "copy_from_user_sg gs (length gs) ub (off + ?n) = Inr (gs', r)"
        "length gs' = length gs" "\<forall>g\<in>set gs'. sg_ok g"
        "sg_bytes gs' = patch 0 (fst (copy_from_user (off + ?n) ?m ub)) (sg_bytes gs)"
        "r = 0 \<longleftrightarrow> snd (copy_from_user (off + ?n) ?m ub) = 0"
      using Cons.IH [of "off + ?n"] Cons.prems by auto
    have "segment off (?n + ?m) ub = bs @ segment (off + ?n) ?m ub"
      by (simp add: bs_def segment_def take_add add.commute)
    then have cu: "copy_from_user off (?n + ?m) ub = (bs @ segment (off + ?n) ?m ub, ?m - length (segment (off + ?n) ?m ub))"
        "copy_from_user off ?n ub = (bs, 0)" "copy_from_user (off + ?n) ?m ub = (segment (off + ?n) ?m ub, ?m - length (segment (off + ?n) ?m ub))"
      using True by (simp_all add: copy_from_user_def Let_def flip: bs_def)
    let ?g = "g\<lparr>sg_page := Some (patch ?o bs pg)\<rparr>"
    have step: "copy_from_user_sg (g # gs) (length (g # gs)) ub off = Inr (?g # gs', r)"
      using pg(1) bs cu(2) gs'(1) by (simp add: store_eq)
    have bytes: "sg_bytes (?g # gs') = patch 0 (bs @ segment (off + ?n) ?m ub) (sg_bytes (g # gs))"
      using pg True gs'(4) seg by (simp add: cu(3) patch_def)
    have "\<forall>x\<in>set (?g # gs'). sg_ok x" using gs'(3) bs pg(2) by (simp add: sg_ok_def)
    moreover have "length (sg_bytes (g # gs)) = ?n + ?m" using pg by simp
    moreover have "r = 0 \<longleftrightarrow> ?m - length (segment (off + ?n) ?m ub) = 0" using gs'(5) cu(3) by simp
    ultimately show ?thesis
      using step bytes cu(1) gs'(2) by (metis fst_conv length_Cons snd_conv)
  next
    case False
    then have short: "length bs < ?n" "segment off (?n + ?m) ub = bs"
      by (auto simp: bs_def segment_def)
    then have cu: "copy_from_user off (?n + ?m) ub = (bs, ?n + ?m - length bs)" "copy_from_user off ?n ub = (bs, ?n - length bs)"
      by (simp_all add: copy_from_user_def Let_def flip: bs_def)
    let ?g = "g\<lparr>sg_page := Some (patch ?o bs pg)\<rparr>"
    have step: "copy_from_user_sg (g # gs) (length (g # gs)) ub off = Inr (?g # gs, ?n - length bs)"
      using pg(1) bs cu(2) short(1) by (simp add: store_eq)
    have bytes: "sg_bytes (?g # gs) = patch 0 bs (sg_bytes (g # gs))"
      using pg seg short(1) by (simp add: patch_def)
    have "\<forall>x\<in>set (?g # gs). sg_ok x" using Cons.prems bs pg(2) by (simp add: sg_ok_def)
    moreover have "length (sg_bytes (g # gs)) = ?n + ?m" using pg by simp
    moreover have "?n - length bs = 0 \<longleftrightarrow> ?n + ?m - length bs = 0" using short(1) by simp
    ultimately show ?thesis
      using step bytes cu(1) by (metis fst_conv length_Cons snd_conv)
  qed
qed

lemma copy_to_user_sg_ok:
  assumes "\<forall>g\<in>set gs. sg_ok g" and "off + length (sg_bytes gs) \<le> length ub"
  shows "copy_to_user_sg off gs (length gs) ub = Inr (patch off (sg_bytes gs) ub, 0)"
  using copy_to_user_sg_flat [OF assms(1), of off ub] assms(2) by (auto simp: copy_to_user_fits)

lemma copy_from_user_sg_ok:
  assumes "\<forall>g\<in>set gs. sg_ok g" and "off + length (sg_bytes gs) \<le> length ub"
  shows "\<exists>gs'. copy_from_user_sg gs (length gs) ub off = Inr (gs', 0) \<and> length gs' = length gs
    \<and> (\<forall>g\<in>set gs'. sg_ok g) \<and> sg_bytes gs' = segment off (length (sg_bytes gs)) ub"
  using copy_from_user_sg_flat [OF assms(1), of ub off] assms(2) by (auto simp: copy_from_user_fits patch_def)

lemma sg_copy_total:
  assumes "\<forall>g\<in>set gs. sg_ok g"
  shows "\<exists>gs' r. copy_from_user_sg gs (length gs) ub off = Inr (gs', r) \<and> length gs' = length gs
    \<and> (\<forall>g\<in>set gs'. sg_ok g) \<and> length (sg_bytes gs') = length (sg_bytes gs)"
  using copy_from_user_sg_flat [OF assms, of ub off] by (auto simp: copy_from_user_def segment_def)

text \<open>
  C20.  Scatter-gather is an optimisation of a flat copy.  For any user buffer, one that is too
  short included, copying a list of page fragments out writes what one \<open>copy_to_user\<close> of their
  concatenation writes, and copying in puts into the fragments, in order, what one
  \<open>copy_from_user\<close> would fetch; the one fails exactly when the other does.
\<close>

theorem sg_is_flat_copy:
  assumes "\<forall>g\<in>set gs. sg_ok g" and "n = length (sg_bytes gs)"
  shows "(\<exists>r. copy_to_user_sg off gs (length gs) ub = Inr (fst (copy_to_user off (sg_bytes gs) ub), r)
      \<and> (r = 0 \<longleftrightarrow> snd (copy_to_user off (sg_bytes gs) ub) = 0))
    \<and> (\<exists>gs' r. copy_from_user_sg gs (length gs) ub off = Inr (gs', r)
      \<and> sg_bytes gs' = patch 0 (fst (copy_from_user off n ub)) (sg_bytes gs)
      \<and> (r = 0 \<longleftrightarrow> snd (copy_from_user off n ub) = 0))"
  unfolding assms(2) using copy_to_user_sg_flat [OF assms(1)] copy_from_user_sg_flat [OF assms(1)] by blast

definition demo_sg :: "scatterlist list" where
  "demo_sg = [\<lparr>sg_page = Some [1, 2, 3, 4], sg_offset = 1, sg_length = 2\<rparr>, \<lparr>sg_page = Some [5, 6], sg_offset = 0, sg_length = 1\<rparr>]"

theorem sg_is_flat_copy_witness:
  "(\<exists>r. copy_to_user_sg 1 demo_sg (length demo_sg) [0, 0, 0] = Inr ([0, 2, 3], r) \<and> r \<noteq> 0)
    \<and> (\<exists>gs'. copy_from_user_sg demo_sg (length demo_sg) [9, 8, 7, 6] 1 = Inr (gs', 0) \<and> sg_bytes gs' = [8, 7, 6])"
proof
  have ok: "\<forall>g\<in>set demo_sg. sg_ok g" "3 = length (sg_bytes demo_sg)"
    by (simp_all add: demo_sg_def sg_ok_def segment_def)
  have eqs: "copy_to_user 1 (sg_bytes demo_sg) [0, 0, 0] = ([0, 2, 3], 1)" "copy_from_user 1 3 [9, 8, 7, 6] = ([8, 7, 6], 0)"
      "patch 0 [8, 7, 6] (sg_bytes demo_sg) = [8, 7, 6]"
    by (simp_all add: demo_sg_def copy_to_user_def copy_from_user_def segment_def patch_def)
  show "\<exists>r. copy_to_user_sg 1 demo_sg (length demo_sg) [0, 0, 0] = Inr ([0, 2, 3], r) \<and> r \<noteq> 0"
    using sg_is_flat_copy [OF ok, of 1 "[0, 0, 0]"] eqs(1) by auto
  show "\<exists>gs'. copy_from_user_sg demo_sg (length demo_sg) [9, 8, 7, 6] 1 = Inr (gs', 0) \<and> sg_bytes gs' = [8, 7, 6]"
    using sg_is_flat_copy [OF ok, of 1 "[9, 8, 7, 6]"] eqs(2,3) by auto
qed

section \<open>Reading a task\<close>

text \<open>The 31 bytes that describe a task.\<close>

definition task_header :: "scsi_cmnd \<Rightarrow> scsitap_task \<Rightarrow> u8 \<Rightarrow> bytes" where
  "task_header c t type =
     [type, if sc_data_direction c = DMA_TO_DEVICE then chr_O else chr_I] @ le32_bytes (tk_cmd_number t)
     @ le32_bytes (tk_lun t) @ [sc_cmd_len c] @ sc_cmnd c @ le32_bytes (sc_request_bufflen c)"

lemma length_task_header: "length (sc_cmnd c) = MAX_COMMAND_SIZE \<Longrightarrow> length (task_header c t type) = 31"
  by (simp add: task_header_def c_consts)

lemma put_user_patch [mem_simps]: "off < length ub \<Longrightarrow> put_user v off ub = patch off [v] ub"
  by (simp add: put_user_def patch_def upd_conv_take_nth_drop)

lemma task_to_user_ok:
  assumes "length (sc_cmnd c) = MAX_COMMAND_SIZE" and "31 \<le> length ub"
  shows "scsitap_task_to_user c t type ub = (patch 0 (task_header c t type) ub, 31)"
proof -
  have first: "put_user v 0 ub = patch 0 [v] ub" for v
    using assms(2) by (intro put_user_patch) linarith
  have put: "put_user v n (patch 0 bs ub) = patch 0 (bs @ [v]) ub" if "length bs = n" "n < 31" for v n bs
    using that assms(2) patch_append [of 0 bs "[v]" ub] by (simp add: put_user_patch)
  have copy: "copy_to_user n cs (patch 0 bs ub) = (patch 0 (bs @ cs) ub, 0)"
    if "length bs = n" "n + length cs \<le> 31" for n bs cs
    using that assms(2) patch_append [of 0 bs cs ub] by (simp add: copy_to_user_fits)
  show ?thesis
    using assms(1)
    by (simp add: scsitap_task_to_user_def Let_def first put copy task_header_def MAX_COMMAND_SIZE_def segment_def)
qed

section \<open>The session invariant of the device\<close>

text \<open>A session between two handlers whose pending command blocks are well formed.\<close>

definition session_ok :: "scsitap_session \<Rightarrow> bool" where
  "session_ok s \<longleftrightarrow> session_idle s \<and> (\<forall>t\<in>set (ss_queue s). wf_cmnd (ss_cmnds s (tk_sc t)))"

lemma session_okD:
  assumes "session_ok s"
  shows "queue_inv s" and "queue_links s" and "live_flags s" and "\<not> ss_queue_lock s" and "session_idle s"
    and "t \<in> set (ss_queue s) \<Longrightarrow> wf_cmnd (ss_cmnds s (tk_sc t))"
  using assms by (auto simp: session_ok_def session_idle_def queue_inv_def)

lemma lock_unlock:
  assumes "session_ok s"
  shows "spin_lock_queue s = Inr (s\<lparr>ss_queue_lock := True\<rparr>)"
    and "spin_unlock_queue (s\<lparr>ss_queue_lock := True\<rparr>) = s"
  using session_okD(4) [OF assms] by (simp_all add: lock_defs)

lemma demo_session_ok:
  "session_ok (demo_session r (Some SCSITAP_TASK_SUBMITTED))" "session_ok (demo_session r (Some SCSITAP_TASK_RECEIVED))"
  "session_ok (demo_session r None)"
  using demo_session_idle [of r] by (auto simp: session_ok_def wf_cmnd_def cmnd_data_def demo_defs c_consts)

lemma task_of_cmdD: "task_of_cmd s n = Some t \<Longrightarrow> t \<in> set (ss_queue s) \<and> tk_cmd_number t = n"
  by (auto simp: task_of_cmd_def dest: find_SomeD)

lemma task_of_cmd_lock [simp]: "task_of_cmd (s\<lparr>ss_queue_lock := l\<rparr>) n = task_of_cmd s n"
  by (simp add: task_of_cmd_def)

section \<open>What read does\<close>

lemma read_oldest_unclaimed_fact:
  assumes "session_ok s" and "ss_flags s = SCSITAP_CONNECTION_READY" and "31 \<le> length ub"
    and "ss_queue s = earlier @ t # later" and "tk_flags t = SCSITAP_TASK_SUBMITTED"
    and "\<forall>u\<in>set earlier. tk_flags u = SCSITAP_TASK_RECEIVED"
  shows "ctl_read sig fp 31 ub s = Inr (Some (s, patch 0 (task_header (ss_cmnds s (tk_sc t)) t (tk_type t)) ub, 31))"
proof -
  have "find (\<lambda>t. tk_flags t = SCSITAP_TASK_SUBMITTED) (ss_queue s) = Some t"
    using assms(4-6) by (induction earlier arbitrary: s) (auto simp: c_consts find_appended find_None_iff)
  moreover have "length (sc_cmnd (ss_cmnds s (tk_sc t))) = MAX_COMMAND_SIZE"
    using session_okD(6) [OF assms(1), of t] assms(4) by (simp add: wf_cmnd_def)
  ultimately show ?thesis
    using assms(2-4) lock_unlock [OF assms(1)]
    by (simp add: ctl_read_def ctl_read_locked_def task_to_user_ok SCSITAP_UHEADER_SIZE_def)
qed

text \<open>
  A 31-byte read hands out the oldest task nobody has claimed: its header, 31 bytes, and
  nothing in the session changes, so that a second reader sees the same task.
\<close>

lemma read_oldest_unclaimed:
  assumes "session_ok s" and "ss_flags s = SCSITAP_CONNECTION_READY" and "31 \<le> length ub"
    and "ss_queue s = earlier @ t # later" and "tk_flags t = SCSITAP_TASK_SUBMITTED"
    and "\<forall>u\<in>set earlier. tk_flags u = SCSITAP_TASK_RECEIVED"
  shows "ctl_read sig fp 31 ub s = Inr (Some (s, patch 0 (task_header (ss_cmnds s (tk_sc t)) t (tk_type t)) ub, 31))"
  using assms by (rule read_oldest_unclaimed_fact)

lemma read_oldest_unclaimed_witness:
  "\<exists>ub. ctl_read False 0 31 (replicate 31 0) (demo_session 1 (Some SCSITAP_TASK_SUBMITTED))
     = Inr (Some (demo_session 1 (Some SCSITAP_TASK_SUBMITTED), ub, 31)) \<and> ub ! 0 = chr_C \<and> ub ! 2 = 1"
  using read_oldest_unclaimed [OF demo_session_ok(1), of 1 "replicate 31 0" "[]" "demo_task SCSITAP_TASK_SUBMITTED" "[]" False 0]
  by (auto simp: c_consts demo_defs task_header_def patch_def le32_bytes_def)

lemma read_data_ok:
  assumes "wf_cmnd c" and "31 + unat (sc_request_bufflen c) \<le> length ub"
  shows "ctl_read_data c t ub = Inr (patch 0 (task_header c t chr_D @ cmnd_data c) ub, 31)"
proof -
  let ?h = "task_header c t chr_D"
  have len: "length (sc_cmnd c) = MAX_COMMAND_SIZE" "length ?h = 31" "length (cmnd_data c) = unat (sc_request_bufflen c)"
    using assms(1) length_task_header by (auto simp: wf_cmnd_def)
  have join: "patch 31 (cmnd_data c) (patch 0 ?h ub) = patch 0 (?h @ cmnd_data c) ub"
    using patch_append [of 0 ?h "cmnd_data c" ub] len assms(2) by simp
  have hdr: "scsitap_task_to_user c t chr_D ub = (patch 0 ?h ub, 31)"
    using task_to_user_ok len(1) assms(2) by simp
  show ?thesis
  proof (cases "sc_request_bufflen c > 0")
    case False
    then have "cmnd_data c = []" using len(3) by (simp add: word_gt_0)
    with False show ?thesis by (simp add: ctl_read_data_def hdr)
  next
    case True
    then show ?thesis
      using assms len hdr join copy_to_user_sg_ok [of _ 31 "patch 0 ?h ub"]
      by (cases "sc_request_buffer c")
        (auto simp: ctl_read_data_def wf_cmnd_def cmnd_data_def load_def copy_to_user_fits)
  qed
qed

lemma read_claimed_data_fact:
  assumes "session_ok s" and "ss_flags s = SCSITAP_CONNECTION_READY"
    and "task_of_cmd s (ucast fp) = Some t" and "tk_flags t = SCSITAP_TASK_RECEIVED"
    and "c = ss_cmnds s (tk_sc t)" and "0 < unat (sc_request_bufflen c)" and "unat (sc_request_bufflen c) + 31 < 2 ^ 32"
    and "count = 31 + unat (sc_request_bufflen c)" and "count \<le> length ub"
  shows "ctl_read sig fp count ub s = Inr (Some (s, patch 0 (task_header c t chr_D @ cmnd_data c) ub, 31))"
proof -
  have t: "t \<in> set (ss_queue s)" using task_of_cmdD [OF assms(3)] by simp
  have "wf_cmnd c" using session_okD(6) [OF assms(1) t] assms(5) by simp
  moreover have "unat (of_nat SCSITAP_UHEADER_SIZE + sc_request_bufflen c) = count"
    using assms(7,8) by (simp add: SCSITAP_UHEADER_SIZE_def unat_word_ariths)
  ultimately show ?thesis
    using assms(2-4,6,8,9) t lock_unlock [OF assms(1)] assms(5) [symmetric]
    by (auto simp: ctl_read_def ctl_read_locked_def read_data_ok SCSITAP_UHEADER_SIZE_def)
qed

text \<open>
  C16.  Once a task is claimed, a read at its number of the header and exactly the request's bytes
  returns them: the header with type D, then the data, whether the request buffer is flat or
  scattered over pages.  The return value is 31 and the session is unchanged.
\<close>

theorem read_claimed_data:
  assumes "session_ok s" and "ss_flags s = SCSITAP_CONNECTION_READY"
    and "task_of_cmd s (ucast fp) = Some t" and "tk_flags t = SCSITAP_TASK_RECEIVED"
    and "c = ss_cmnds s (tk_sc t)" and "0 < unat (sc_request_bufflen c)" and "unat (sc_request_bufflen c) + 31 < 2 ^ 32"
    and "count = 31 + unat (sc_request_bufflen c)" and "count \<le> length ub"
  shows "ctl_read sig fp count ub s = Inr (Some (s, patch 0 (task_header c t chr_D @ cmnd_data c) ub, 31))"
  using assms by (rule read_claimed_data_fact)

theorem read_claimed_data_witness:
  "\<exists>ub. ctl_read False 1 35 (replicate 35 0) (demo_session 1 (Some SCSITAP_TASK_RECEIVED))
     = Inr (Some (demo_session 1 (Some SCSITAP_TASK_RECEIVED), ub, 31)) \<and> drop 31 ub = [1, 2, 3, 4]"
proof -
  have len: "length (task_header (demo_cmnd (Some 7)) (demo_task SCSITAP_TASK_RECEIVED) chr_D) = 31"
    by (rule length_task_header) (simp add: demo_defs c_consts)
  show ?thesis
    using read_claimed_data [OF demo_session_ok(2), of 1 1 "demo_task SCSITAP_TASK_RECEIVED" "demo_cmnd (Some 7)" 35 "replicate 35 0" False] len
    by (simp add: SCSITAP_CONNECTION_READY_def task_of_cmd_def demo_task_def demo_session_def patch_def)
      (simp add: demo_cmnd_def cmnd_data_def)
qed

section \<open>What write does\<close>

lemma accept_data_ok:
  assumes "wf_cmnd c" and "6 + unat (sc_request_bufflen c) \<le> length ub"
  shows "\<exists>b. accept_data ub c = Inr (c\<lparr>sc_request_buffer := b\<rparr>, False) \<and> wf_cmnd (c\<lparr>sc_request_buffer := b\<rparr>)
    \<and> cmnd_data (c\<lparr>sc_request_buffer := b\<rparr>) = segment 6 (unat (sc_request_bufflen c)) ub"
proof (cases "sc_request_buffer c")
  case (Flat xs)
  then have n: "length xs = unat (sc_request_bufflen c)"
    using assms(1) by (simp add: wf_cmnd_def cmnd_data_def)
  let ?bs = "segment 6 (unat (sc_request_bufflen c)) ub"
  have "copy_from_user 6 (unat (sc_request_bufflen c)) ub = (?bs, 0)" "store 0 ?bs xs = Inr ?bs"
    using assms(2) n by (simp_all add: copy_from_user_fits store_def patch_def)
  with Flat assms show ?thesis
    by (intro exI [where x = "Flat ?bs"]) (simp add: accept_data_def wf_cmnd_def cmnd_data_def)
next
  case (Sg gs)
  then have gs: "\<forall>g\<in>set gs. sg_ok g" "length (sg_bytes gs) = unat (sc_request_bufflen c)"
      "unat (sc_use_sg c) = length gs" "sc_use_sg c \<noteq> 0"
    using assms(1) by (simp_all add: wf_cmnd_def cmnd_data_def)
  obtain gs' where "copy_from_user_sg gs (length gs) ub 6 = Inr (gs', 0)" "length gs' = length gs"
      "\<forall>g\<in>set gs'. sg_ok g" "sg_bytes gs' = segment 6 (unat (sc_request_bufflen c)) ub"
    using copy_from_user_sg_ok [OF gs(1), of 6 ub] gs(2) assms(2) by auto
  with Sg gs assms show ?thesis
    by (intro exI [where x = "Sg gs'"]) (simp add: accept_data_def wf_cmnd_def cmnd_data_def)
qed

lemma accept_data_total:
  assumes "wf_cmnd c"
  shows "\<exists>b failed. accept_data ub c = Inr (c\<lparr>sc_request_buffer := b\<rparr>, failed) \<and> wf_cmnd (c\<lparr>sc_request_buffer := b\<rparr>)"
proof (cases "sc_request_buffer c")
  case (Flat xs)
  then have n: "length xs = unat (sc_request_bufflen c)" "sc_use_sg c = 0"
    using assms(1) by (simp_all add: wf_cmnd_def cmnd_data_def)
  obtain bs r where "copy_from_user 6 (unat (sc_request_bufflen c)) ub = (bs, r)" "length bs \<le> length xs"
    using n(1) by (simp add: copy_from_user_def Let_def segment_def)
  with Flat assms n show ?thesis
    by (intro exI [where x = "Flat (patch 0 bs xs)"]) (simp add: accept_data_def wf_cmnd_def cmnd_data_def store_def)
next
  case (Sg gs)
  then have gs: "\<forall>g\<in>set gs. sg_ok g" "length (sg_bytes gs) = unat (sc_request_bufflen c)"
      "unat (sc_use_sg c) = length gs" "sc_use_sg c \<noteq> 0"
    using assms(1) by (simp_all add: wf_cmnd_def cmnd_data_def)
  with sg_copy_total [OF gs(1), of ub 6] Sg assms show ?thesis
    by (auto simp: accept_data_def wf_cmnd_def cmnd_data_def)
qed

lemma apply_answer_total:
  assumes "wf_cmnd c"
  shows "\<exists>c' st. apply_answer count ub v c = Inr (c', st) \<and> wf_cmnd c'
    \<and> sc_SCp_ptr c' = sc_SCp_ptr c \<and> sc_scsi_done c' = sc_scsi_done c"
proof -
  obtain b failed where b: "accept_data ub c = Inr (c\<lparr>sc_request_buffer := b\<rparr>, failed)"
      "wf_cmnd (c\<lparr>sc_request_buffer := b\<rparr>)"
    using accept_data_total [OF assms] by blast
  obtain bs r where bs: "copy_from_user 6 14 ub = (bs, r)" "length bs \<le> 14"
    by (simp add: copy_from_user_def Let_def segment_def)
  then have st: "store 0 bs (sc_sense_buffer c) = Inr (patch 0 bs (sc_sense_buffer c))"
      "length (patch 0 bs (sc_sense_buffer c)) = SCSI_SENSE_BUFFERSIZE"
    using assms by (simp_all add: store_def wf_cmnd_def SCSI_SENSE_BUFFERSIZE_def)
  consider (data) "v = 0" | (plain) "v \<noteq> 0" "drop_bit 7 v = 0" | (sense) "v \<noteq> 0" "drop_bit 7 v \<noteq> 0"
    by blast
  then show ?thesis
  proof cases
    case data
    with b assms show ?thesis by (cases failed) (auto simp: apply_answer_def)
  next
    case plain
    with assms show ?thesis by (auto simp: apply_answer_def)
  next
    case sense
    with bs st assms show ?thesis by (auto simp: apply_answer_def Let_def)
  qed
qed

text \<open>Rewriting the command block of a pending task, its links apart, keeps the session in order.\<close>

lemma session_ok_upd_cmnd:
  assumes "queue_inv s" and "\<forall>t\<in>set (ss_queue s). wf_cmnd (ss_cmnds s (tk_sc t))" and "wf_cmnd c"
    and "sc_SCp_ptr c = sc_SCp_ptr (ss_cmnds s sc)" and "sc_scsi_done c = sc_scsi_done (ss_cmnds s sc)"
  shows "queue_inv (upd_cmnd sc (\<lambda>_. c) s)"
    and "\<forall>t\<in>set (ss_queue s). wf_cmnd (ss_cmnds (upd_cmnd sc (\<lambda>_. c) s) (tk_sc t))"
  using assms by (auto simp: queue_inv_def queue_links_def live_flags_def upd_cmnd_def)

lemma upd_cmnd_sel [simp]:
  "ss_queue (upd_cmnd sc f s) = ss_queue s" "ss_done (upd_cmnd sc f s) = ss_done s"
  "ss_queue_lock (upd_cmnd sc f s) = ss_queue_lock s" "ss_flags (upd_cmnd sc f s) = ss_flags s"
  "ss_host_lock (upd_cmnd sc f s) = ss_host_lock s" "ss_addr (upd_cmnd sc f s) = ss_addr s"
  "ss_dev_id (upd_cmnd sc f s) = ss_dev_id s" "ss_Device_Open (upd_cmnd sc f s) = ss_Device_Open s"
  "ss_cmnds (upd_cmnd sc f s) sc = f (ss_cmnds s sc)"
  by (simp_all add: upd_cmnd_def)

text \<open>
  Completing a pending task after its command block was given its answer: the command leaves the
  queue, its callback is called once, and the block handed back is the answer (with the link to the
  task cleared).
\<close>

lemma finish_answered:
  assumes "queue_inv s" and "\<forall>u\<in>set (ss_queue s). wf_cmnd (ss_cmnds s (tk_sc u))" and "t \<in> set (ss_queue s)" and "slab_ok sl"
    and "wf_cmnd c" and "sc_SCp_ptr c = sc_SCp_ptr (ss_cmnds s (tk_sc t))"
    and "sc_scsi_done c = sc_scsi_done (ss_cmnds s (tk_sc t))"
  shows "\<exists>s'. scsitap_complete_task sl (tk_addr t) (upd_cmnd (tk_sc t) (\<lambda>_. c) s) = Inr s' \<and> queue_inv s'
    \<and> (\<forall>u\<in>set (ss_queue s'). wf_cmnd (ss_cmnds s' (tk_sc u)))
    \<and> pending s' = remove1 (tk_sc t) (pending s) \<and> ss_cmnds s' (tk_sc t) = c\<lparr>sc_SCp_ptr := None\<rparr>
    \<and> ss_done s' = ss_done s @ [(the (sc_scsi_done c), tk_sc t)]
    \<and> (\<forall>d. d \<noteq> tk_sc t \<longrightarrow> ss_cmnds s' d = ss_cmnds s d)
    \<and> ss_flags s' = ss_flags s \<and> ss_addr s' = ss_addr s \<and> ss_dev_id s' = ss_dev_id s
    \<and> ss_Device_Open s' = ss_Device_Open s \<and> ss_queue_lock s' = ss_queue_lock s
    \<and> ss_queue s' = filter (\<lambda>u. tk_addr u \<noteq> tk_addr t) (ss_queue s) \<and> ss_next_cmdnumber s' = ss_next_cmdnumber s"
proof -
  let ?s = "upd_cmnd (tk_sc t) (\<lambda>_. c) s"
  have inv: "queue_inv ?s" "\<forall>u\<in>set (ss_queue s). wf_cmnd (ss_cmnds ?s (tk_sc u))" and t: "t \<in> set (ss_queue ?s)"
    using session_ok_upd_cmnd [OF assms(1,2,5,6,7)] assms(3) by auto
  define s' where "s' = (unlink_task t ?s)\<lparr>ss_done := ss_done s @ [(the (sc_scsi_done c), tk_sc t)]\<rparr>"
  have "scsitap_complete_task sl (tk_addr t) ?s = Inr s'"
    using complete_task_live [OF inv(1) t assms(4)] by (simp add: s'_def)
  moreover have "queue_inv s'" and "pending s' = remove1 (tk_sc t) (pending s)"
    using queue_links_unlink [of ?s t] inv(1) t by (simp_all add: s'_def queue_inv_def)
  moreover have "\<forall>u\<in>set (ss_queue s'). wf_cmnd (ss_cmnds s' (tk_sc u))"
    using inv(2) by (auto simp: s'_def unlink_task_def upd_cmnd_def split: if_splits)
  ultimately show ?thesis
    by (simp add: s'_def unlink_task_def upd_cmnd_def)
qed

text \<open>
  The answer to command \<open>n\<close> as the target writes it: type D, the number, the status byte and
  what goes with it.
\<close>

definition answer :: "u32 \<Rightarrow> u8 \<Rightarrow> bytes \<Rightarrow> bytes" where
  "answer n st payload = chr_D # le32_bytes n @ st # payload"

lemma length_answer [simp]: "length (answer n st payload) = 6 + length payload"
  by (simp add: answer_def)

lemma answer_fields:
  "get_user 0 (answer n st payload @ rest) = chr_D" "get_user 5 (answer n st payload @ rest) = st"
  "copy_from_user (Suc 0) 4 (answer n st payload @ rest) = (le32_bytes n, 0)"
  by (simp_all add: answer_def get_user_def copy_from_user_def segment_def le32_bytes_def numeral_eq_Suc)

lemma answer_payload: "segment 6 (length payload) (answer n st payload @ rest) = payload"
  by (simp add: answer_def segment_def le32_bytes_def numeral_eq_Suc)

text \<open>
  How a session that finished a task compares with the one before: the task and its command are gone,
  the others are as they were, and the callback was called once more, with that command.
\<close>

definition finished :: "scsitap_session \<Rightarrow> scsitap_task \<Rightarrow> scsitap_session \<Rightarrow> bool" where
  "finished s t s' \<longleftrightarrow> session_ok s' \<and> ss_queue s' = filter (\<lambda>u. tk_addr u \<noteq> tk_addr t) (ss_queue s)
     \<and> pending s' = remove1 (tk_sc t) (pending s)
     \<and> ss_done s' = ss_done s @ [(the (sc_scsi_done (ss_cmnds s (tk_sc t))), tk_sc t)]
     \<and> (\<forall>d. d \<noteq> tk_sc t \<longrightarrow> ss_cmnds s' d = ss_cmnds s d) \<and> ss_next_cmdnumber s' = ss_next_cmdnumber s"

text \<open>
  A well-formed answer that the command block accepts finishes the command: once, and only that one.
\<close>

lemma write_answered:
  assumes "session_ok s" and "ss_flags s = SCSITAP_CONNECTION_READY" and "slab_ok sl"
    and "task_of_cmd s n = Some t"
    and "apply_answer count (answer n st payload @ rest) st (ss_cmnds s (tk_sc t)) = Inr (c, Some v)"
    and "wf_cmnd c" and "sc_SCp_ptr c = sc_SCp_ptr (ss_cmnds s (tk_sc t))"
    and "sc_scsi_done c = sc_scsi_done (ss_cmnds s (tk_sc t))"
  shows "\<exists>s'. ctl_write sl count (answer n st payload @ rest) s = Inr (s', to_int count) \<and> finished s t s'
    \<and> ss_cmnds s' (tk_sc t) = c\<lparr>sc_result := ucast v, sc_SCp_ptr := None\<rparr>"
proof -
  let ?s = "s\<lparr>ss_queue_lock := True\<rparr>" and ?c = "c\<lparr>sc_result := ucast v\<rparr>"
  have t: "t \<in> set (ss_queue ?s)" using task_of_cmdD [OF assms(4)] by simp
  have inv: "queue_inv ?s" "\<forall>u\<in>set (ss_queue ?s). wf_cmnd (ss_cmnds ?s (tk_sc u))"
    using session_okD [OF assms(1)] by (auto simp: queue_inv_def)
  obtain s' where s': "scsitap_complete_task sl (tk_addr t) (upd_cmnd (tk_sc t) (\<lambda>_. ?c) ?s) = Inr s'" "queue_inv s'"
      "\<forall>u\<in>set (ss_queue s'). wf_cmnd (ss_cmnds s' (tk_sc u))" "pending s' = remove1 (tk_sc t) (pending s)"
      "ss_cmnds s' (tk_sc t) = ?c\<lparr>sc_SCp_ptr := None\<rparr>" "ss_done s' = ss_done s @ [(the (sc_scsi_done ?c), tk_sc t)]"
      "\<forall>d. d \<noteq> tk_sc t \<longrightarrow> ss_cmnds s' d = ss_cmnds s d"
      "ss_queue s' = filter (\<lambda>u. tk_addr u \<noteq> tk_addr t) (ss_queue s)" "ss_next_cmdnumber s' = ss_next_cmdnumber s"
    using finish_answered [OF inv t assms(3), of ?c] assms(6-8) by auto
  then have "ctl_write sl count (answer n st payload @ rest) s = Inr (spin_unlock_queue s', to_int count)"
    using assms(2,4,5) lock_unlock [OF assms(1)]
    by (simp add: ctl_write_def ctl_write_D_def answer_fields le32_le32_bytes)
  with s' show ?thesis
    using assms(8) by (auto simp: finished_def session_ok_def session_idle_def queue_inv_def lock_defs)
qed

lemma write_data_fact:
  assumes "session_ok s" and "ss_flags s = SCSITAP_CONNECTION_READY" and "slab_ok sl"
    and "task_of_cmd s n = Some t" and "6 < count"
    and "length d = unat (sc_request_bufflen (ss_cmnds s (tk_sc t)))"
  shows "\<exists>s'. ctl_write sl count (answer n 0 d @ rest) s = Inr (s', to_int count) \<and> finished s t s'
    \<and> cmnd_data (ss_cmnds s' (tk_sc t)) = d \<and> sc_result (ss_cmnds s' (tk_sc t)) = 0
    \<and> sc_sense_buffer (ss_cmnds s' (tk_sc t)) = replicate 96 0"
proof -
  let ?c = "ss_cmnds s (tk_sc t)" and ?ub = "answer n 0 d @ rest"
  have wf: "wf_cmnd ?c" using session_okD(6) [OF assms(1)] task_of_cmdD [OF assms(4)] by simp
  obtain b where b: "accept_data ?ub ?c = Inr (?c\<lparr>sc_request_buffer := b\<rparr>, False)"
      "wf_cmnd (?c\<lparr>sc_request_buffer := b\<rparr>)" "cmnd_data (?c\<lparr>sc_request_buffer := b\<rparr>) = d"
    using accept_data_ok [OF wf, of ?ub] assms(6) answer_payload [of d n 0 rest] by auto
  then have "apply_answer count ?ub 0 ?c = Inr (set_sensedata (?c\<lparr>sc_request_buffer := b\<rparr>), Some 0)"
    using assms(5) by (simp add: apply_answer_def)
  from write_answered [OF assms(1-4) this] b show ?thesis
    by (auto simp: set_sensedata_def SCSI_SENSE_BUFFERSIZE_def)
qed

lemma write_good_data_fact:
  assumes "session_ok s" and "ss_flags s = SCSITAP_CONNECTION_READY" and "slab_ok sl"
    and "task_of_cmd s n = Some t" and "d \<noteq> []"
    and "length d = unat (sc_request_bufflen (ss_cmnds s (tk_sc t)))"
  shows "\<exists>s'. ctl_write sl (6 + length d) (answer n 0 d @ rest) s = Inr (s', to_int (6 + length d)) \<and> finished s t s'
    \<and> cmnd_data (ss_cmnds s' (tk_sc t)) = d \<and> sc_result (ss_cmnds s' (tk_sc t)) = 0
    \<and> sc_sense_buffer (ss_cmnds s' (tk_sc t)) = replicate 96 0"
proof -
  have "6 < 6 + length d" using assms(5) by simp
  from write_data_fact [OF assms(1-4) this assms(6)] show ?thesis .
qed

text \<open>
  C15.  A target that answers a pending command with status 0 and as many bytes as the command asked
  for finishes it: the bytes are the command's data, however its buffer is laid out, the result is
  0 and the sense data is cleared; the callback is called once, with that command, and the command
  leaves the queue, whatever else is pending.
\<close>

theorem write_good_data:
  assumes "session_ok s" and "ss_flags s = SCSITAP_CONNECTION_READY" and "slab_ok sl"
    and "task_of_cmd s n = Some t" and "d \<noteq> []"
    and "length d = unat (sc_request_bufflen (ss_cmnds s (tk_sc t)))"
  shows "\<exists>s'. ctl_write sl (6 + length d) (answer n 0 d @ rest) s = Inr (s', to_int (6 + length d)) \<and> session_ok s'
    \<and> pending s' = remove1 (tk_sc t) (pending s)
    \<and> ss_done s' = ss_done s @ [(the (sc_scsi_done (ss_cmnds s (tk_sc t))), tk_sc t)]
    \<and> cmnd_data (ss_cmnds s' (tk_sc t)) = d \<and> sc_result (ss_cmnds s' (tk_sc t)) = 0
    \<and> sc_sense_buffer (ss_cmnds s' (tk_sc t)) = replicate 96 0"
  using write_good_data_fact [OF assms] unfolding finished_def by blast

theorem write_good_data_witness:
  "\<exists>s'. ctl_write (demo_slab (\<lambda>f. f)) 10 (answer 1 0 [9, 8, 7, 6]) (demo_session 1 (Some SCSITAP_TASK_RECEIVED)) = Inr (s', 10)
    \<and> pending s' = [] \<and> ss_done s' = [(3, 5)] \<and> cmnd_data (ss_cmnds s' 5) = [9, 8, 7, 6]"
  using write_good_data [OF demo_session_ok(2) _ demo_slab_ok, of 1 1 "demo_task SCSITAP_TASK_RECEIVED" "[9, 8, 7, 6]" "[]"]
  by (auto simp: c_consts demo_defs task_of_cmd_def)

lemma write_good_no_data_fact:
  assumes "session_ok s" and "ss_flags s = SCSITAP_CONNECTION_READY" and "slab_ok sl"
    and "task_of_cmd s n = Some t"
  shows "\<exists>s'. ctl_write sl 6 (answer n 0 [] @ rest) s = Inr (s', 6) \<and> finished s t s'
    \<and> cmnd_data (ss_cmnds s' (tk_sc t)) = cmnd_data (ss_cmnds s (tk_sc t)) \<and> sc_result (ss_cmnds s' (tk_sc t)) = 0"
proof -
  let ?c = "ss_cmnds s (tk_sc t)"
  have wf: "wf_cmnd ?c" using session_okD(6) [OF assms(1)] task_of_cmdD [OF assms(4)] by simp
  have "apply_answer 6 (answer n 0 [] @ rest) 0 ?c = Inr (set_sensedata ?c, Some 0)"
    by (simp add: apply_answer_def)
  from write_answered [OF assms(1-4) this] wf show ?thesis by auto
qed

lemma write_status_only_fact:
  assumes "session_ok s" and "ss_flags s = SCSITAP_CONNECTION_READY" and "slab_ok sl"
    and "task_of_cmd s n = Some t" and "st \<noteq> 0" and "drop_bit 7 st = 0"
  shows "\<exists>s'. ctl_write sl count (answer n st p @ rest) s = Inr (s', to_int count) \<and> finished s t s'
    \<and> sc_result (ss_cmnds s' (tk_sc t)) = ucast st \<and> sc_sense_buffer (ss_cmnds s' (tk_sc t)) ! 0 = 0x70
    \<and> sc_sense_buffer (ss_cmnds s' (tk_sc t)) ! 2 = 0"
proof -
  let ?c = "ss_cmnds s (tk_sc t)"
  have wf: "wf_cmnd ?c" using session_okD(6) [OF assms(1)] task_of_cmdD [OF assms(4)] by simp
  have "apply_answer count (answer n st p @ rest) st ?c = Inr (set_sensedata_illegal ?c, Some st)"
    using assms(5,6) by (simp add: apply_answer_def)
  from write_answered [OF assms(1-4) this] wf show ?thesis
    by (auto simp: set_sensedata_illegal_def SCSI_SENSE_BUFFERSIZE_def)
qed

text \<open>
  A status without its top bit is the command's result as it stands.  The sense data the
  driver makes up for it is fixed format with sense key 0: no sense, where the comment above
  \<open>set_sensedata_illegal\<close> promises an illegal request (key 5).
\<close>

lemma write_status_only:
  assumes "session_ok s" and "ss_flags s = SCSITAP_CONNECTION_READY" and "slab_ok sl"
    and "task_of_cmd s n = Some t" and "st \<noteq> 0" and "drop_bit 7 st = 0"
  shows "\<exists>s'. ctl_write sl count (answer n st p @ rest) s = Inr (s', to_int count) \<and> session_ok s'
    \<and> pending s' = remove1 (tk_sc t) (pending s)
    \<and> ss_done s' = ss_done s @ [(the (sc_scsi_done (ss_cmnds s (tk_sc t))), tk_sc t)]
    \<and> sc_result (ss_cmnds s' (tk_sc t)) = ucast st \<and> sc_sense_buffer (ss_cmnds s' (tk_sc t)) ! 0 = 0x70
    \<and> sc_sense_buffer (ss_cmnds s' (tk_sc t)) ! 2 = 0"
  using write_status_only_fact [OF assms] unfolding finished_def by blast

lemma write_status_only_witness:
  "\<exists>s'. ctl_write (demo_slab (\<lambda>f. f)) 6 (answer 1 2 []) (demo_session 1 (Some SCSITAP_TASK_RECEIVED)) = Inr (s', 6)
    \<and> pending s' = [] \<and> sc_result (ss_cmnds s' 5) = 2 \<and> sc_sense_buffer (ss_cmnds s' 5) ! 2 = 0"
  using write_status_only [OF demo_session_ok(2) _ demo_slab_ok, of 1 1 "demo_task SCSITAP_TASK_RECEIVED" 2 6 "[]" "[]"]
  by (auto simp: c_consts demo_defs task_of_cmd_def)

lemma write_sense_data_fact:
  assumes "session_ok s" and "ss_flags s = SCSITAP_CONNECTION_READY" and "slab_ok sl"
    and "task_of_cmd s n = Some t" and "drop_bit 7 st \<noteq> 0" and "length p = 14"
  shows "\<exists>s'. ctl_write sl count (answer n st p @ rest) s = Inr (s', to_int count) \<and> finished s t s'
    \<and> sc_result (ss_cmnds s' (tk_sc t)) = ucast (st AND 0x1f)
    \<and> sc_sense_buffer (ss_cmnds s' (tk_sc t)) = p @ drop 14 (sc_sense_buffer (ss_cmnds s (tk_sc t)))"
proof -
  let ?c = "ss_cmnds s (tk_sc t)" and ?ub = "answer n st p @ rest"
  have wf: "wf_cmnd ?c" using session_okD(6) [OF assms(1)] task_of_cmdD [OF assms(4)] by simp
  have cp: "copy_from_user 6 14 ?ub = (p, 0)"
    using assms(6) answer_payload [of p n st rest] by (simp add: copy_from_user_def)
  have sto: "store 0 p (sc_sense_buffer ?c) = Inr (p @ drop 14 (sc_sense_buffer ?c))"
    using wf_cmnd_sense_len [OF wf] assms(6) by (simp add: store_def patch_def SCSI_SENSE_BUFFERSIZE_def)
  have n0: "st \<noteq> 0" using assms(5) by auto
  have "apply_answer count ?ub st ?c
      = Inr (?c\<lparr>sc_sense_buffer := p @ drop 14 (sc_sense_buffer ?c)\<rparr>, Some (st AND 0x1f))"
    unfolding apply_answer_def cp using n0 assms(5) sto by simp
  moreover have "wf_cmnd (?c\<lparr>sc_sense_buffer := p @ drop 14 (sc_sense_buffer ?c)\<rparr>)"
    using wf wf_cmnd_sense_len [OF wf] assms(6) by (intro wf_cmnd_update(5)) (simp_all add: SCSI_SENSE_BUFFERSIZE_def)
  ultimately show ?thesis using write_answered [OF assms(1-4)] by fastforce
qed

text \<open>
  C30.  A status with its top bit set brings sense data: the 14 bytes after the status become the
  first bytes of the command's sense buffer, the rest of the buffer stays, and the result is the
  status without its top three bits.
\<close>

theorem write_sense_data:
  assumes "session_ok s" and "ss_flags s = SCSITAP_CONNECTION_READY" and "slab_ok sl"
    and "task_of_cmd s n = Some t" and "drop_bit 7 st \<noteq> 0" and "length p = 14"
  shows "\<exists>s'. ctl_write sl count (answer n st p @ rest) s = Inr (s', to_int count) \<and> session_ok s'
    \<and> pending s' = remove1 (tk_sc t) (pending s)
    \<and> ss_done s' = ss_done s @ [(the (sc_scsi_done (ss_cmnds s (tk_sc t))), tk_sc t)]
    \<and> sc_result (ss_cmnds s' (tk_sc t)) = ucast (st AND 0x1f)
    \<and> sc_sense_buffer (ss_cmnds s' (tk_sc t)) = p @ drop 14 (sc_sense_buffer (ss_cmnds s (tk_sc t)))"
  using write_sense_data_fact [OF assms] unfolding finished_def by blast

theorem write_sense_data_witness:
  "\<exists>s'. ctl_write (demo_slab (\<lambda>f. f)) 20 (answer 1 0x82 (replicate 14 5)) (demo_session 1 (Some SCSITAP_TASK_RECEIVED)) = Inr (s', 20)
    \<and> pending s' = [] \<and> sc_result (ss_cmnds s' 5) = 2"
  using write_sense_data [OF demo_session_ok(2) _ demo_slab_ok, of 1 1 "demo_task SCSITAP_TASK_RECEIVED" "0x82" "replicate 14 5" 20 "[]"]
  by (auto simp: c_consts demo_defs task_of_cmd_def drop_bit_eq_div)

section \<open>Whatever the target process does\<close>

lemma write_total_fact:
  assumes "session_ok s" and "slab_ok sl"
  shows "\<exists>s' r. ctl_write sl count ub s = Inr (s', r) \<and> session_ok s'
    \<and> (pending s' = pending s \<or> r = to_int count \<and> (\<exists>c\<in>set (pending s). pending s' = remove1 c (pending s)))"
proof -
  let ?s = "s\<lparr>ss_queue_lock := True\<rparr>"
  note lock = lock_unlock [OF assms(1)]
  have inv: "queue_inv ?s" "\<forall>u\<in>set (ss_queue ?s). wf_cmnd (ss_cmnds ?s (tk_sc u))"
    using session_okD [OF assms(1)] by (auto simp: queue_inv_def)
  obtain nb k where nb: "copy_from_user (Suc 0) 4 ub = (nb, k)" by fastforce
  consider (idle) "ss_flags s \<noteq> SCSITAP_CONNECTION_READY \<or> get_user 0 ub \<noteq> chr_D \<or> k \<noteq> 0 \<or> task_of_cmd s (le32 nb) = None"
    | (task) t where "ss_flags s = SCSITAP_CONNECTION_READY" "get_user 0 ub = chr_D" "k = 0" "task_of_cmd s (le32 nb) = Some t"
    by (cases "task_of_cmd s (le32 nb)") auto
  then show ?thesis
  proof cases
    case idle
    with assms(1) lock nb show ?thesis by (auto simp: ctl_write_def ctl_write_D_def)
  next
    case task
    let ?c = "ss_cmnds s (tk_sc t)"
    have t: "t \<in> set (ss_queue ?s)" using task_of_cmdD [OF task(4)] by simp
    obtain c st where a: "apply_answer count ub (get_user 5 ub) ?c = Inr (c, st)" "wf_cmnd c"
        "sc_SCp_ptr c = sc_SCp_ptr ?c" "sc_scsi_done c = sc_scsi_done ?c"
      using apply_answer_total inv(2) t by fastforce
    show ?thesis
    proof (cases st)
      case None
      let ?s' = "upd_cmnd (tk_sc t) (\<lambda>_. c) ?s"
      have "ctl_write sl count ub s = Inr (spin_unlock_queue ?s', - EFAULT)"
        using task nb a None lock by (simp add: ctl_write_def ctl_write_D_def)
      with session_ok_upd_cmnd [OF inv a(2), of "tk_sc t"] a t show ?thesis
        by (auto simp: session_ok_def session_idle_def queue_inv_def lock_defs)
    next
      case (Some v)
      obtain s' where s': "scsitap_complete_task sl (tk_addr t) (upd_cmnd (tk_sc t) (\<lambda>_. c\<lparr>sc_result := ucast v\<rparr>) ?s) = Inr s'"
          "queue_inv s'" "\<forall>u\<in>set (ss_queue s'). wf_cmnd (ss_cmnds s' (tk_sc u))" "pending s' = remove1 (tk_sc t) (pending s)"
        using finish_answered [OF inv t assms(2), of "c\<lparr>sc_result := ucast v\<rparr>"] a by auto
      then have "ctl_write sl count ub s = Inr (spin_unlock_queue s', to_int count)"
        using task nb a Some lock by (simp add: ctl_write_def ctl_write_D_def)
      with s' t show ?thesis
        by (auto simp: session_ok_def session_idle_def queue_inv_def lock_defs)
    qed
  qed
qed

text \<open>
  C25.  No write can hurt the driver: for any bytes, of any length, with any byte count, the call
  returns, the session stays in order and at most one command leaves the queue; when one does, the
  call returns the count as an \<open>int\<close>.  Below 2 GB an error return therefore leaves the queue alone.
\<close>

theorem write_total:
  assumes "session_ok s" and "slab_ok sl"
  shows "\<exists>s' r. ctl_write sl count ub s = Inr (s', r) \<and> session_ok s'
    \<and> (pending s' = pending s \<or> r = to_int count \<and> (\<exists>c\<in>set (pending s). pending s' = remove1 c (pending s)))
    \<and> (count < 2 ^ 31 \<and> r < 0 \<longrightarrow> pending s' = pending s)"
  using write_total_fact [OF assms, of count ub] to_int_small [of count] by fastforce

theorem write_total_witness:
  "\<exists>s' r. ctl_write (demo_slab (\<lambda>f. f)) 3 [68, 1, 0] (demo_session 1 (Some SCSITAP_TASK_RECEIVED)) = Inr (s', r) \<and> session_ok s'"
  using write_total [OF demo_session_ok(2) demo_slab_ok] by blast



text \<open>Memory that is unchanged from offset \<open>k\<close> on.\<close>

definition same_from :: "nat \<Rightarrow> bytes \<Rightarrow> bytes \<Rightarrow> bool" where
  "same_from k ub ub' \<longleftrightarrow> length ub' = length ub \<and> (\<forall>i. k \<le> i \<and> i < length ub \<longrightarrow> ub' ! i = ub ! i)"

lemma same_from_refl [simp]: "same_from k ub ub"
  by (simp add: same_from_def)

lemma same_from_put_user: "off < k \<Longrightarrow> same_from k ub ub' \<Longrightarrow> same_from k ub (put_user v off ub')"
  by (simp add: same_from_def put_user_def)

lemma same_from_copy_to_user:
  assumes "copy_to_user off bs ub' = (ub'', r)" and "off + length bs \<le> k" and "same_from k ub ub'"
  shows "same_from k ub ub''"
proof (cases "off \<le> length ub'")
  case True
  with assms show ?thesis by (auto simp: same_from_def copy_to_user_def Let_def nth_patch)
next
  case False
  with assms show ?thesis by (auto simp: same_from_def copy_to_user_def Let_def)
qed

lemma same_from_task_to_user:
  assumes "scsitap_task_to_user c t ty ub = (ub', r)" and "length (sc_cmnd c) = MAX_COMMAND_SIZE"
  shows "same_from 31 ub ub' \<and> (r = 31 \<or> r = - EFAULT)"
  using assms
  by (auto simp: scsitap_task_to_user_def Let_def c_consts split: prod.splits if_splits
      elim!: same_from_copy_to_user intro!: same_from_put_user)

lemma same_from_copy_sg:
  assumes "\<forall>g\<in>set gs. sg_ok g" and "off + length (sg_bytes gs) \<le> k" and "same_from k ub0 ub"
  shows "\<exists>ub' r. copy_to_user_sg off gs (length gs) ub = Inr (ub', r) \<and> same_from k ub0 ub'"
  using assms
proof (induction gs arbitrary: off ub)
  case Nil
  then show ?case by simp
next
  case (Cons g gs)
  then obtain pg where pg: "sg_page g = Some pg" "sg_offset g + sg_length g \<le> length pg"
    by (auto simp: sg_ok_def split: option.splits)
  obtain ub' r where c: "copy_to_user off (segment (sg_offset g) (sg_length g) pg) ub = (ub', r)" by fastforce
  have "same_from k ub0 ub'"
    by (rule same_from_copy_to_user [OF c]) (use Cons.prems pg in auto)
  with Cons pg c show ?case
    by (cases "r = 0") (auto simp: mem_simps)
qed

lemma read_data_total:
  assumes "wf_cmnd c" and "31 + unat (sc_request_bufflen c) \<le> k"
  shows "\<exists>ub' r. ctl_read_data c t ub = Inr (ub', r) \<and> same_from k ub ub' \<and> (r = 31 \<or> r = - EFAULT)"
proof -
  have len: "length (sc_cmnd c) = MAX_COMMAND_SIZE" and dat: "length (cmnd_data c) = unat (sc_request_bufflen c)"
    using assms(1) by (auto simp: wf_cmnd_def)
  obtain ub1 r1 where h: "scsitap_task_to_user c t chr_D ub = (ub1, r1)" by fastforce
  with same_from_task_to_user [OF h len] have s31: "same_from 31 ub ub1" and r1: "r1 = 31 \<or> r1 = - EFAULT" by auto
  have s1: "same_from k ub ub1" using s31 assms(2) by (simp add: same_from_def)
  show ?thesis
  proof (cases "r1 < 0 \<or> sc_request_bufflen c = 0")
    case True
    with h s1 r1 show ?thesis by (auto simp: ctl_read_data_def)
  next
    case False
    then have r: "r1 = 31" and pos: "sc_request_bufflen c > 0" using r1 by (auto simp: c_consts word_gt_0)
    show ?thesis
    proof (cases "sc_request_buffer c")
      case (Flat xs)
      then have xs: "length xs = unat (sc_request_bufflen c)" "sc_use_sg c = 0"
        using assms(1) by (simp_all add: wf_cmnd_def cmnd_data_def)
      obtain ub2 r2 where c2: "copy_to_user 31 xs ub1 = (ub2, r2)" by fastforce
      have "same_from k ub ub2"
        by (rule same_from_copy_to_user [OF c2 _ s1]) (use xs assms(2) in simp)
      with h r pos Flat xs c2 show ?thesis by (simp add: ctl_read_data_def load_def)
    next
      case (Sg gs)
      then have gs: "\<forall>g\<in>set gs. sg_ok g" "unat (sc_use_sg c) = length gs" "sc_use_sg c \<noteq> 0" "31 + length (sg_bytes gs) \<le> k"
        using assms by (simp_all add: wf_cmnd_def cmnd_data_def)
      with same_from_copy_sg [OF gs(1,4) s1] h r pos Sg show ?thesis
        by (auto simp: ctl_read_data_def)
    qed
  qed
qed

lemma read_bounds_fact:
  assumes "session_ok s" and "ss_queue s \<noteq> [] \<or> sig"
  shows "\<exists>ub' r. ctl_read sig fp count ub s = Inr (Some (s, ub', r)) \<and> same_from count ub ub'
    \<and> r \<in> {31, 0, - EINVAL, - EFAULT, - EBADF}"
proof -
  have wf: "wf_cmnd (ss_cmnds s (tk_sc t))" if "t \<in> set (ss_queue s)" for t
    using session_okD(6) [OF assms(1) that] .
  have locked: "\<exists>ub' r. ctl_read_locked fp count ub s = Inr (ub', r) \<and> same_from count ub ub' \<and> r \<in> {31, 0, - EINVAL, - EFAULT, - EBADF}"
  proof -
    consider (bad) "ss_flags s \<noteq> SCSITAP_CONNECTION_READY \<or> count < 31" | (header) "ss_flags s = SCSITAP_CONNECTION_READY" "count = 31"
      | (data) "ss_flags s = SCSITAP_CONNECTION_READY" "count > 31" by linarith
    then show ?thesis
    proof cases
      case bad
      then show ?thesis by (auto simp: ctl_read_locked_def SCSITAP_UHEADER_SIZE_def)
    next
      case header
      show ?thesis
      proof (cases "find (\<lambda>t. tk_flags t = SCSITAP_TASK_SUBMITTED) (ss_queue s)")
        case None
        with header show ?thesis by (simp add: ctl_read_locked_def SCSITAP_UHEADER_SIZE_def)
      next
        case (Some t)
        obtain ub' r where u: "scsitap_task_to_user (ss_cmnds s (tk_sc t)) t (tk_type t) ub = (ub', r)" by fastforce
        have "t \<in> set (ss_queue s)" using find_SomeD [OF Some] by simp
        then have "length (sc_cmnd (ss_cmnds s (tk_sc t))) = MAX_COMMAND_SIZE"
          using wf by (simp add: wf_cmnd_def)
        from same_from_task_to_user [OF u this] header Some u show ?thesis
          by (auto simp: ctl_read_locked_def SCSITAP_UHEADER_SIZE_def)
      qed
    next
      case data
      show ?thesis
      proof (cases "task_of_cmd s (ucast fp)")
        case None
        with data show ?thesis by (simp add: ctl_read_locked_def SCSITAP_UHEADER_SIZE_def)
      next
        case (Some t)
        let ?c = "ss_cmnds s (tk_sc t)"
        have "wf_cmnd ?c" using wf task_of_cmdD [OF Some] by simp
        moreover have "31 + unat (sc_request_bufflen ?c) \<le> count" if "count = unat (of_nat SCSITAP_UHEADER_SIZE + sc_request_bufflen ?c)"
          using unat_plus_no_wrap [of SCSITAP_UHEADER_SIZE "sc_request_bufflen ?c"] that data(2) by (simp add: SCSITAP_UHEADER_SIZE_def)
        ultimately show ?thesis
          using data Some read_data_total [of ?c count t ub] by (fastforce simp: ctl_read_locked_def SCSITAP_UHEADER_SIZE_def)
      qed
    qed
  qed
  have "ctl_read_locked fp count ub (s\<lparr>ss_queue_lock := True\<rparr>) = ctl_read_locked fp count ub s"
    by (cases "task_of_cmd s (ucast fp)") (simp_all add: ctl_read_locked_def cong: option.case_cong)
  with locked lock_unlock [OF assms(1)] assms(2) show ?thesis
    by (auto simp: ctl_read_def)
qed

text \<open>
  C27.  A read never faults and never changes the session.  It writes at most the \<open>count\<close> bytes
  the caller asked for, even when the caller's buffer is shorter than what it claims, and it returns
  31, 0 or one of three errors.
\<close>

theorem read_bounds:
  assumes "session_ok s" and "ss_queue s \<noteq> [] \<or> sig"
  shows "\<exists>ub' r. ctl_read sig fp count ub s = Inr (Some (s, ub', r)) \<and> same_from count ub ub'
    \<and> r \<in> {31, 0, - EINVAL, - EFAULT, - EBADF}"
  using assms by (rule read_bounds_fact)

theorem read_bounds_witness:
  "\<exists>ub' r. ctl_read False 1 35 [0, 0, 0] (demo_session 1 (Some SCSITAP_TASK_RECEIVED))
     = Inr (Some (demo_session 1 (Some SCSITAP_TASK_RECEIVED), ub', r)) \<and> length ub' = 3"
proof -
  have "ss_queue (demo_session 1 (Some SCSITAP_TASK_RECEIVED)) \<noteq> [] \<or> False" by simp
  from read_bounds [OF demo_session_ok(2) this, of 1 35 "[0, 0, 0]"] show ?thesis
    by (auto simp: same_from_def)
qed

section \<open>Claiming a task\<close>

lemma set_task_flags_queue:
  "set (ss_queue (set_task_flags a f s)) = (\<lambda>t. if tk_addr t = a then t\<lparr>tk_flags := f\<rparr> else t) ` set (ss_queue s)"
  by (simp add: set_task_flags_def del: if_image_distrib)

lemma set_flags_ok:
  assumes "session_ok s" and "f = SCSITAP_TASK_SUBMITTED \<or> f = SCSITAP_TASK_RECEIVED"
  shows "session_ok (set_task_flags a f s)"
proof -
  have "live_flags (set_task_flags a f s)"
    using session_okD(3) [OF assms(1)] assms(2) by (auto simp: live_flags_def set_task_flags_def)
  moreover have "wf_cmnd (ss_cmnds (set_task_flags a f s) (tk_sc t))" if "t \<in> set (ss_queue (set_task_flags a f s))" for t
    using session_okD(6) [OF assms(1)] that by (auto simp: set_task_flags_def)
  ultimately show ?thesis
    using session_okD [OF assms(1)] by (simp add: session_ok_def session_idle_def queue_inv_def)
qed

lemma receive_found:
  assumes "session_ok s" and "ss_flags s = SCSITAP_CONNECTION_READY" and "task_of_cmd s n = Some t"
  shows "ioctl_receive (ucast n) s = Inr (set_task_flags (tk_addr t) SCSITAP_TASK_RECEIVED s, SUCCESS)"
proof -
  have "spin_unlock_queue (set_task_flags a f (s\<lparr>ss_queue_lock := True\<rparr>)) = set_task_flags a f s" for a f
    using session_okD(4) [OF assms(1)] by (simp add: set_task_flags_def spin_unlock_queue_def)
  then show ?thesis
    using assms lock_unlock(1) [OF assms(1)] by (simp add: ioctl_receive_def)
qed

lemma task_of_cmd_flags:
  "task_of_cmd (set_task_flags a f s) n = map_option (\<lambda>t. if tk_addr t = a then t\<lparr>tk_flags := f\<rparr> else t) (task_of_cmd s n)"
  by (simp add: task_of_cmd_def set_task_flags_def find_of_map comp_def del: if_image_distrib)

text \<open>
  Claiming a task takes it off the list that 31-byte reads work through: the task is marked,
  stays pending, and, as long as numbers are not reused, no unclaimed task has its number.
\<close>

lemma receive_claims:
  assumes "session_ok s" and "ss_flags s = SCSITAP_CONNECTION_READY" and "numbers_inv s"
    and "task_of_cmd s n = Some t"
  shows "\<exists>s'. ioctl_receive (ucast n) s = Inr (s', SUCCESS) \<and> session_ok s' \<and> pending s' = pending s
    \<and> task_of_cmd s' n = Some (t\<lparr>tk_flags := SCSITAP_TASK_RECEIVED\<rparr>)
    \<and> (\<forall>u\<in>set (ss_queue s'). tk_flags u = SCSITAP_TASK_SUBMITTED \<longrightarrow> tk_cmd_number u \<noteq> n)"
proof -
  let ?s = "set_task_flags (tk_addr t) SCSITAP_TASK_RECEIVED s"
  have t: "t \<in> set (ss_queue s)" "tk_cmd_number t = n" using task_of_cmdD [OF assms(4)] by auto
  have "tk_cmd_number u \<noteq> n" if u: "u \<in> set (ss_queue ?s)" "tk_flags u = SCSITAP_TASK_SUBMITTED" for u
  proof
    assume n: "tk_cmd_number u = n"
    obtain v where v: "v \<in> set (ss_queue s)" "u = (if tk_addr v = tk_addr t then v\<lparr>tk_flags := SCSITAP_TASK_RECEIVED\<rparr> else v)"
      using u(1) unfolding set_task_flags_queue by blast
    then have "tk_cmd_number v = n" using n by (auto split: if_splits)
    then have "v = t"
      using find_sorted_number [of "ss_queue s" v] find_sorted_number [of "ss_queue s" t] assms(3) t v(1)
      by (auto simp: numbers_inv_def)
    with v(2) u(2) show False by (simp add: c_consts)
  qed
  then show ?thesis
    using receive_found [OF assms(1,2,4)] set_flags_ok [OF assms(1)] assms(4)
    by (auto simp: task_of_cmd_flags)
qed

lemma demo_numbers: "numbers_inv (demo_session r (Some f))"
  by (simp add: numbers_inv_def demo_defs)

lemma receive_claims_witness:
  "\<exists>s'. ioctl_receive 1 (demo_session 1 (Some SCSITAP_TASK_SUBMITTED)) = Inr (s', SUCCESS) \<and> pending s' = [5]"
  using receive_claims [OF demo_session_ok(1) _ demo_numbers, of 1 1 "demo_task SCSITAP_TASK_SUBMITTED"]
  by (auto simp: SCSITAP_CONNECTION_READY_def task_of_cmd_def demo_task_def)

text \<open>
  The claim is not exclusive.  Two target processes that both read a task before either claims
  it both get its header, and both their claims succeed; the comment above the ioctl handler says
  that no one else picks up a claimed task.
\<close>

lemma receive_not_exclusive:
  assumes "session_ok s" and "ss_flags s = SCSITAP_CONNECTION_READY" and "31 \<le> length ub"
    and "ss_queue s = t # q" and "tk_flags t = SCSITAP_TASK_SUBMITTED"
  shows "\<exists>s' ub'. ctl_read sig fp 31 ub s = Inr (Some (s, ub', 31)) \<and> segment 2 4 ub' = le32_bytes (tk_cmd_number t)
    \<and> ioctl_receive (ucast (tk_cmd_number t)) s = Inr (s', SUCCESS)
    \<and> ioctl_receive (ucast (tk_cmd_number t)) s' = Inr (s', SUCCESS)"
proof -
  let ?c = "ss_cmnds s (tk_sc t)" and ?s = "set_task_flags (tk_addr t) SCSITAP_TASK_RECEIVED s" and ?n = "tk_cmd_number t"
  have f: "find (\<lambda>t. tk_flags t = SCSITAP_TASK_SUBMITTED) (ss_queue s) = Some t" using assms(4,5) by simp
  have c: "length (sc_cmnd ?c) = MAX_COMMAND_SIZE"
    using session_okD(6) [OF assms(1), of t] assms(4) by (simp add: wf_cmnd_def)
  have "ctl_read sig fp 31 ub s = Inr (Some (s, patch 0 (task_header ?c t (tk_type t)) ub, 31))"
    using f c assms lock_unlock [OF assms(1)]
    by (simp add: ctl_read_def ctl_read_locked_def task_to_user_ok SCSITAP_UHEADER_SIZE_def)
  moreover have "segment 2 4 (patch 0 (task_header ?c t (tk_type t)) ub) = le32_bytes ?n"
    by (simp add: task_header_def patch_def segment_def le32_bytes_def numeral_eq_Suc)
  moreover have n: "task_of_cmd s ?n = Some t" using assms(4) by (simp add: task_of_cmd_def)
  moreover have "set_task_flags (tk_addr t) SCSITAP_TASK_RECEIVED ?s = ?s"
    by (simp add: set_task_flags_def comp_def del: if_image_distrib)
  moreover have "ioctl_receive (ucast ?n) ?s = Inr (set_task_flags (tk_addr t) SCSITAP_TASK_RECEIVED ?s, SUCCESS)"
    using receive_found [OF set_flags_ok [OF assms(1)], of SCSITAP_TASK_RECEIVED "tk_addr t" ?n "t\<lparr>tk_flags := SCSITAP_TASK_RECEIVED\<rparr>"]
      assms(2) n by (simp add: task_of_cmd_flags)
  ultimately show ?thesis using receive_found [OF assms(1,2) n] by auto
qed

lemma receive_not_exclusive_witness:
  "\<exists>s'. ioctl_receive 1 (demo_session 1 (Some SCSITAP_TASK_SUBMITTED)) = Inr (s', SUCCESS) \<and> ioctl_receive 1 s' = Inr (s', SUCCESS)"
  using receive_not_exclusive [OF demo_session_ok(1), of 1 "replicate 31 0" "demo_task SCSITAP_TASK_SUBMITTED" "[]" False 0]
  by (auto simp: SCSITAP_CONNECTION_READY_def demo_task_def)

text \<open>
  C37.  Claiming a task of a session that is not ready returns \<open>-1\<close> and keeps the queue lock:
  every handler that takes the lock afterwards, the mid layer's included, waits for ever.
\<close>

theorem receive_leaks_lock:
  assumes "session_ok s" and "ss_flags s \<noteq> SCSITAP_CONNECTION_READY"
  shows "\<exists>s'. ioctl_receive arg s = Inr (s', - 1) \<and> scsitap_queuecommand slot sc dn s' = Inl Deadlock
    \<and> scsitap_eh_abort sl sc s' = Inl Deadlock \<and> scsitap_eh_host_reset sl s' = Inl Deadlock
    \<and> ctl_write sl count ub s' = Inl Deadlock \<and> ctl_read True fp count ub s' = Inl Deadlock"
  using assms lock_unlock [OF assms(1)]
  by (simp add: ioctl_receive_def scsitap_queuecommand_def scsitap_eh_abort_def scsitap_eh_host_reset_def
      ctl_write_def ctl_read_def lock_defs)

theorem receive_leaks_lock_witness:
  "\<exists>s'. ioctl_receive 1 (demo_session 0 None) = Inr (s', - 1) \<and> scsitap_queuecommand (Some 7) 5 3 s' = Inl Deadlock"
proof -
  have "ss_flags (demo_session 0 None) \<noteq> SCSITAP_CONNECTION_READY" by (simp add: SCSITAP_CONNECTION_READY_def)
  from receive_leaks_lock [OF demo_session_ok(3) this, of 1 "Some 7" 5 3] show ?thesis by blast
qed

end
