(* ===== verification/Sessions.thy ===== *)
theory Sessions
  imports Device
begin

text \<open>
  Sessions and open files: \<open>scsitap_create_session\<close>, \<open>scsitap_destroy_session\<close>,
  \<open>scsitap_get_session\<close>, the module's start and stop (\<open>kernel/hba.c\<close>), and the file
  operations as the VFS calls them, with \<open>file->private_data\<close> as the pointer to the session
  (\<open>kernel/device.c\<close>).
\<close>

section \<open>State\<close>

text \<open>
  \<open>struct scsitap_sessions\<close>, with the work item the driver schedules its bus scans with.  The
  work item is one global object: its session field is what the scan finds when it runs.
  \<open>sl_removed\<close> keeps the last state of the sessions that were destroyed; no code reads it.
\<close>

record scsitap_sessions =
  sl_queue :: "scsitap_session list"
  sl_last_id :: u32
  sl_lock :: bool
  sl_work :: "nat option"
  sl_work_pending :: bool
  sl_scans :: "nat list"
  sl_removed :: "scsitap_session list"

record ctl_file =
  fl_minor :: u32
  fl_private :: "nat option"
  fl_pos :: u64

definition session_at :: "scsitap_sessions \<Rightarrow> nat \<Rightarrow> scsitap_session option" where
  "session_at d p = find (\<lambda>s. ss_addr s = p) (sl_queue d)"

definition put_session :: "scsitap_session \<Rightarrow> scsitap_sessions \<Rightarrow> scsitap_sessions" where
  "put_session s d = d\<lparr>sl_queue := map (\<lambda>t. if ss_addr t = ss_addr s then s else t) (sl_queue d)\<rparr>"

text \<open>Following a session pointer: a handler on the session it points at.\<close>

definition at_session ::
  "nat \<Rightarrow> (scsitap_session \<Rightarrow> (scsitap_session \<times> 'r) res) \<Rightarrow> scsitap_sessions \<Rightarrow> (scsitap_sessions \<times> 'r) res" where
  "at_session p h d = (case session_at d p of
       None \<Rightarrow> Inl Use_after_free
     | Some s \<Rightarrow> and_then (h s) (\<lambda>(s', r). Inr (put_session s' d, r)))"

definition spin_lock_sessions :: "scsitap_sessions \<Rightarrow> scsitap_sessions res" where
  "spin_lock_sessions d = (if sl_lock d then Inl Deadlock else Inr (d\<lparr>sl_lock := True\<rparr>))"

definition spin_unlock_sessions :: "scsitap_sessions \<Rightarrow> scsitap_sessions" where
  "spin_unlock_sessions d = d\<lparr>sl_lock := False\<rparr>"

section \<open>Creating and destroying sessions\<close>

definition scsitap_get_session :: "scsitap_sessions \<Rightarrow> u32 \<Rightarrow> scsitap_session option" where
  "scsitap_get_session d dev_id = find (\<lambda>s. ss_dev_id s = dev_id) (sl_queue d)"

text \<open>
  \<open>host\<close> is what \<open>scsi_host_alloc\<close> returns (the address of the session), \<open>rc\<close> the
  result of \<open>scsi_add_host\<close>, \<open>cb\<close> the command blocks the mid layer has for the new host.
\<close>

definition new_session :: "nat \<Rightarrow> u32 \<Rightarrow> (nat \<Rightarrow> scsi_cmnd) \<Rightarrow> scsitap_session" where
  "new_session p dev_id cb = \<lparr>ss_addr = p, ss_dev_id = dev_id, ss_pid = 0, ss_flags = SCSITAP_CONNECTION_NOT_READY,
     ss_Device_Open = 0, ss_queue_lock = False, ss_cmd_numbers = 0, ss_next_cmdnumber = 1, ss_queue = [],
     ss_host_lock = False, ss_cmnds = cb, ss_done = []\<rparr>"

definition scsitap_create_session ::
  "nat option \<Rightarrow> int \<Rightarrow> (nat \<Rightarrow> scsi_cmnd) \<Rightarrow> u32 \<Rightarrow> scsitap_sessions \<Rightarrow> scsitap_sessions \<times> nat option" where
  "scsitap_create_session host rc cb dev_id d = (case host of
       None \<Rightarrow> (d, None)
     | Some p \<Rightarrow>
         if rc \<noteq> 0 then (d, None)
         else (d\<lparr>sl_queue := sl_queue d @ [new_session p dev_id cb], sl_last_id := sl_last_id d + 1\<rparr>, Some p))"

text \<open>The result is 1 when a target still has the device open, 0 when the session is gone.\<close>

definition scsitap_destroy_session :: "slab \<Rightarrow> nat \<Rightarrow> scsitap_sessions \<Rightarrow> (scsitap_sessions \<times> int) res" where
  "scsitap_destroy_session sl p d = (case session_at d p of
       None \<Rightarrow> Inl Use_after_free
     | Some s \<Rightarrow>
         if ss_Device_Open s \<noteq> 0 then Inr (d, 1)
         else and_then (spin_lock_queue s) (\<lambda>s1.
           and_then (finish_each sl (map tk_addr (ss_queue s1)) s1) (\<lambda>s2.
             Inr (d\<lparr>sl_queue := filter (\<lambda>t. ss_addr t \<noteq> p) (sl_queue d), sl_last_id := sl_last_id d - 1,
                   sl_removed := sl_removed d @ [spin_unlock_queue s2]\<rparr>, 0))))"

section \<open>The file operations\<close>

definition scsitap_ctl_read ::
  "bool \<Rightarrow> ctl_file \<Rightarrow> nat \<Rightarrow> bytes \<Rightarrow> scsitap_sessions \<Rightarrow> (scsitap_sessions \<times> bytes \<times> int) option res" where
  "scsitap_ctl_read sig f count ub d = (case fl_private f of
       None \<Rightarrow> Inr (Some (d, ub, - EFAULT))
     | Some p \<Rightarrow> (case session_at d p of
         None \<Rightarrow> Inl Use_after_free
       | Some s \<Rightarrow> and_then (ctl_read sig (fl_pos f) count ub s) (\<lambda>r. case r of
             None \<Rightarrow> Inr None
           | Some (s', ub', ret) \<Rightarrow> Inr (Some (put_session s' d, ub', ret)))))"

definition scsitap_ctl_write ::
  "slab \<Rightarrow> ctl_file \<Rightarrow> nat \<Rightarrow> bytes \<Rightarrow> scsitap_sessions \<Rightarrow> (scsitap_sessions \<times> int) res" where
  "scsitap_ctl_write sl f count ub d = (case fl_private f of
       None \<Rightarrow> Inr (d, - EFAULT)
     | Some p \<Rightarrow> at_session p (ctl_write sl count ub) d)"

text \<open>
  \<open>SCSITAP_IOCTL_REGISTER_CLIENT\<close>.  \<open>env\<close> is what the host allocation of a new session
  would give.
\<close>

definition attach_client :: "nat \<Rightarrow> u64 \<Rightarrow> scsitap_session \<Rightarrow> scsitap_session" where
  "attach_client p arg s = s\<lparr>ss_Device_Open := ss_Device_Open s + 1, ss_pid := ucast arg,
     ss_flags := SCSITAP_CONNECTION_READY\<rparr>"

definition ioctl_register ::
  "nat option \<Rightarrow> int \<Rightarrow> (nat \<Rightarrow> scsi_cmnd) \<Rightarrow> ctl_file \<Rightarrow> u64 \<Rightarrow> scsitap_sessions \<Rightarrow> (scsitap_sessions \<times> ctl_file \<times> int) res" where
  "ioctl_register host rc cb f arg d =
     and_then (spin_lock_sessions d) (\<lambda>d1.
       let (d2, sp) = (case scsitap_get_session d1 (fl_minor f) of
             Some s \<Rightarrow> (d1, Some (ss_addr s))
           | None \<Rightarrow> scsitap_create_session host rc cb (fl_minor f) d1)
       in case sp of
            None \<Rightarrow> Inr (spin_unlock_sessions d2, f, - 1)
          | Some p \<Rightarrow> (case session_at d2 p of
                None \<Rightarrow> Inl Use_after_free
              | Some s \<Rightarrow>
                  let d3 = (if ss_flags s = SCSITAP_CONNECTION_NOT_READY
                            then d2\<lparr>sl_work := Some p, sl_work_pending := True\<rparr> else d2)
                  in Inr (spin_unlock_sessions (put_session (attach_client p arg s) d3),
                          f\<lparr>fl_private := Some p\<rparr>, SUCCESS)))"

definition ioctl_unregister :: "slab \<Rightarrow> ctl_file \<Rightarrow> scsitap_sessions \<Rightarrow> (scsitap_sessions \<times> ctl_file \<times> int) res" where
  "ioctl_unregister sl f d =
     and_then (spin_lock_sessions d) (\<lambda>d1. case scsitap_get_session d1 (fl_minor f) of
         None \<Rightarrow> Inr (spin_unlock_sessions d1, f, - 1)
       | Some s \<Rightarrow> and_then (scsitap_destroy_session sl (ss_addr s) d1) (\<lambda>(d2, r).
             if r \<noteq> 0 then Inr (spin_unlock_sessions d2, f, - 1)
             else Inr (spin_unlock_sessions d2, f, SUCCESS)))"

definition scsitap_ctl_ioctl ::
  "slab \<Rightarrow> nat option \<Rightarrow> int \<Rightarrow> (nat \<Rightarrow> scsi_cmnd) \<Rightarrow> ctl_file \<Rightarrow> u32 \<Rightarrow> u64 \<Rightarrow> scsitap_sessions
     \<Rightarrow> (scsitap_sessions \<times> ctl_file \<times> int) res" where
  "scsitap_ctl_ioctl sl host rc cb f cmd arg d =
     (if cmd = SCSITAP_IOCTL_REGISTER_CLIENT then ioctl_register host rc cb f arg d
      else if cmd = SCSITAP_IOCTL_RECEIVE_TASK then
        (case fl_private f of
           None \<Rightarrow> Inr (d, f, - 1)
         | Some p \<Rightarrow> and_then (at_session p (ioctl_receive arg) d) (\<lambda>(d', r). Inr (d', f, r)))
      else if cmd = SCSITAP_IOCTL_SET_TASK then Inr (d, f\<lparr>fl_pos := arg\<rparr>, SUCCESS)
      else if cmd = SCSITAP_IOCTL_UNREGISTER_CLIENT then ioctl_unregister sl f d
      else Inr (d, f, - 1))"

definition scsitap_ctl_open :: "u32 \<Rightarrow> ctl_file" where
  "scsitap_ctl_open minor = \<lparr>fl_minor = minor, fl_private = None, fl_pos = 0\<rparr>"

definition detach_client :: "scsitap_session \<Rightarrow> scsitap_session" where
  "detach_client s = (let s1 = s\<lparr>ss_Device_Open := ss_Device_Open s - 1\<rparr>
     in if ss_Device_Open s1 = 0 then s1\<lparr>ss_flags := SCSITAP_CONNECTION_NOT_READY\<rparr> else s1)"

definition scsitap_ctl_release :: "ctl_file \<Rightarrow> scsitap_sessions \<Rightarrow> (scsitap_sessions \<times> int) res" where
  "scsitap_ctl_release f d = (case fl_private f of
       None \<Rightarrow> Inr (d, 0)
     | Some p \<Rightarrow> and_then (spin_lock_sessions d) (\<lambda>d1.
         and_then (at_session p (\<lambda>s. Inr (detach_client s, 0)) d1) (\<lambda>(d2, r).
           Inr (spin_unlock_sessions d2, r))))"

text \<open>The scheduled scan, when the work queue runs it.\<close>

definition scsitap_scan_hba :: "scsitap_sessions \<Rightarrow> scsitap_sessions res" where
  "scsitap_scan_hba d = (case sl_work d of
       None \<Rightarrow> Inl Null_deref
     | Some p \<Rightarrow> (case session_at d p of
         None \<Rightarrow> Inl Use_after_free
       | Some s \<Rightarrow> Inr (d\<lparr>sl_work_pending := False, sl_scans := sl_scans d @ [p]\<rparr>)))"

section \<open>Module start and stop\<close>

text \<open>\<open>cache\<close> says whether the slab cache could be created, \<open>major\<close> is what \<open>register_chrdev\<close> gives.\<close>

definition scsitap_register_interface :: "int \<Rightarrow> int" where
  "scsitap_register_interface major = (if major < 0 then 0 else major)"

definition no_sessions :: scsitap_sessions where
  "no_sessions = \<lparr>sl_queue = [], sl_last_id = 0, sl_lock = False, sl_work = None, sl_work_pending = False,
     sl_scans = [], sl_removed = []\<rparr>"

definition scsitap_init :: "bool \<Rightarrow> int \<Rightarrow> scsitap_sessions option \<times> int" where
  "scsitap_init cache major =
     (if \<not> cache then (None, - ENOMEM)
      else if scsitap_register_interface major \<noteq> 0 then
        (Some no_sessions, 0)
      else (None, - ENODEV))"

primrec destroy_each :: "slab \<Rightarrow> nat list \<Rightarrow> scsitap_sessions \<Rightarrow> scsitap_sessions res" where
  "destroy_each sl [] d = Inr d"
| "destroy_each sl (p # ps) d = and_then (scsitap_destroy_session sl p d) (\<lambda>(d', r). destroy_each sl ps d')"

text \<open>The cache is destroyed first, then the sessions.\<close>

definition scsitap_cleanup :: "slab \<Rightarrow> scsitap_sessions \<Rightarrow> scsitap_sessions res" where
  "scsitap_cleanup sl d =
     (let sl' = sl\<lparr>slab_alive := False\<rparr>
      in and_then (spin_lock_sessions d) (\<lambda>d1.
           and_then (destroy_each sl' (map ss_addr (sl_queue d1)) d1) (\<lambda>d2.
             Inr (spin_unlock_sessions d2))))"

section \<open>What a handler on one session leaves alone\<close>

text \<open>The parts of a session that only registration and release change.\<close>

definition same_identity :: "scsitap_session \<Rightarrow> scsitap_session \<Rightarrow> bool" where
  "same_identity s s' \<longleftrightarrow> ss_addr s' = ss_addr s \<and> ss_dev_id s' = ss_dev_id s
     \<and> ss_Device_Open s' = ss_Device_Open s \<and> ss_flags s' = ss_flags s"

named_theorems identity_intros "handlers keep the identity of a session"

lemma same_identity_simps [simp]:
  "same_identity s s" "same_identity (s\<lparr>ss_queue_lock := b\<rparr>) s' = same_identity s s'"
  "same_identity s (s'\<lparr>ss_queue_lock := b\<rparr>) = same_identity s s'" "same_identity s (s'\<lparr>ss_host_lock := b\<rparr>) = same_identity s s'"
  "same_identity (s\<lparr>ss_host_lock := b\<rparr>) s' = same_identity s s'" "same_identity (upd_cmnd c f s) s' = same_identity s s'"
  "same_identity s (upd_cmnd c f s') = same_identity s s'" "same_identity (set_task_flags a g s) s' = same_identity s s'"
  "same_identity s (set_task_flags a g s') = same_identity s s'" "same_identity s (queue_task c t s') = same_identity s s'"
  "same_identity s (s'\<lparr>ss_done := d\<rparr>) = same_identity s s'"
  by (simp_all add: same_identity_def upd_cmnd_def set_task_flags_def queue_task_def Let_def)

lemma same_identity_trans: "same_identity s s' \<Longrightarrow> same_identity s' s'' \<Longrightarrow> same_identity s s''"
  by (simp add: same_identity_def)

lemma complete_identity:
  assumes "scsitap_complete_task sl a s = Inr s'"
  shows "same_identity s s'"
  using assms
  by (auto simp: scsitap_complete_task_def call_scsi_done_def Let_def same_identity_def upd_cmnd_def
      split: option.splits if_splits)

lemma abort_each_identity: "abort_each sl as s = Inr s' \<Longrightarrow> same_identity s s'"
  by (induction as arbitrary: s) (auto simp: and_then_Inr_iff dest!: complete_identity intro: same_identity_trans)

lemma queuecommand_identity: "scsitap_queuecommand slot sc dn s = Inr (s', r) \<Longrightarrow> same_identity s s'"
  by (auto simp: scsitap_queuecommand_def lock_defs Let_def split: if_splits option.splits)

lemma eh_abort_identity: "scsitap_eh_abort sl sc s = Inr (s', r) \<Longrightarrow> same_identity s s'"
  by (auto simp: scsitap_eh_abort_def lock_defs and_then_Inr_iff split: if_splits option.splits dest!: complete_identity)

lemma host_reset_identity: "scsitap_eh_host_reset sl s = Inr (s', r) \<Longrightarrow> same_identity s s'"
  by (auto simp: scsitap_eh_host_reset_def lock_defs and_then_Inr_iff split: if_splits dest!: abort_each_identity)

lemma receive_identity: "ioctl_receive arg s = Inr (s', r) \<Longrightarrow> same_identity s s'"
  by (auto simp: ioctl_receive_def lock_defs and_then_Inr_iff split: if_splits option.splits)

lemma write_identity: "ctl_write sl n ub s = Inr (s', r) \<Longrightarrow> same_identity s s'"
  by (auto simp: ctl_write_def ctl_write_D_def lock_defs and_then_Inr_iff Let_def split: if_splits option.splits prod.splits
      dest!: complete_identity)

end
