(* ===== verification/Driver.thy ===== *)
theory Driver
  imports Sessions
begin

text \<open>
  The driver as a state machine: all sessions, all open files, and one event for every call that
  user space, the SCSI mid layer or the work queue makes.  \<open>driver_exec\<close> runs the handler of an
  event, \<open>allowed\<close> says what the driver's surroundings guarantee (the VFS, the mid layer and the
  slab allocator), \<open>driver_ok\<close> is the invariant.
\<close>

section \<open>Events\<close>

record driver =
  dr_sessions :: scsitap_sessions
  dr_files :: "nat \<Rightarrow> ctl_file option"

datatype event =
    Open_ctl nat u32
  | Register nat u64 "nat option" int "nat \<Rightarrow> scsi_cmnd"
  | Receive_task nat u64
  | Set_task nat u64
  | Unregister nat
  | Read_ctl nat bool nat bytes
  | Write_ctl nat nat bytes
  | Close_ctl nat
  | Queue_command nat nat scsi_cmnd nat "nat option"
  | Abort_command nat nat
  | Reset_host nat
  | Run_scan

text \<open>An ioctl on an open file: the session list and the file change together.\<close>

definition ioctl_on :: "slab \<Rightarrow> nat option \<Rightarrow> int \<Rightarrow> (nat \<Rightarrow> scsi_cmnd) \<Rightarrow> nat \<Rightarrow> u32 \<Rightarrow> u64 \<Rightarrow> driver \<Rightarrow> driver res" where
  "ioctl_on sl host rc cb fd cmd arg d = (case dr_files d fd of
       None \<Rightarrow> Inr d
     | Some f \<Rightarrow> and_then (scsitap_ctl_ioctl sl host rc cb f cmd arg (dr_sessions d)) (\<lambda>(ss, f', r).
         Inr \<lparr>dr_sessions = ss, dr_files = (dr_files d)(fd \<mapsto> f')\<rparr>))"

definition with_sessions :: "(scsitap_sessions \<Rightarrow> (scsitap_sessions \<times> 'r) res) \<Rightarrow> driver \<Rightarrow> driver res" where
  "with_sessions h d = and_then (h (dr_sessions d)) (\<lambda>(ss, r). Inr (d\<lparr>dr_sessions := ss\<rparr>))"

definition no_cmnds :: "nat \<Rightarrow> scsi_cmnd" where
  "no_cmnds = (\<lambda>_. demo_cmnd None)"

fun driver_exec :: "slab \<Rightarrow> event \<Rightarrow> driver \<Rightarrow> driver res" where
  "driver_exec sl (Open_ctl fd minor) d = Inr (d\<lparr>dr_files := (dr_files d)(fd \<mapsto> scsitap_ctl_open minor)\<rparr>)"
| "driver_exec sl (Register fd arg host rc cb) d = ioctl_on sl host rc cb fd SCSITAP_IOCTL_REGISTER_CLIENT arg d"
| "driver_exec sl (Receive_task fd arg) d = ioctl_on sl None 0 no_cmnds fd SCSITAP_IOCTL_RECEIVE_TASK arg d"
| "driver_exec sl (Set_task fd arg) d = ioctl_on sl None 0 no_cmnds fd SCSITAP_IOCTL_SET_TASK arg d"
| "driver_exec sl (Unregister fd) d = ioctl_on sl None 0 no_cmnds fd SCSITAP_IOCTL_UNREGISTER_CLIENT 0 d"
| "driver_exec sl (Read_ctl fd sig n ub) d = (case dr_files d fd of
       None \<Rightarrow> Inr d
     | Some f \<Rightarrow> and_then (scsitap_ctl_read sig f n ub (dr_sessions d)) (\<lambda>r. case r of
           None \<Rightarrow> Inr d
         | Some (ss, ub', ret) \<Rightarrow> Inr (d\<lparr>dr_sessions := ss\<rparr>)))"
| "driver_exec sl (Write_ctl fd n ub) d = (case dr_files d fd of
       None \<Rightarrow> Inr d
     | Some f \<Rightarrow> with_sessions (scsitap_ctl_write sl f n ub) d)"
| "driver_exec sl (Close_ctl fd) d = (case dr_files d fd of
       None \<Rightarrow> Inr d
     | Some f \<Rightarrow> with_sessions (scsitap_ctl_release f) (d\<lparr>dr_files := (dr_files d)(fd := None)\<rparr>))"
| "driver_exec sl (Queue_command p sc c dn slot) d =
     with_sessions (at_session p (\<lambda>s. scsitap_queuecommand slot sc dn (upd_cmnd sc (\<lambda>_. c) s))) d"
| "driver_exec sl (Abort_command p sc) d = with_sessions (at_session p (scsitap_eh_abort sl sc)) d"
| "driver_exec sl (Reset_host p) d = with_sessions (at_session p (scsitap_eh_host_reset sl)) d"
| "driver_exec sl Run_scan d = and_then (scsitap_scan_hba (dr_sessions d)) (\<lambda>ss. Inr (d\<lparr>dr_sessions := ss\<rparr>))"

text \<open>
  The surroundings.  The VFS opens a file on a free descriptor; a target registers once per open
  file, and no more than 255 of them on one minor; a new host does not overlap an existing one and
  has well-formed, unlinked command blocks.  The mid layer calls a host that exists, with a command
  the host does not hold; the allocator hands out free slots.  The work queue runs the scan while
  the session it is for exists.
\<close>

fun allowed :: "driver \<Rightarrow> event \<Rightarrow> bool" where
  "allowed d (Open_ctl fd minor) \<longleftrightarrow> dr_files d fd = None"
| "allowed d (Register fd arg host rc cb) \<longleftrightarrow>
     (\<forall>f. dr_files d fd = Some f \<longrightarrow> fl_private f = None \<and>
        (\<forall>s. scsitap_get_session (dr_sessions d) (fl_minor f) = Some s \<longrightarrow> ss_Device_Open s \<noteq> -1))
     \<and> (\<forall>p. host = Some p \<longrightarrow> session_at (dr_sessions d) p = None)
     \<and> (\<forall>c. sc_SCp_ptr (cb c) = None)"
| "allowed d (Queue_command p sc c dn slot) \<longleftrightarrow> (\<exists>s. session_at (dr_sessions d) p = Some s
     \<and> sc \<notin> set (pending s) \<and> wf_cmnd c \<and> sc_SCp_ptr c = None
     \<and> (\<forall>a. slot = Some a \<longrightarrow> a \<notin> tk_addr ` set (ss_queue s)))"
| "allowed d (Abort_command p sc) \<longleftrightarrow> session_at (dr_sessions d) p \<noteq> None"
| "allowed d (Reset_host p) \<longleftrightarrow> session_at (dr_sessions d) p \<noteq> None"
| "allowed d Run_scan \<longleftrightarrow> (\<exists>p. sl_work (dr_sessions d) = Some p \<and> session_at (dr_sessions d) p \<noteq> None)"
| "allowed d _ \<longleftrightarrow> True"

definition driver_init :: driver where
  "driver_init = \<lparr>dr_sessions = no_sessions, dr_files = (\<lambda>_. None)\<rparr>"

inductive driver_step :: "slab \<Rightarrow> driver \<Rightarrow> event \<Rightarrow> driver \<Rightarrow> bool" for sl where
  step: "allowed d e \<Longrightarrow> driver_exec sl e d = Inr d' \<Longrightarrow> driver_step sl d e d'"

inductive driver_reachable :: "slab \<Rightarrow> driver \<Rightarrow> bool" for sl where
  init: "driver_reachable sl driver_init"
| next_step: "driver_reachable sl d \<Longrightarrow> driver_step sl d e d' \<Longrightarrow> driver_reachable sl d'"

inductive_cases driver_stepE: "driver_step sl d e d'"

section \<open>The invariant\<close>

text \<open>The open files that are registered with the session at \<open>p\<close>.\<close>

definition clients :: "driver \<Rightarrow> nat \<Rightarrow> nat set" where
  "clients d p = {fd. \<exists>f. dr_files d fd = Some f \<and> fl_private f = Some p}"

text \<open>
  Between two events: the session lock is free, every session is in order, sessions have distinct
  addresses and minors, every registered file points at a session that exists, \<open>Device_Open\<close>
  counts a session's clients, and the session is ready exactly while it has one.
\<close>

definition session_inv :: "driver \<Rightarrow> scsitap_session \<Rightarrow> bool" where
  "session_inv d s \<longleftrightarrow> session_ok s \<and> card (clients d (ss_addr s)) = unat (ss_Device_Open s)
     \<and> ss_flags s = (if ss_Device_Open s = 0 then SCSITAP_CONNECTION_NOT_READY else SCSITAP_CONNECTION_READY)"

definition driver_ok :: "driver \<Rightarrow> bool" where
  "driver_ok d \<longleftrightarrow> \<not> sl_lock (dr_sessions d) \<and> finite (dom (dr_files d))
     \<and> distinct (map ss_addr (sl_queue (dr_sessions d))) \<and> distinct (map ss_dev_id (sl_queue (dr_sessions d)))
     \<and> (\<forall>s\<in>set (sl_queue (dr_sessions d)). session_inv d s)
     \<and> (\<forall>fd f p. dr_files d fd = Some f \<longrightarrow> fl_private f = Some p \<longrightarrow> session_at (dr_sessions d) p \<noteq> None)"

lemma driver_init_ok: "driver_ok driver_init"
  by (simp add: driver_ok_def driver_init_def no_sessions_def dom_def)

lemma session_at_iff:
  assumes "driver_ok d"
  shows "session_at (dr_sessions d) p = Some s \<longleftrightarrow> s \<in> set (sl_queue (dr_sessions d)) \<and> ss_addr s = p"
  using assms find_key [of ss_addr "sl_queue (dr_sessions d)" s]
  by (auto simp: driver_ok_def session_at_def dest: find_SomeD)

lemma driver_okD:
  assumes "driver_ok d" and "session_at (dr_sessions d) p = Some s"
  shows "session_inv d s" and "session_ok s" and "ss_addr s = p" and "s \<in> set (sl_queue (dr_sessions d))"
  using assms session_at_iff [OF assms(1)] by (auto simp: driver_ok_def session_inv_def)

lemma session_at_None: "session_at D p = None \<longleftrightarrow> p \<notin> set (map ss_addr (sl_queue D))"
  by (auto simp: session_at_def find_None_iff)

lemma put_session_addrs [simp]: "map ss_addr (sl_queue (put_session s D)) = map ss_addr (sl_queue D)"
  by (auto simp: put_session_def)

lemma put_session_devs:
  assumes "distinct (map ss_addr (sl_queue D))" and "s \<in> set (sl_queue D)" and "ss_addr s' = ss_addr s" and "ss_dev_id s' = ss_dev_id s"
  shows "map ss_dev_id (sl_queue (put_session s' D)) = map ss_dev_id (sl_queue D)"
  using assms distinct_key_eq [OF assms(1) _ assms(2)] by (auto simp: put_session_def)

lemma put_session_sel [simp]: "sl_lock (put_session s D) = sl_lock D" "sl_work (put_session s D) = sl_work D"
  by (simp_all add: put_session_def)

lemma put_session_queue:
  "t \<in> set (sl_queue (put_session s D)) \<Longrightarrow> t = s \<or> t \<in> set (sl_queue D) \<and> ss_addr t \<noteq> ss_addr s"
  by (auto simp: put_session_def split: if_splits)

text \<open>Replacing one session, with the files that point at it, keeps the driver in order.\<close>

lemma put_session_ok:
  assumes "driver_ok d" and "session_at (dr_sessions d) p = Some s"
    and "ss_addr s' = p" and "ss_dev_id s' = ss_dev_id s" and "session_inv d' s'"
    and "sl_queue (dr_sessions d') = sl_queue (put_session s' (dr_sessions d))" and "\<not> sl_lock (dr_sessions d')"
    and "\<And>q. q \<noteq> p \<Longrightarrow> clients d' q = clients d q" and "finite (dom (dr_files d'))"
    and "\<And>fd f q. dr_files d' fd = Some f \<Longrightarrow> fl_private f = Some q \<Longrightarrow> q = p \<or> session_at (dr_sessions d) q \<noteq> None"
  shows "driver_ok d'"
proof -
  note s = driver_okD [OF assms(1,2)]
  have addrs: "map ss_addr (sl_queue (dr_sessions d')) = map ss_addr (sl_queue (dr_sessions d))"
    unfolding assms(6) by (rule put_session_addrs)
  have devs: "map ss_dev_id (sl_queue (dr_sessions d')) = map ss_dev_id (sl_queue (dr_sessions d))"
    unfolding assms(6) by (rule put_session_devs [of _ s]) (use assms(1,3,4) s in \<open>auto simp: driver_ok_def\<close>)
  have inv: "session_inv d' t" if t: "t \<in> set (sl_queue (dr_sessions d'))" for t
  proof (cases "t = s'")
    case False
    with t assms(3,6) have "t \<in> set (sl_queue (dr_sessions d))" "ss_addr t \<noteq> p"
      by (auto dest: put_session_queue)
    with assms(1,8) show ?thesis by (simp add: driver_ok_def session_inv_def)
  qed (use assms(5) in simp)
  have "session_at (dr_sessions d') q = None \<longleftrightarrow> session_at (dr_sessions d) q = None" for q
    by (simp only: session_at_None addrs)
  then have "session_at (dr_sessions d') q \<noteq> None" if "dr_files d' fd = Some f" "fl_private f = Some q" for fd f q
    using assms(2) assms(10) [OF that] by (auto simp: that)
  with assms(1,7,9) inv addrs devs show ?thesis by (simp add: driver_ok_def)
qed

text \<open>Handlers on one session.\<close>

lemma at_session_ok:
  assumes "driver_ok d" and "session_at (dr_sessions d) p = Some s"
    and "h s = Inr (s', r)" and "session_ok s'" and "same_identity s s'"
  shows "\<exists>d'. with_sessions (at_session p h) d = Inr d' \<and> driver_ok d'"
proof -
  let ?d = "d\<lparr>dr_sessions := put_session s' (dr_sessions d)\<rparr>"
  note s = driver_okD [OF assms(1,2)]
  have c: "clients ?d q = clients d q" for q by (simp add: clients_def)
  have "driver_ok ?d"
    by (rule put_session_ok [OF assms(1,2)])
      (use assms s c in \<open>auto simp: driver_ok_def same_identity_def session_inv_def\<close>)
  with assms(2,3) show ?thesis by (simp add: with_sessions_def at_session_def)
qed

section \<open>Handlers keep a session in order\<close>

definition keeps_wf :: "scsitap_session \<Rightarrow> scsitap_session \<Rightarrow> bool" where
  "keeps_wf s s' \<longleftrightarrow> (\<forall>c. wf_cmnd (ss_cmnds s c) \<longrightarrow> wf_cmnd (ss_cmnds s' c))"

lemma keeps_wf_simps [simp]:
  "keeps_wf s s" "keeps_wf (s\<lparr>ss_queue_lock := b\<rparr>) s' = keeps_wf s s'"
  "keeps_wf s (s'\<lparr>ss_queue_lock := b\<rparr>) = keeps_wf s s'" "keeps_wf s (s'\<lparr>ss_host_lock := b\<rparr>) = keeps_wf s s'"
  "keeps_wf (s\<lparr>ss_host_lock := b\<rparr>) s' = keeps_wf s s'" "keeps_wf (set_task_flags a g s) s' = keeps_wf s s'"
  "keeps_wf s (s'\<lparr>ss_done := d\<rparr>) = keeps_wf s s'" "keeps_wf (s\<lparr>ss_done := d\<rparr>) s' = keeps_wf s s'"
  by (simp_all add: keeps_wf_def)

lemma keeps_wf_trans: "keeps_wf s s' \<Longrightarrow> keeps_wf s' s'' \<Longrightarrow> keeps_wf s s''"
  by (simp add: keeps_wf_def)

lemma complete_keeps_wf:
  assumes "scsitap_complete_task sl a s = Inr s'"
  shows "keeps_wf s s'"
  using assms
  by (auto simp: scsitap_complete_task_def call_scsi_done_def Let_def keeps_wf_def upd_cmnd_def
      split: option.splits if_splits)

lemma abort_each_keeps_wf: "abort_each sl as s = Inr s' \<Longrightarrow> keeps_wf s s'"
  by (induction as arbitrary: s) (auto simp: and_then_Inr_iff dest!: complete_keeps_wf intro: keeps_wf_trans)

lemma eh_abort_keeps_wf: "scsitap_eh_abort sl sc s = Inr (s', r) \<Longrightarrow> keeps_wf s s'"
  by (auto simp: scsitap_eh_abort_def lock_defs and_then_Inr_iff split: if_splits option.splits dest!: complete_keeps_wf)

lemma host_reset_keeps_wf: "scsitap_eh_host_reset sl s = Inr (s', r) \<Longrightarrow> keeps_wf s s'"
  by (auto simp: scsitap_eh_host_reset_def lock_defs and_then_Inr_iff split: if_splits dest!: abort_each_keeps_wf)

lemma queuecommand_keeps_wf: "scsitap_queuecommand slot sc dn s = Inr (s', r) \<Longrightarrow> keeps_wf s s'"
  by (auto simp: scsitap_queuecommand_def lock_defs Let_def keeps_wf_def upd_cmnd_def queue_task_def
      split: if_splits option.splits)

lemma session_ok_iff: "session_ok s \<longleftrightarrow> session_idle s \<and> (\<forall>c\<in>set (pending s). wf_cmnd (ss_cmnds s c))"
  by (simp add: session_ok_def)

lemma eh_abort_safe:
  assumes "session_ok s" and "slab_ok sl"
  shows "\<exists>s'. scsitap_eh_abort sl sc s = Inr (s', SUCCESS) \<and> session_ok s'"
proof -
  obtain s' where s': "scsitap_eh_abort sl sc s = Inr (s', SUCCESS)" "session_idle s'" "pending s' = remove1 sc (pending s)"
    using eh_abort_removes_fact [OF session_okD(5) [OF assms(1)] assms(2)] by blast
  moreover have "set (pending s') \<subseteq> set (pending s)"
    unfolding s'(3) by (rule set_remove1_subset)
  ultimately show ?thesis
    using eh_abort_keeps_wf [OF s'(1)] assms(1) unfolding session_ok_iff keeps_wf_def by blast
qed

lemma host_reset_safe:
  assumes "session_ok s" and "slab_ok sl"
  shows "\<exists>s'. scsitap_eh_host_reset sl s = Inr (s', SUCCESS) \<and> session_ok s'"
  using host_reset_drains_fact [OF session_okD(5) [OF assms(1)] assms(2)] by (auto simp: session_ok_iff)

lemma prepare_ok:
  assumes "session_ok s" and "sc \<notin> set (pending s)" and "sc_SCp_ptr c = None"
  shows "session_ok (upd_cmnd sc (\<lambda>_. c) s)"
  using assms
  by (auto simp: session_ok_def session_idle_def queue_inv_def queue_links_def live_flags_def upd_cmnd_def)

lemma queuecommand_safe:
  assumes "session_ok s" and "sc \<notin> set (pending s)" and "wf_cmnd c" and "sc_SCp_ptr c = None"
    and "\<And>a. slot = Some a \<Longrightarrow> a \<notin> tk_addr ` set (ss_queue s)"
  shows "\<exists>s' r. scsitap_queuecommand slot sc dn (upd_cmnd sc (\<lambda>_. c) s) = Inr (s', r) \<and> session_ok s'"
proof -
  let ?s = "upd_cmnd sc (\<lambda>_. c) s"
  have ok: "session_ok ?s" by (rule prepare_ok [OF assms(1,2,4)])
  note idle = session_okD(5) [OF ok]
  have p: "sc \<notin> set (pending ?s)" and w: "wf_cmnd (ss_cmnds ?s sc)" "length (sc_sense_buffer (ss_cmnds ?s sc)) = SCSI_SENSE_BUFFERSIZE"
    using assms(2,3) by (simp_all add: wf_cmnd_sense_len)
  have "\<exists>s' r. scsitap_queuecommand slot sc dn ?s = Inr (s', r) \<and> session_idle s' \<and> set (pending s') \<subseteq> insert sc (set (pending ?s))"
  proof (cases "ss_flags ?s = SCSITAP_CONNECTION_READY")
    case False
    from queuecommand_not_ready_fact [OF idle False w(2), of slot dn] show ?thesis by fastforce
  next
    case True
    show ?thesis
    proof (cases slot)
      case None
      with queuecommand_busy_fact [OF idle True p, of dn] show ?thesis by fastforce
    next
      case (Some a)
      then have "a \<notin> tk_addr ` set (ss_queue ?s)" using assms(5) by simp
      from queuecommand_accepts_fact [OF idle True p this, of dn] Some show ?thesis by fastforce
    qed
  qed
  then obtain s' r where s': "scsitap_queuecommand slot sc dn ?s = Inr (s', r)" "session_idle s'" "set (pending s') \<subseteq> insert sc (set (pending ?s))"
    by blast
  moreover have "\<forall>c\<in>insert sc (set (pending ?s)). wf_cmnd (ss_cmnds s' c)"
    using queuecommand_keeps_wf [OF s'(1)] ok w(1) unfolding session_ok_iff keeps_wf_def by blast
  ultimately show ?thesis unfolding session_ok_iff by blast
qed

lemma receive_safe:
  assumes "session_ok s" and "ss_flags s = SCSITAP_CONNECTION_READY"
  shows "\<exists>s' r. ioctl_receive arg s = Inr (s', r) \<and> session_ok s'"
proof (cases "task_of_cmd s (ucast arg)")
  case None
  with assms lock_unlock [OF assms(1)] show ?thesis by (simp add: ioctl_receive_def)
next
  case (Some t)
  have "spin_unlock_queue (set_task_flags a f (s\<lparr>ss_queue_lock := True\<rparr>)) = set_task_flags a f s" for a f
    using session_okD(4) [OF assms(1)] by (simp add: set_task_flags_def spin_unlock_queue_def)
  with Some assms lock_unlock [OF assms(1)] set_flags_ok [OF assms(1)] show ?thesis
    by (simp add: ioctl_receive_def)
qed

text \<open>A registered file's session has a client, so it is ready.\<close>

lemma client_ready:
  assumes "driver_ok d" and "dr_files d fd = Some f" and "fl_private f = Some p"
  obtains s where "session_at (dr_sessions d) p = Some s" and "session_ok s" and "ss_flags s = SCSITAP_CONNECTION_READY"
    and "ss_Device_Open s \<noteq> 0"
proof -
  obtain s where s: "session_at (dr_sessions d) p = Some s"
    using assms unfolding driver_ok_def by blast
  note sd = driver_okD [OF assms(1) s]
  have "finite (clients d p)"
    using assms(1) by (auto simp: driver_ok_def clients_def dom_def elim: rev_finite_subset)
  moreover have "fd \<in> clients d p" using assms(2,3) by (simp add: clients_def)
  ultimately have "card (clients d p) \<noteq> 0" by auto
  with sd have "ss_Device_Open s \<noteq> 0" "ss_flags s = SCSITAP_CONNECTION_READY"
    by (auto simp: session_inv_def)
  with s sd that show ?thesis by blast
qed

section \<open>Clients come and go\<close>

lemma finite_clients: "driver_ok d \<Longrightarrow> finite (clients d p)"
  by (auto simp: driver_ok_def clients_def dom_def elim: rev_finite_subset)

text \<open>A file that changes which session it points at.\<close>

lemma clients_upd:
  "clients (d\<lparr>dr_files := (dr_files d)(fd \<mapsto> f)\<rparr>) p =
     (if fl_private f = Some p then insert fd (clients d p) else clients d p - {fd})"
  by (auto simp: clients_def)

lemma clients_remove: "clients (d\<lparr>dr_files := (dr_files d)(fd := None)\<rparr>) p = clients d p - {fd}"
  by (auto simp: clients_def)

lemma clients_sessions [simp]: "clients (d\<lparr>dr_sessions := ss\<rparr>) p = clients d p"
  by (simp add: clients_def)

lemma word8_inc: "n \<noteq> (-1 :: u8) \<Longrightarrow> unat (n + 1) = Suc (unat n)"
  by (metis add.commute max_word_wrap unatSuc)

lemma attach_ok:
  assumes "session_ok s"
  shows "session_ok (attach_client p arg s)"
  using assms by (simp add: session_ok_def session_idle_def attach_client_def queue_inv_def)

lemma detach_ok:
  assumes "session_ok s"
  shows "session_ok (detach_client s)"
  using assms by (simp add: session_ok_def session_idle_def detach_client_def queue_inv_def Let_def)

lemma detach_sel:
  "ss_addr (detach_client s) = ss_addr s" "ss_dev_id (detach_client s) = ss_dev_id s"
  "ss_Device_Open (detach_client s) = ss_Device_Open s - 1"
  "ss_Device_Open s - 1 = 0 \<Longrightarrow> ss_flags (detach_client s) = SCSITAP_CONNECTION_NOT_READY"
  "ss_Device_Open s - 1 \<noteq> 0 \<Longrightarrow> ss_flags (detach_client s) = ss_flags s"
  by (auto simp: detach_client_def Let_def)

lemma close_progress:
  assumes "driver_ok d"
  shows "\<exists>d'. driver_exec sl (Close_ctl fd) d = Inr d' \<and> driver_ok d'"
proof (cases "dr_files d fd")
  case None
  with assms show ?thesis by auto
next
  case (Some f)
  let ?d1 = "d\<lparr>dr_files := (dr_files d)(fd := None)\<rparr>"
  have lock: "\<not> sl_lock (dr_sessions d)" and fin: "finite (dom (dr_files d))" using assms by (auto simp: driver_ok_def)
  show ?thesis
  proof (cases "fl_private f")
    case None
    then have "clients ?d1 q = clients d q" for q
      using Some by (auto simp: clients_def)
    then have "session_inv ?d1 s = session_inv d s" for s
      by (simp add: session_inv_def)
    then have "driver_ok ?d1"
      using assms by (auto simp: driver_ok_def)
    with None Some show ?thesis by (simp add: with_sessions_def scsitap_ctl_release_def)
  next
    case priv: (Some p)
    obtain s where s: "session_at (dr_sessions d) p = Some s" "session_ok s" "ss_flags s = SCSITAP_CONNECTION_READY" "ss_Device_Open s \<noteq> 0"
      using client_ready [OF assms Some priv] .
    note sd = driver_okD [OF assms s(1)]
    let ?d2 = "?d1\<lparr>dr_sessions := put_session (detach_client s) (dr_sessions d)\<rparr>"
    have mem: "fd \<in> clients d p" using Some priv by (simp add: clients_def)
    have "card (clients d p - {fd}) = unat (ss_Device_Open s - 1)"
      using mem finite_clients [OF assms] sd(1,3) s(4) by (simp add: session_inv_def unat_minus_one)
    then have "session_inv ?d2 (detach_client s)"
      using detach_ok [OF s(2)] s(3,4) sd(3)
      by (cases "ss_Device_Open s - 1 = 0") (simp_all add: session_inv_def detach_sel clients_remove)
    moreover have "clients ?d2 q = clients d q" if "q \<noteq> p" for q
      using that Some priv by (auto simp: clients_def)
    ultimately have "driver_ok ?d2"
      by (intro put_session_ok [OF assms s(1)])
        (use assms lock fin sd in \<open>auto simp: detach_sel driver_ok_def split: if_splits\<close>)
    moreover have "put_session (detach_client s) (dr_sessions d\<lparr>sl_lock := True\<rparr>)\<lparr>sl_lock := False\<rparr> = put_session (detach_client s) (dr_sessions d)"
      using lock by (simp add: put_session_def)
    ultimately show ?thesis
      using Some priv s(1) lock
      by (simp add: with_sessions_def scsitap_ctl_release_def spin_lock_sessions_def at_session_def session_at_def
          spin_unlock_sessions_def)
  qed
qed

lemma new_session_ok:
  assumes "\<And>c. sc_SCp_ptr (cb c) = None"
  shows "session_ok (new_session p m cb)"
  using assms by (simp add: new_session_def session_ok_def session_idle_def queue_inv_def queue_links_def live_flags_def)

lemma no_clients:
  assumes "driver_ok d" and "session_at (dr_sessions d) p = None"
  shows "clients d p = {}"
  using assms unfolding driver_ok_def clients_def by blast

lemma create_ok:
  assumes "driver_ok d" and "session_at (dr_sessions d) p = None" and "scsitap_get_session (dr_sessions d) m = None"
    and "\<And>c. sc_SCp_ptr (cb c) = None"
    and "sl_queue D = sl_queue (dr_sessions d) @ [new_session p m cb]" and "\<not> sl_lock D"
  shows "driver_ok (d\<lparr>dr_sessions := D\<rparr>)" and "session_at D p = Some (new_session p m cb)"
proof -
  have a: "ss_addr (new_session p m cb) = p" "ss_dev_id (new_session p m cb) = m" "ss_Device_Open (new_session p m cb) = 0"
    "ss_flags (new_session p m cb) = SCSITAP_CONNECTION_NOT_READY"
    by (simp_all add: new_session_def)
  have n: "p \<notin> ss_addr ` set (sl_queue (dr_sessions d))" "m \<notin> ss_dev_id ` set (sl_queue (dr_sessions d))"
    using assms(2,3) by (auto simp: session_at_def scsitap_get_session_def find_None_iff)
  have "session_inv d (new_session p m cb)"
    using new_session_ok [of cb, OF assms(4)] no_clients [OF assms(1,2)] a by (simp add: session_inv_def)
  moreover have "session_at D q \<noteq> None" if "session_at (dr_sessions d) q \<noteq> None" for q
    using that by (auto simp: session_at_None assms(5))
  ultimately show "driver_ok (d\<lparr>dr_sessions := D\<rparr>)"
    using assms(1,5,6) a n by (auto simp: driver_ok_def session_inv_def)
  show "session_at D p = Some (new_session p m cb)"
    using assms(2) a(1) by (simp add: session_at_def assms(5) find_appended)
qed

lemma attach_file_ok:
  assumes "driver_ok d" and "dr_files d fd = Some f" and "fl_private f = None"
    and "session_at (dr_sessions d) p = Some s" and "ss_Device_Open s \<noteq> -1"
    and "sl_queue D = sl_queue (put_session (attach_client p arg s) (dr_sessions d))" and "\<not> sl_lock D"
  shows "driver_ok \<lparr>dr_sessions = D, dr_files = (dr_files d)(fd \<mapsto> f\<lparr>fl_private := Some p\<rparr>)\<rparr>" (is "driver_ok ?d")
proof -
  note sd = driver_okD [OF assms(1,4)]
  have fin: "finite (dom (dr_files d))" using assms(1) by (simp add: driver_ok_def)
  have notmem: "fd \<notin> clients d p" using assms(2,3) by (simp add: clients_def)
  have cl: "clients ?d q = (if q = p then insert fd (clients d q) else clients d q)" for q
    using assms(2,3) by (auto simp: clients_def)
  have wrap: "ss_Device_Open s + 1 \<noteq> 0" using assms(5) max_word_wrap by blast
  have "session_inv ?d (attach_client p arg s)"
    using sd(1,3) attach_ok [OF sd(2)] notmem finite_clients [OF assms(1), of p] cl [of p] word8_inc [OF assms(5)] wrap
    by (simp add: session_inv_def attach_client_def)
  then show ?thesis
    by (intro put_session_ok [OF assms(1,4)])
      (use assms sd cl fin in \<open>auto simp: attach_client_def driver_ok_def split: if_splits\<close>)
qed

lemma driver_unlocked:
  assumes "driver_ok d"
  shows "driver_ok \<lparr>dr_sessions = (dr_sessions d)\<lparr>sl_lock := False\<rparr>, dr_files = dr_files d\<rparr>"
  using assms by (simp add: driver_ok_def session_inv_def clients_def session_at_def)

text \<open>The registration of a client with a session that is in the list.\<close>

lemma register_existing:
  assumes "driver_ok d" and "dr_files d fd = Some f" and "fl_private f = None"
    and "session_at (dr_sessions d) p = Some s" and "ss_Device_Open s \<noteq> -1"
    and "D2 = (if ss_flags s = SCSITAP_CONNECTION_NOT_READY then (dr_sessions d)\<lparr>sl_lock := True, sl_work := Some p, sl_work_pending := True\<rparr>
               else (dr_sessions d)\<lparr>sl_lock := True\<rparr>)"
  shows "driver_ok \<lparr>dr_sessions = spin_unlock_sessions (put_session (attach_client p arg s) D2),
     dr_files = (dr_files d)(fd \<mapsto> f\<lparr>fl_private := Some p\<rparr>)\<rparr>"
  by (rule attach_file_ok [OF assms(1-5), where arg = arg]) (simp_all add: assms(6) put_session_def spin_unlock_sessions_def)

lemma register_progress:
  assumes "driver_ok d" and "allowed d (Register fd arg host rc cb)"
  shows "\<exists>d'. driver_exec sl (Register fd arg host rc cb) d = Inr d' \<and> driver_ok d'"
proof (cases "dr_files d fd")
  case None
  with assms show ?thesis by (simp add: ioctl_on_def)
next
  case (Some f)
  let ?D = "dr_sessions d" and ?m = "fl_minor f"
  let ?L = "?D\<lparr>sl_lock := True\<rparr>"
  have lock: "\<not> sl_lock ?D" using assms(1) by (simp add: driver_ok_def)
  have priv: "fl_private f = None" using assms(2) Some by simp
  have same: "scsitap_get_session ?L m = scsitap_get_session ?D m" "session_at ?L p = session_at ?D p" for m p
    by (simp_all add: scsitap_get_session_def session_at_def)
  note defs = ioctl_on_def scsitap_ctl_ioctl_def ioctl_register_def spin_lock_sessions_def Let_def
  show ?thesis
  proof (cases "scsitap_get_session ?D ?m")
    case found: (Some s)
    then have mem: "s \<in> set (sl_queue ?D)" by (auto simp: scsitap_get_session_def dest: find_SomeD)
    then have at: "session_at ?D (ss_addr s) = Some s" by (simp add: session_at_iff [OF assms(1)])
    have "ss_Device_Open s \<noteq> -1" using assms(2) Some found by simp
    with register_existing [OF assms(1) Some priv at _ refl, of arg] show ?thesis
      using Some found lock at by (simp add: defs same)
  next
    case new: None
    show ?thesis
    proof (cases "host = None \<or> rc \<noteq> 0")
      case True
      then show ?thesis
        using assms(1) Some new lock driver_unlocked [OF assms(1)]
        by (cases host) (simp_all add: defs same scsitap_create_session_def spin_unlock_sessions_def fun_upd_idem)
    next
      case False
      then obtain p where p: "host = Some p" "rc = 0" "session_at ?D p = None" using assms(2) by auto
      define N where "N = ?D\<lparr>sl_queue := sl_queue ?D @ [new_session p ?m cb], sl_last_id := sl_last_id ?D + 1\<rparr>"
      have ok: "driver_ok (d\<lparr>dr_sessions := N\<rparr>)" and at: "session_at N p = Some (new_session p ?m cb)"
        using create_ok [OF assms(1) p(3) new, of cb N] assms(2) lock by (auto simp: N_def)
      have n: "ss_Device_Open (new_session p ?m cb) \<noteq> -1" "ss_flags (new_session p ?m cb) = SCSITAP_CONNECTION_NOT_READY"
        by (simp_all add: new_session_def)
      have at': "session_at (N\<lparr>sl_lock := True\<rparr>) p = Some (new_session p ?m cb)" using at by (simp add: session_at_def)
      have cr: "scsitap_create_session (Some p) 0 cb ?m ?L = (N\<lparr>sl_lock := True\<rparr>, Some p)"
        by (simp add: scsitap_create_session_def N_def)
      from register_existing [OF ok, of fd f p "new_session p ?m cb" _ arg, OF _ priv _ n(1) refl] at Some n
      have "driver_ok \<lparr>dr_sessions = spin_unlock_sessions (put_session (attach_client p arg (new_session p ?m cb))
           (N\<lparr>sl_lock := True, sl_work := Some p, sl_work_pending := True\<rparr>)), dr_files = (dr_files d)(fd \<mapsto> f\<lparr>fl_private := Some p\<rparr>)\<rparr>"
        by simp
      then show ?thesis
        using Some new lock p(1,2) cr at' n(2) by (simp add: defs same)
    qed
  qed
qed

text \<open>The removal of a session without clients.\<close>

lemma destroy_ok:
  assumes "driver_ok d" and "session_at (dr_sessions d) p = Some s" and "slab_ok sl"
    and "D = (dr_sessions d)\<lparr>sl_lock := True\<rparr>"
  shows "\<exists>D' r. scsitap_destroy_session sl p D = Inr (D', r) \<and> driver_ok (d\<lparr>dr_sessions := spin_unlock_sessions D'\<rparr>)"
proof (cases "ss_Device_Open s = 0")
  case False
  with assms driver_unlocked [OF assms(1)] show ?thesis
    by (cases d) (simp add: scsitap_destroy_session_def session_at_def spin_unlock_sessions_def)
next
  case True
  note sd = driver_okD [OF assms(1,2)]
  have inv: "queue_inv (s\<lparr>ss_queue_lock := True\<rparr>)" using session_okD(1) [OF sd(2)] by (simp add: queue_inv_def)
  obtain s2 where s2: "finish_each sl (map tk_addr (ss_queue s)) (s\<lparr>ss_queue_lock := True\<rparr>) = Inr s2"
    using finish_each_ok [OF inv assms(3)] by auto
  let ?Q = "filter (\<lambda>t. ss_addr t \<noteq> p) (sl_queue (dr_sessions d))"
  let ?D = "D\<lparr>sl_queue := ?Q, sl_last_id := sl_last_id D - 1, sl_removed := sl_removed D @ [spin_unlock_queue s2]\<rparr>"
  have run: "scsitap_destroy_session sl p D = Inr (?D, 0)"
    using assms(2,4) True s2 lock_unlock(1) [OF sd(2)] by (simp add: scsitap_destroy_session_def session_at_def)
  have "clients d p = {}"
    using sd(1,3) True finite_clients [OF assms(1), of p] by (simp add: session_inv_def)
  then have files: "fl_private f \<noteq> Some p" if "dr_files d fd = Some f" for fd f
    using that by (auto simp: clients_def)
  have "session_at (spin_unlock_sessions ?D) q \<noteq> None" if "session_at (dr_sessions d) q \<noteq> None" "q \<noteq> p" for q
    using that by (auto simp: session_at_None spin_unlock_sessions_def)
  then have "driver_ok (d\<lparr>dr_sessions := spin_unlock_sessions ?D\<rparr>)"
    using assms(1,4) files unfolding driver_ok_def
    by (simp add: spin_unlock_sessions_def distinct_map_filter session_inv_def) metis
  with run show ?thesis by auto
qed

lemma unregister_progress:
  assumes "driver_ok d" and "slab_ok sl"
  shows "\<exists>d'. driver_exec sl (Unregister fd) d = Inr d' \<and> driver_ok d'"
proof (cases "dr_files d fd")
  case None
  with assms show ?thesis by (simp add: ioctl_on_def)
next
  case (Some f)
  let ?D = "dr_sessions d" and ?L = "(dr_sessions d)\<lparr>sl_lock := True\<rparr>"
  have lock: "\<not> sl_lock ?D" using assms(1) by (simp add: driver_ok_def)
  have same: "scsitap_get_session ?L m = scsitap_get_session ?D m" for m
    by (simp add: scsitap_get_session_def)
  have files: "\<lparr>dr_sessions = X, dr_files = dr_files d\<rparr> = d\<lparr>dr_sessions := X\<rparr>" for X by (cases d) simp
  note defs = ioctl_on_def scsitap_ctl_ioctl_def ioctl_unregister_def spin_lock_sessions_def c_consts
  show ?thesis
  proof (cases "scsitap_get_session ?D (fl_minor f)")
    case None
    then show ?thesis
      using Some lock driver_unlocked [OF assms(1)] by (simp add: defs same spin_unlock_sessions_def fun_upd_idem)
  next
    case found: (Some s)
    then have "s \<in> set (sl_queue ?D)" by (auto simp: scsitap_get_session_def dest: find_SomeD)
    then have "session_at ?D (ss_addr s) = Some s" by (simp add: session_at_iff [OF assms(1)])
    from destroy_ok [OF assms(1) this assms(2) refl] obtain D' r
      where D': "scsitap_destroy_session sl (ss_addr s) ?L = Inr (D', r)" "driver_ok (d\<lparr>dr_sessions := spin_unlock_sessions D'\<rparr>)"
      by blast
    then show ?thesis
      using Some found lock by (cases "r = 0") (simp_all add: defs same fun_upd_idem files)
  qed
qed

text \<open>Reads, writes and claims through a registered file.\<close>

lemma file_progress:
  assumes "driver_ok d" and "slab_ok sl"
  shows "\<exists>d'. driver_exec sl (Read_ctl fd sig n ub) d = Inr d' \<and> driver_ok d'"
    and "\<exists>d'. driver_exec sl (Write_ctl fd n ub) d = Inr d' \<and> driver_ok d'"
    and "\<exists>d'. driver_exec sl (Receive_task fd arg) d = Inr d' \<and> driver_ok d'"
proof -
  have files: "\<lparr>dr_sessions = X, dr_files = dr_files d\<rparr> = d\<lparr>dr_sessions := X\<rparr>" "d\<lparr>dr_sessions := dr_sessions d\<rparr> = d" for X
    by (cases d, simp)+
  note defs = scsitap_ctl_read_def scsitap_ctl_write_def ioctl_on_def scsitap_ctl_ioctl_def with_sessions_def c_consts
  consider (closed) "dr_files d fd = None" | (bogus) f where "dr_files d fd = Some f" "fl_private f = None"
    | (client) f p where "dr_files d fd = Some f" "fl_private f = Some p"
    by (cases "dr_files d fd") auto
  note cases3 = this
  show "\<exists>d'. driver_exec sl (Read_ctl fd sig n ub) d = Inr d' \<and> driver_ok d'"
  proof (cases rule: cases3)
    case client
    obtain s where s: "session_at (dr_sessions d) p = Some s" "session_ok s"
      using client_ready [OF assms(1) client] by metis
    have self: "put_session s (dr_sessions d) = dr_sessions d"
    proof -
      have "distinct (map ss_addr (sl_queue (dr_sessions d)))" "s \<in> set (sl_queue (dr_sessions d))"
        using assms(1) driver_okD(4) [OF assms(1) s(1)] by (auto simp: driver_ok_def)
      from distinct_key_eq [OF this(1) _ this(2)] have "map (\<lambda>t. if ss_addr t = ss_addr s then s else t) (sl_queue (dr_sessions d)) = sl_queue (dr_sessions d)"
        by (intro map_idI) auto
      then show ?thesis by (simp add: put_session_def)
    qed
    show ?thesis
    proof (cases "ss_queue s = [] \<and> \<not> sig")
      case True
      with client s(1) assms(1) show ?thesis by (simp add: defs ctl_read_def)
    next
      case False
      then have "ss_queue s \<noteq> [] \<or> sig" by blast
      from read_bounds_fact [OF s(2) this, of "fl_pos f" n ub] client s(1) assms(1) self files(2) show ?thesis
        by (auto simp: defs)
    qed
  qed (use assms files in \<open>simp_all add: defs\<close>)
  show "\<exists>d'. driver_exec sl (Write_ctl fd n ub) d = Inr d' \<and> driver_ok d'"
  proof (cases rule: cases3)
    case client
    obtain s where s: "session_at (dr_sessions d) p = Some s" "session_ok s"
      using client_ready [OF assms(1) client] by metis
    obtain s' r where "ctl_write sl n ub s = Inr (s', r)" "session_ok s'"
      using write_total_fact [OF s(2) assms(2)] by blast
    from at_session_ok [where h = "ctl_write sl n ub", OF assms(1) s(1) this write_identity [OF this(1)]] client show ?thesis
      by (simp add: defs)
  qed (use assms files in \<open>simp_all add: defs\<close>)
  show "\<exists>d'. driver_exec sl (Receive_task fd arg) d = Inr d' \<and> driver_ok d'"
  proof (cases rule: cases3)
    case client
    obtain s where s: "session_at (dr_sessions d) p = Some s" "session_ok s" "ss_flags s = SCSITAP_CONNECTION_READY"
      using client_ready [OF assms(1) client] by metis
    obtain s' r where r: "ioctl_receive arg s = Inr (s', r)" "session_ok s'"
      using receive_safe [OF s(2,3)] by blast
    from at_session_ok [where h = "ioctl_receive arg", OF assms(1) s(1) r receive_identity [OF r(1)]]
    show ?thesis
      using client r(1) s(1) by (simp add: defs at_session_def fun_upd_idem files)
  qed (use assms in \<open>simp_all add: defs fun_upd_idem files\<close>)
qed

lemma open_progress:
  assumes "driver_ok d" and "dr_files d fd = None"
  shows "driver_ok (d\<lparr>dr_files := (dr_files d)(fd \<mapsto> scsitap_ctl_open m)\<rparr>)"
proof -
  have "clients (d\<lparr>dr_files := (dr_files d)(fd \<mapsto> scsitap_ctl_open m)\<rparr>) p = clients d p" for p
    using assms(2) by (auto simp: clients_def scsitap_ctl_open_def)
  with assms(1) show ?thesis
    by (auto simp: driver_ok_def session_inv_def scsitap_ctl_open_def)
qed

lemma set_task_progress:
  assumes "driver_ok d"
  shows "\<exists>d'. driver_exec sl (Set_task fd arg) d = Inr d' \<and> driver_ok d'"
proof (cases "dr_files d fd")
  case None
  with assms show ?thesis by (simp add: ioctl_on_def)
next
  case (Some f)
  let ?d = "\<lparr>dr_sessions = dr_sessions d, dr_files = (dr_files d)(fd \<mapsto> f\<lparr>fl_pos := arg\<rparr>)\<rparr>"
  have "clients ?d p = clients d p" for p
    using Some by (auto simp: clients_def)
  with assms Some have "driver_ok ?d"
    by (auto simp: driver_ok_def session_inv_def)
  with Some show ?thesis
    by (simp add: ioctl_on_def scsitap_ctl_ioctl_def c_consts)
qed

lemma driver_progress:
  assumes "driver_ok d" and "allowed d e" and "slab_ok sl"
  shows "\<exists>d'. driver_exec sl e d = Inr d' \<and> driver_ok d'"
proof (cases e)
  case (Open_ctl fd m)
  with assms open_progress [OF assms(1)] show ?thesis by simp
next
  case (Register fd arg host rc cb)
  with assms register_progress show ?thesis by blast
next
  case (Receive_task fd arg)
  with assms file_progress(3) show ?thesis by blast
next
  case (Set_task fd arg)
  with assms set_task_progress show ?thesis by blast
next
  case (Unregister fd)
  with assms unregister_progress show ?thesis by blast
next
  case (Read_ctl fd sig n ub)
  with assms file_progress(1) show ?thesis by blast
next
  case (Write_ctl fd n ub)
  with assms file_progress(2) show ?thesis by blast
next
  case (Close_ctl fd)
  with assms close_progress show ?thesis by blast
next
  case (Queue_command p sc c dn slot)
  then obtain s where s: "session_at (dr_sessions d) p = Some s" "sc \<notin> set (pending s)" "wf_cmnd c" "sc_SCp_ptr c = None"
      "\<And>a. slot = Some a \<Longrightarrow> a \<notin> tk_addr ` set (ss_queue s)"
    using assms(2) by auto
  let ?h = "\<lambda>s. scsitap_queuecommand slot sc dn (upd_cmnd sc (\<lambda>_. c) s)"
  obtain s' r where r: "?h s = Inr (s', r)" "session_ok s'"
    using queuecommand_safe [OF driver_okD(2) [OF assms(1) s(1)] s(2-4), of slot dn] s(5) by blast
  moreover have "same_identity s s'" using queuecommand_identity [OF r(1)] by simp
  ultimately show ?thesis
    using Queue_command at_session_ok [where h = ?h, OF assms(1) s(1)] by simp
next
  case (Abort_command p sc)
  then obtain s where s: "session_at (dr_sessions d) p = Some s" using assms(2) by auto
  obtain s' where r: "scsitap_eh_abort sl sc s = Inr (s', SUCCESS)" "session_ok s'"
    using eh_abort_safe [OF driver_okD(2) [OF assms(1) s] assms(3)] by blast
  with Abort_command at_session_ok [where h = "scsitap_eh_abort sl sc", OF assms(1) s r eh_abort_identity [OF r(1)]] show ?thesis by simp
next
  case (Reset_host p)
  then obtain s where s: "session_at (dr_sessions d) p = Some s" using assms(2) by auto
  obtain s' where r: "scsitap_eh_host_reset sl s = Inr (s', SUCCESS)" "session_ok s'"
    using host_reset_safe [OF driver_okD(2) [OF assms(1) s] assms(3)] by blast
  with Reset_host at_session_ok [where h = "scsitap_eh_host_reset sl", OF assms(1) s r host_reset_identity [OF r(1)]] show ?thesis by simp
next
  case Run_scan
  with assms(2) obtain p s where "sl_work (dr_sessions d) = Some p" "session_at (dr_sessions d) p = Some s" by auto
  with Run_scan assms(1) show ?thesis
    by (auto simp: scsitap_scan_hba_def driver_ok_def session_inv_def session_at_def clients_def)
qed

interpretation driver_machine: state_machine "driver_exec sl" allowed "\<lambda>d. slab_ok sl \<and> driver_ok d" for sl
  by unfold_locales (use driver_progress in blast)

lemma reachable_ok:
  assumes "driver_reachable sl d" and "slab_ok sl"
  shows "driver_ok d"
  using assms(1)
proof induction
  case init
  then show ?case by (rule driver_init_ok)
next
  case (next_step d e d')
  then show ?case
    using driver_machine.step_inv [of sl d e d'] assms(2) by (blast elim: driver_stepE)
qed

section \<open>Properties of the driver\<close>

text \<open>
  C11.  In every state the driver can reach, the session lock is free, every session's queue is in
  order with its lock free, \<open>Device_Open\<close> is the number of its registered open files, a session
  is ready exactly while that number is not 0, and no open file points at a session that is gone.
\<close>

theorem driver_invariant:
  assumes "driver_reachable sl d" and "slab_ok sl"
  shows "driver_ok d"
  using assms by (rule reachable_ok)

theorem driver_invariant_witness:
  "\<exists>d. driver_reachable (demo_slab (\<lambda>f. f)) d \<and> driver_ok d \<and> dr_files d 4 = Some (scsitap_ctl_open 2)"
proof -
  let ?d = "driver_init\<lparr>dr_files := (dr_files driver_init)(4 \<mapsto> scsitap_ctl_open 2)\<rparr>"
  have "driver_step (demo_slab (\<lambda>f. f)) driver_init (Open_ctl 4 2) ?d"
    by (rule driver_step.step) (simp_all add: driver_init_def)
  from driver_reachable.next_step [OF driver_reachable.init this]
  have r: "driver_reachable (demo_slab (\<lambda>f. f)) ?d" .
  show ?thesis using r driver_invariant [OF r demo_slab_ok] by (intro exI [of _ ?d]) simp
qed

text \<open>
  C12.  No handler of the driver faults or waits for a lock for ever: whatever target processes and
  the mid layer do, in any order, each call in a reachable state returns, provided what
  \<open>allowed\<close> states of the surroundings and an allocator that leaves freed objects alone.
\<close>

theorem driver_never_faults:
  assumes "driver_reachable sl d" and "slab_ok sl" and "allowed d e"
  shows "\<exists>d'. driver_exec sl e d = Inr d' \<and> driver_reachable sl d'"
  using driver_progress [OF reachable_ok [OF assms(1,2)] assms(3,2)] assms(1,3)
  by (auto intro: driver_reachable.next_step driver_step.step)

theorem driver_never_faults_witness:
  "\<exists>d'. driver_exec (demo_slab (\<lambda>f. f)) (Open_ctl 4 2) driver_init = Inr d' \<and> driver_reachable (demo_slab (\<lambda>f. f)) d'"
  using driver_never_faults [OF driver_reachable.init demo_slab_ok, of "Open_ctl 4 2"]
  by (simp add: driver_init_def)

text \<open>
  C18.  Removing a session that no target has open finishes every command it still holds: each one's
  callback is called once, in order, with the result \<open>DID_NO_CONNECT << 16\<close> and nothing
  transferred, and the session leaves the list.
\<close>

theorem destroy_finishes_pending:
  assumes "session_at D p = Some s" and "session_ok s" and "ss_Device_Open s = 0" and "slab_ok sl"
  shows "\<exists>D' s'. scsitap_destroy_session sl p D = Inr (D', 0) \<and> session_at D' p = None
    \<and> sl_removed D' = sl_removed D @ [s'] \<and> ss_queue s' = [] \<and> \<not> ss_queue_lock s'
    \<and> map snd (ss_done s') = map snd (ss_done s) @ pending s
    \<and> (\<forall>c\<in>set (pending s). sc_result (ss_cmnds s' c) = 0x10000 \<and> sc_resid (ss_cmnds s' c) = sc_request_bufflen (ss_cmnds s c))"
proof -
  have inv: "queue_inv (s\<lparr>ss_queue_lock := True\<rparr>)" using session_okD(1) [OF assms(2)] by (simp add: queue_inv_def)
  obtain s2 where "finish_each sl (map tk_addr (ss_queue s)) (s\<lparr>ss_queue_lock := True\<rparr>) = Inr s2" "ss_queue s2 = []"
      "map snd (ss_done s2) = map snd (ss_done s) @ pending s"
      "\<forall>c\<in>set (pending s). ss_cmnds s2 c = (not_connected (ss_cmnds s c))\<lparr>sc_SCp_ptr := None\<rparr>"
    using finish_each_ok [OF inv assms(4)] by auto
  with assms(1,3) lock_unlock(1) [OF assms(2)] show ?thesis
    by (auto simp: scsitap_destroy_session_def spin_unlock_queue_def session_at_None)
qed

theorem destroy_finishes_pending_witness:
  "\<exists>D' s'. scsitap_destroy_session (demo_slab (\<lambda>f. f)) 1
       (no_sessions\<lparr>sl_queue := [(demo_session 0 (Some SCSITAP_TASK_SUBMITTED))\<lparr>ss_Device_Open := 0\<rparr>]\<rparr>) = Inr (D', 0)
     \<and> sl_removed D' = [s'] \<and> map snd (ss_done s') = [5] \<and> sc_result (ss_cmnds s' 5) = 0x10000"
proof -
  let ?s = "(demo_session 0 (Some SCSITAP_TASK_SUBMITTED))\<lparr>ss_Device_Open := 0\<rparr>"
  have ok: "session_ok ?s"
    using demo_session_ok(1) [of 0] by (simp add: session_ok_def session_idle_def queue_inv_def)
  have at: "session_at (no_sessions\<lparr>sl_queue := [?s]\<rparr>) 1 = Some ?s"
    by (simp add: session_at_def demo_session_def)
  have op: "ss_Device_Open ?s = 0" by simp
  show ?thesis
    using destroy_finishes_pending [OF at ok op demo_slab_ok] by (auto simp: no_sessions_def)
qed

text \<open>What opening, registering, closing and scanning consist of, to run them on a given state.\<close>

lemmas registration_defs = driver_init_def no_sessions_def scsitap_ctl_open_def ioctl_on_def scsitap_ctl_ioctl_def ioctl_register_def
  spin_lock_sessions_def scsitap_get_session_def scsitap_create_session_def new_session_def session_at_def Let_def
  put_session_def spin_unlock_sessions_def attach_client_def with_sessions_def scsitap_ctl_release_def at_session_def
  detach_client_def ioctl_unregister_def scsitap_destroy_session_def lock_defs scsitap_scan_hba_def c_consts

text \<open>
  There is one work item for all sessions.  A second target that registers on another minor before
  the work queue runs puts its session into it: the first host is never scanned.
\<close>

lemma first_scan_is_lost:
  assumes "m1 \<noteq> m2" and "p \<noteq> q"
  shows "\<exists>d. run_events (driver_exec sl)
      [Open_ctl 0 m1, Register 0 pid (Some p) 0 cb, Open_ctl 1 m2, Register 1 pid' (Some q) 0 cb', Run_scan] driver_init = Inr d
    \<and> sl_scans (dr_sessions d) = [q] \<and> \<not> sl_work_pending (dr_sessions d)
    \<and> (\<exists>s. session_at (dr_sessions d) p = Some s \<and> ss_flags s = SCSITAP_CONNECTION_READY)"
  using assms by (simp add: registration_defs)

text \<open>
  The scan that registration schedules is not cancelled when the session goes.  A target that
  registers and exits, followed by the removal of the session before the work queue runs, leaves the
  scan with a pointer to freed memory.
\<close>

lemma scan_after_removal:
  "run_events (driver_exec sl)
     [Open_ctl 0 m, Register 0 pid (Some p) 0 cb, Close_ctl 0, Open_ctl 1 m, Unregister 1, Run_scan] driver_init
   = Inl Use_after_free"
  by (simp add: registration_defs)

text \<open>
  Registering twice through one open file counts two clients, and closing it takes away one:
  the session stays ready with nobody to serve it, and can no longer be removed.
\<close>

lemma register_twice_leaks:
  "\<exists>d s. run_events (driver_exec sl)
     [Open_ctl 0 m, Register 0 pid (Some p) 0 cb, Register 0 pid None 0 cb, Close_ctl 0, Open_ctl 1 m, Unregister 1] driver_init
       = Inr d \<and> session_at (dr_sessions d) p = Some s \<and> ss_flags s = SCSITAP_CONNECTION_READY
     \<and> ss_Device_Open s = 1 \<and> clients d p = {}"
  by (simp add: registration_defs clients_def)

text \<open>
  \<open>Device_Open\<close> is an \<open>unsigned char\<close>.  The 256th target to register on a minor
  turns it to 0: the session can then be removed under its targets, whose next read follows a
  dangling pointer.
\<close>

lemma device_open_wraps:
  assumes "driver_ok d" and "slab_ok sl" and "dr_files d fd = Some f"
    and "scsitap_get_session (dr_sessions d) (fl_minor f) = Some s" and "ss_Device_Open s = -1"
  shows "run_events (driver_exec sl) [Register fd pid host rc cb, Unregister fd, Read_ctl fd sig n ub] d = Inl Use_after_free"
proof -
  let ?D = "dr_sessions d" and ?s = "attach_client (ss_addr s) pid s" and ?f = "f\<lparr>fl_private := Some (ss_addr s)\<rparr>"
  have lock: "\<not> sl_lock ?D" using assms(1) by (simp add: driver_ok_def)
  have mem: "s \<in> set (sl_queue ?D)" using assms(4) by (auto simp: scsitap_get_session_def dest: find_SomeD)
  then have at: "session_at ?D (ss_addr s) = Some s" by (simp add: session_at_iff [OF assms(1)])
  note sd = driver_okD [OF assms(1) at]
  have flags: "ss_flags s = SCSITAP_CONNECTION_READY" using sd(1) assms(5) by (simp add: session_inv_def)
  let ?P = "put_session ?s ?D"
  have reg: "driver_exec sl (Register fd pid host rc cb) d = Inr \<lparr>dr_sessions = ?P, dr_files = (dr_files d)(fd \<mapsto> ?f)\<rparr>"
    using assms(3,4) lock at flags
    by (simp add: ioctl_on_def scsitap_ctl_ioctl_def ioctl_register_def spin_lock_sessions_def scsitap_get_session_def
        session_at_def spin_unlock_sessions_def put_session_def Let_def c_consts)
  have s0: "ss_Device_Open ?s = 0" "ss_addr ?s = ss_addr s" "ss_dev_id ?s = ss_dev_id s" using assms(5) by (simp_all add: attach_client_def)
  have dist: "distinct (map ss_addr (sl_queue ?P))" "distinct (map ss_dev_id (sl_queue ?P))"
    using assms(1) put_session_devs [of ?D s ?s] mem s0 by (auto simp: driver_ok_def simp del: map_eq_conv)
  have memP: "?s \<in> set (sl_queue ?P)" using mem s0 by (force simp: put_session_def)
  have m: "fl_minor f = ss_dev_id ?s" using assms(4) s0 by (auto simp: scsitap_get_session_def dest: find_SomeD)
  have atP: "session_at (?P\<lparr>sl_lock := True\<rparr>) (ss_addr s) = Some ?s" "scsitap_get_session (?P\<lparr>sl_lock := True\<rparr>) (fl_minor f) = Some ?s"
    using find_key [OF dist(1) memP] find_key [OF dist(2) memP] s0 m by (simp_all add: session_at_def scsitap_get_session_def)
  have inv: "queue_inv (?s\<lparr>ss_queue_lock := True\<rparr>)"
    using session_okD(1) [OF attach_ok [OF sd(2)]] by (simp add: queue_inv_def)
  obtain s2 where s2: "finish_each sl (map tk_addr (ss_queue ?s)) (?s\<lparr>ss_queue_lock := True\<rparr>) = Inr s2"
    using finish_each_ok [OF inv assms(2)] by auto
  have "\<exists>D2. driver_exec sl (Unregister fd) \<lparr>dr_sessions = ?P, dr_files = (dr_files d)(fd \<mapsto> ?f)\<rparr>
      = Inr \<lparr>dr_sessions = D2, dr_files = (dr_files d)(fd \<mapsto> ?f)\<rparr> \<and> session_at D2 (ss_addr s) = None"
    using atP s2 s0 lock lock_unlock(1) [OF attach_ok [OF sd(2)]]
    by (simp add: ioctl_on_def scsitap_ctl_ioctl_def ioctl_unregister_def spin_lock_sessions_def scsitap_destroy_session_def
        spin_unlock_sessions_def session_at_None c_consts) auto
  then show ?thesis
    using reg by (auto simp: scsitap_ctl_read_def)
qed

text \<open>A driver with 255 clients on minor 0, and file 255 about to register.\<close>

definition demo_crowd :: driver where
  "demo_crowd = \<lparr>dr_sessions = no_sessions\<lparr>sl_queue := [(demo_session 1 None)\<lparr>ss_Device_Open := -1\<rparr>]\<rparr>,
     dr_files = (\<lambda>fd. if fd < 256 then Some \<lparr>fl_minor = 0, fl_private = (if fd < 255 then Some 1 else None), fl_pos = 0\<rparr> else None)\<rparr>"

definition demo_full :: scsitap_session where
  "demo_full = (demo_session 1 None)\<lparr>ss_Device_Open := -1\<rparr>"

lemma demo_crowd_sel:
  "sl_queue (dr_sessions demo_crowd) = [demo_full]" "\<not> sl_lock (dr_sessions demo_crowd)"
  "dr_files demo_crowd fd = (if fd < 256 then Some \<lparr>fl_minor = 0, fl_private = (if fd < 255 then Some 1 else None), fl_pos = 0\<rparr> else None)"
  "ss_addr demo_full = 1" "ss_dev_id demo_full = 0" "ss_flags demo_full = 1" "ss_Device_Open demo_full = -1"
  by (simp_all add: demo_crowd_def demo_full_def demo_session_def no_sessions_def)

lemma demo_crowd_ok: "driver_ok demo_crowd"
proof -
  have ok: "session_ok demo_full"
    unfolding demo_full_def using demo_session_ok(3) [of 1] by (simp add: session_ok_def session_idle_def queue_inv_def)
  have cl: "clients demo_crowd 1 = {..<255}"
    unfolding clients_def demo_crowd_sel by force
  have fin: "finite (dom (dr_files demo_crowd))"
    by (rule finite_subset [of _ "{..<256}"]) (auto simp: demo_crowd_sel split: if_splits)
  have inv: "session_inv demo_crowd demo_full"
    using ok cl by (simp add: session_inv_def demo_crowd_sel SCSITAP_CONNECTION_READY_def unsigned_minus_1_eq_mask mask_eq_exp_minus_1)
  have "session_at (dr_sessions demo_crowd) 1 \<noteq> None"
    by (simp add: session_at_def demo_crowd_sel)
  moreover have "p = 1" if "dr_files demo_crowd fd = Some f" "fl_private f = Some p" for fd f p
    using that by (auto simp: demo_crowd_sel split: if_splits)
  ultimately have "\<forall>fd f p. dr_files demo_crowd fd = Some f \<longrightarrow> fl_private f = Some p \<longrightarrow> session_at (dr_sessions demo_crowd) p \<noteq> None"
    by blast
  with fin inv show ?thesis
    unfolding driver_ok_def by (simp add: demo_crowd_sel(1,2))
qed

lemma device_open_wraps_witness:
  "run_events (driver_exec (demo_slab (\<lambda>f. f))) [Register 255 9 None 0 no_cmnds, Unregister 255, Read_ctl 255 False 31 []] demo_crowd
     = Inl Use_after_free"
proof -
  have f: "dr_files demo_crowd 255 = Some \<lparr>fl_minor = 0, fl_private = None, fl_pos = 0\<rparr>" by (simp add: demo_crowd_sel)
  have g: "scsitap_get_session (dr_sessions demo_crowd) (fl_minor \<lparr>fl_minor = 0, fl_private = None, fl_pos = 0\<rparr>) = Some demo_full"
    by (simp add: scsitap_get_session_def demo_crowd_sel)
  show ?thesis by (rule device_open_wraps [OF demo_crowd_ok demo_slab_ok f g demo_crowd_sel(7)])
qed

text \<open>
  Unloading the module destroys the slab cache before the tasks in it are freed: a command
  that is still queued when the last target has gone makes the cleanup touch the dead cache.
\<close>

lemma cleanup_with_pending:
  assumes "\<not> sl_lock D" and "sl_queue D = s # rest" and "session_ok s" and "ss_Device_Open s = 0" and "ss_queue s \<noteq> []"
  shows "scsitap_cleanup sl D = Inl Use_after_free"
proof -
  obtain t q where q: "ss_queue s = t # q" using assms(5) by (cases "ss_queue s") auto
  have "session_at (D\<lparr>sl_lock := True\<rparr>) (ss_addr s) = Some s" using assms(2) by (simp add: session_at_def)
  with assms q lock_unlock(1) [OF assms(3)] show ?thesis
    by (simp add: scsitap_cleanup_def spin_lock_sessions_def scsitap_destroy_session_def scsitap_complete_task_def Let_def)
qed

lemma cleanup_with_pending_witness:
  "scsitap_cleanup (demo_slab (\<lambda>f. f))
     (no_sessions\<lparr>sl_queue := [(demo_session 0 (Some SCSITAP_TASK_SUBMITTED))\<lparr>ss_Device_Open := 0\<rparr>]\<rparr>) = Inl Use_after_free"
proof (rule cleanup_with_pending)
  show "session_ok ((demo_session 0 (Some SCSITAP_TASK_SUBMITTED))\<lparr>ss_Device_Open := 0\<rparr>)"
    using demo_session_ok(1) [of 0] by (simp add: session_ok_def session_idle_def queue_inv_def)
qed (simp_all add: no_sessions_def)

end
