(* ===== verification/Api.thy ===== *)
theory Api
  imports Driver
begin

text \<open>
  The user-space side of the protocol, \<open>user/vscsiapi.c\<close>: the task as a target process sees it,
  and the four calls a target makes.  They are modelled on top of the driver's file operations, so
  the theorems of this theory are about both sides at once.
\<close>

section \<open>The task\<close>

definition BUFFER_SIZE :: nat where
  [c_consts]: "BUFFER_SIZE = 135168"

text \<open>
  \<open>struct user_scsitap_task\<close>.  \<open>request_bufflen\<close> and \<open>status\<close> are \<open>int\<close>s; the
  descriptor \<open>session\<close> is the open file, which the model passes along.
\<close>

record user_scsitap_task =
  ut_cmd_number :: u32
  ut_type :: u8
  ut_direction :: u8
  ut_lun :: u32
  ut_cdblen :: u8
  ut_cdb :: bytes
  ut_request_bufflen :: u32
  ut_request_buffer :: bytes
  ut_status :: int

text \<open>
  \<open>memcpy\<close> of \<open>cdblen\<close> bytes into \<open>cdb[16]\<close>; the copied source starts at offset 11 of
  the 32-byte buffer.
\<close>

definition task_buffer_to_task :: "bytes \<Rightarrow> user_scsitap_task \<Rightarrow> user_scsitap_task res" where
  "task_buffer_to_task tb t =
     (let n = unat (tb ! 10)
      in and_then (load 11 n tb) (\<lambda>src.
         and_then (store 0 src (ut_cdb t)) (\<lambda>cdb.
           Inr (t\<lparr>ut_type := tb ! 0, ut_direction := tb ! 1, ut_cmd_number := le32 (segment 2 4 tb),
                  ut_lun := le32 (segment 6 4 tb), ut_cdblen := tb ! 10, ut_cdb := cdb,
                  ut_request_bufflen := le32 (segment 27 4 tb)\<rparr>))))"

text \<open>
  The calls of the library, with what they change: the driver's sessions, the open file and the
  task.  \<open>None\<close> is a call that sleeps in \<open>read\<close>.
\<close>

record client =
  cl_sessions :: scsitap_sessions
  cl_file :: ctl_file
  cl_task :: user_scsitap_task

definition client_ioctl ::
  "slab \<Rightarrow> nat option \<Rightarrow> int \<Rightarrow> (nat \<Rightarrow> scsi_cmnd) \<Rightarrow> u32 \<Rightarrow> u64 \<Rightarrow> client \<Rightarrow> (client \<times> int) res" where
  "client_ioctl sl host rc cb cmd arg k =
     and_then (scsitap_ctl_ioctl sl host rc cb (cl_file k) cmd arg (cl_sessions k)) (\<lambda>(D, f, r).
       Inr (k\<lparr>cl_sessions := D, cl_file := f\<rparr>, r))"

definition client_read :: "bool \<Rightarrow> int \<Rightarrow> bytes \<Rightarrow> client \<Rightarrow> (client \<times> bytes \<times> int) option res" where
  "client_read sig n ub k =
     (if n < 0 then Inr (Some (k, ub, - EINVAL))
      else and_then (scsitap_ctl_read sig (cl_file k) (nat n) ub (cl_sessions k)) (\<lambda>r. case r of
             None \<Rightarrow> Inr None
           | Some (D, ub', ret) \<Rightarrow> Inr (Some (k\<lparr>cl_sessions := D\<rparr>, ub', ret))))"

definition client_write :: "slab \<Rightarrow> int \<Rightarrow> bytes \<Rightarrow> client \<Rightarrow> (client \<times> int) res" where
  "client_write sl n ub k =
     (if n < 0 then Inr (k, - EINVAL)
      else and_then (scsitap_ctl_write sl (cl_file k) (nat n) ub (cl_sessions k)) (\<lambda>(D, ret).
             Inr (k\<lparr>cl_sessions := D\<rparr>, ret)))"

text \<open>
  \<open>register_scsi_host\<close>: \<open>minor\<close> is the device node's minor, or \<open>None\<close> when \<open>open\<close>
  fails, \<open>mem\<close> what \<open>malloc\<close> returns.  The result of the ioctl is not looked at.
\<close>

definition register_scsi_host ::
  "slab \<Rightarrow> nat option \<Rightarrow> int \<Rightarrow> (nat \<Rightarrow> scsi_cmnd) \<Rightarrow> u64 \<Rightarrow> u32 option \<Rightarrow> bool
     \<Rightarrow> user_scsitap_task \<Rightarrow> scsitap_sessions \<Rightarrow> client option res" where
  "register_scsi_host sl host rc cb pid minor mem tsk D = (case minor of
       None \<Rightarrow> Inr None
     | Some m \<Rightarrow>
         and_then (client_ioctl sl host rc cb SCSITAP_IOCTL_REGISTER_CLIENT pid
             \<lparr>cl_sessions = D, cl_file = scsitap_ctl_open m, cl_task = tsk\<rparr>) (\<lambda>(k, r).
           if \<not> mem then Inl Null_deref
           else Inr (Some (k\<lparr>cl_task := tsk\<lparr>ut_request_buffer := replicate BUFFER_SIZE 0, ut_status := 0\<rparr>\<rparr>))))"

text \<open>The header is read into \<open>char task_buffer[32]\<close>; all of it that is used has been written.\<close>

definition get_scsi_task :: "slab \<Rightarrow> bool \<Rightarrow> client \<Rightarrow> (client \<times> int) option res" where
  "get_scsi_task sl sig k =
     and_then (client_read sig (int SCSITAP_UHEADER_SIZE) (replicate 32 0) k) (\<lambda>r. case r of
         None \<Rightarrow> Inr None
       | Some (k1, tb, x) \<Rightarrow>
           if x \<noteq> int SCSITAP_UHEADER_SIZE then Inr (Some (k1, if x = 0 then 1 else - 1))
           else and_then (task_buffer_to_task tb (cl_task k1)) (\<lambda>t.
             and_then (client_ioctl sl None 0 no_cmnds SCSITAP_IOCTL_RECEIVE_TASK (ucast (ut_cmd_number t)) (k1\<lparr>cl_task := t\<rparr>)) (\<lambda>(k2, y).
               Inr (Some (k2, if y < 0 then - 1 else 0)))))"

definition complete_scsi_task :: "slab \<Rightarrow> client \<Rightarrow> (client \<times> int) res" where
  "complete_scsi_task sl k =
     (let t = cl_task k
      in and_then (store 0 (answer (ut_cmd_number t) (of_int (ut_status t)) []) (ut_request_buffer t)) (\<lambda>b.
         and_then (c_int (sint (ut_request_bufflen t) + 6)) (\<lambda>n.
         and_then (client_write sl n b (k\<lparr>cl_task := t\<lparr>ut_request_buffer := b\<rparr>\<rparr>)) (\<lambda>(k', r).
           Inr (k', if r \<noteq> n then - 1 else 0)))))"

definition receive_scsi_data :: "slab \<Rightarrow> bool \<Rightarrow> client \<Rightarrow> (client \<times> int) option res" where
  "receive_scsi_data sl sig k =
     (let t = cl_task k
      in if ut_direction t \<noteq> chr_O then Inr (Some (k, 1))
         else and_then (client_ioctl sl None 0 no_cmnds SCSITAP_IOCTL_SET_TASK (ucast (ut_cmd_number t)) k) (\<lambda>(k1, r).
           and_then (c_int (sint (ut_request_bufflen t) + 31)) (\<lambda>n.
           and_then (client_read sig n (ut_request_buffer t) k1) (\<lambda>r. case r of
               None \<Rightarrow> Inr None
             | Some (k2, b, x) \<Rightarrow>
                 Inr (Some (k2\<lparr>cl_task := t\<lparr>ut_request_buffer := b\<rparr>\<rparr>, if x \<noteq> int SCSITAP_UHEADER_SIZE then - 1 else 0))))))"

section \<open>The header, from the kernel to the task\<close>

lemma header_bytes:
  fixes c :: scsi_cmnd
  assumes "length (sc_cmnd c) = MAX_COMMAND_SIZE" and "h = task_header c t ty @ rest"
  shows "h ! 0 = ty" and "h ! 1 = (if sc_data_direction c = DMA_TO_DEVICE then chr_O else chr_I)"
    and "h ! 10 = sc_cmd_len c" and "segment 2 4 h = le32_bytes (tk_cmd_number t)"
    and "segment 6 4 h = le32_bytes (tk_lun t)" and "segment 27 4 h = le32_bytes (sc_request_bufflen c)"
    and "n \<le> 16 \<Longrightarrow> segment 11 n h = take n (sc_cmnd c)" and "31 \<le> length h"
proof -
  have l: "length (sc_cmnd c) = 16" using assms(1) by (simp add: MAX_COMMAND_SIZE_def)
  show "h ! 0 = ty" "h ! 1 = (if sc_data_direction c = DMA_TO_DEVICE then chr_O else chr_I)" "h ! 10 = sc_cmd_len c"
    using l assms(2) by (simp_all add: task_header_def nth_append le32_bytes_def)
  show "segment 2 4 h = le32_bytes (tk_cmd_number t)" "segment 6 4 h = le32_bytes (tk_lun t)"
    "segment 27 4 h = le32_bytes (sc_request_bufflen c)"
    using l assms(2) by (simp_all add: task_header_def segment_def numeral_eq_Suc le32_bytes_def)
  show "segment 11 n h = take n (sc_cmnd c)" if "n \<le> 16"
    using l that assms(2) by (simp add: task_header_def segment_def numeral_eq_Suc le32_bytes_def)
  show "31 \<le> length h" using l assms(2) by (simp add: task_header_def)
qed

lemma task_of_header:
  assumes "length (sc_cmnd c) = MAX_COMMAND_SIZE" and "unat (sc_cmd_len c) \<le> 16" and "length (ut_cdb u) = 16"
  shows "task_buffer_to_task (task_header c t ty @ rest) u = Inr (u\<lparr>ut_type := ty,
      ut_direction := (if sc_data_direction c = DMA_TO_DEVICE then chr_O else chr_I),
      ut_cmd_number := tk_cmd_number t, ut_lun := tk_lun t, ut_cdblen := sc_cmd_len c,
      ut_cdb := patch 0 (take (unat (sc_cmd_len c)) (sc_cmnd c)) (ut_cdb u), ut_request_bufflen := sc_request_bufflen c\<rparr>)"
proof -
  note h = header_bytes [OF assms(1) refl, where t = t and ty = ty and rest = rest]
  have len: "length (sc_cmnd c) = 16" using assms(1) by (simp add: MAX_COMMAND_SIZE_def)
  have ld: "load 11 (unat (sc_cmd_len c)) (task_header c t ty @ rest) = Inr (take (unat (sc_cmd_len c)) (sc_cmnd c))"
    using h(7,8) assms(2) len by (simp add: load_def task_header_def)
  show ?thesis
    using h ld assms(2,3) len by (simp add: task_buffer_to_task_def store_def le32_le32_bytes Let_def)
qed


definition demo_user :: "bytes \<Rightarrow> user_scsitap_task" where
  "demo_user buf = \<lparr>ut_cmd_number = 0, ut_type = 0, ut_direction = 0, ut_lun = 0, ut_cdblen = 0,
     ut_cdb = replicate 16 0, ut_request_bufflen = 0, ut_request_buffer = buf, ut_status = 0\<rparr>"


section \<open>A target at work\<close>

text \<open>A client that is registered with the session \<open>s\<close> at \<open>p\<close>.\<close>

definition serving :: "client \<Rightarrow> nat \<Rightarrow> scsitap_session \<Rightarrow> bool" where
  "serving k p s \<longleftrightarrow> fl_private (cl_file k) = Some p \<and> session_at (cl_sessions k) p = Some s
     \<and> session_ok s \<and> ss_flags s = SCSITAP_CONNECTION_READY"

lemma session_at_put:
  assumes "session_at D p = Some s" and "ss_addr s' = p"
  shows "session_at (put_session s' D) p = Some s'"
proof -
  have "find (\<lambda>t. ss_addr t = p) (map (\<lambda>t. if ss_addr t = p then s' else t) q) = Some s'"
    if "find (\<lambda>t. ss_addr t = p) q = Some s" for q
    using that assms(2) by (induction q) (auto split: if_splits)
  with assms show ?thesis by (simp add: session_at_def put_session_def)
qed

lemma session_at_addr: "session_at D p = Some s \<Longrightarrow> ss_addr s = p"
  by (auto simp: session_at_def dest: find_SomeD)

lemma put_session_self:
  assumes "session_at D p = Some s"
  shows "session_at (put_session s D) p = Some s"
  using session_at_put [OF assms] session_at_addr [OF assms] by simp

text \<open>
  A call of the library that ends in a handler of the session: the client goes on serving the
  session the handler leaves.
\<close>

lemma serving_put:
  assumes "serving k p s" and "session_ok s'" and "same_identity s s'"
  shows "serving (k\<lparr>cl_sessions := put_session s' (cl_sessions k)\<rparr>) p s'"
proof -
  have "ss_addr s' = p" using assms(1,3) session_at_addr by (auto simp: serving_def same_identity_def)
  then show ?thesis
    using assms session_at_put by (auto simp: serving_def same_identity_def)
qed

lemma client_read_serving:
  assumes "serving k p s" and "0 \<le> n" and "ctl_read sig (fl_pos (cl_file k)) (nat n) ub s = Inr (Some (s, ub', r))"
  shows "client_read sig n ub k = Inr (Some (k\<lparr>cl_sessions := put_session s (cl_sessions k)\<rparr>, ub', r))"
  using assms by (simp add: client_read_def scsitap_ctl_read_def serving_def)

lemma client_write_serving:
  assumes "serving k p s" and "0 \<le> n" and "ctl_write sl (nat n) ub s = Inr (s', r)"
  shows "client_write sl n ub k = Inr (k\<lparr>cl_sessions := put_session s' (cl_sessions k)\<rparr>, r)"
  using assms by (simp add: client_write_def scsitap_ctl_write_def serving_def at_session_def)

text \<open>
  \<open>get_scsi_task\<close> is two system calls, and whatever else goes on in the driver can come between
  them: the \<open>read\<close> of a header and the ioctl that claims the task.
\<close>

definition read_header :: "bool \<Rightarrow> client \<Rightarrow> (client \<times> int) option res" where
  "read_header sig k =
     and_then (client_read sig (int SCSITAP_UHEADER_SIZE) (replicate 32 0) k) (\<lambda>r. case r of
         None \<Rightarrow> Inr None
       | Some (k1, tb, x) \<Rightarrow>
           if x \<noteq> int SCSITAP_UHEADER_SIZE then Inr (Some (k1, if x = 0 then 1 else - 1))
           else and_then (task_buffer_to_task tb (cl_task k1)) (\<lambda>t. Inr (Some (k1\<lparr>cl_task := t\<rparr>, 0))))"

definition claim_task :: "slab \<Rightarrow> client \<Rightarrow> (client \<times> int) res" where
  "claim_task sl k =
     and_then (client_ioctl sl None 0 no_cmnds SCSITAP_IOCTL_RECEIVE_TASK (ucast (ut_cmd_number (cl_task k))) k) (\<lambda>(k', y).
       Inr (k', if y < 0 then - 1 else 0))"

lemma get_as_calls:
  "get_scsi_task sl sig k = and_then (read_header sig k) (\<lambda>r. case r of
       None \<Rightarrow> Inr None
     | Some (k1, x) \<Rightarrow> if x \<noteq> 0 then Inr (Some (k1, x)) else and_then (claim_task sl k1) (\<lambda>r. Inr (Some r)))"
  unfolding get_scsi_task_def read_header_def claim_task_def and_then_assoc
  by (cases "client_read sig (int SCSITAP_UHEADER_SIZE) (replicate 32 0) k")
    (auto simp: and_then_assoc split_def split: option.split)

lemma read_header_ok:
  assumes "serving k p s" and "ss_queue s = earlier @ t # later" and "tk_flags t = SCSITAP_TASK_SUBMITTED"
    and "\<forall>u\<in>set earlier. tk_flags u = SCSITAP_TASK_RECEIVED" and "c = ss_cmnds s (tk_sc t)"
    and "unat (sc_cmd_len c) \<le> 16" and "length (ut_cdb (cl_task k)) = 16"
  shows "\<exists>k'. read_header sig k = Inr (Some (k', 0)) \<and> serving k' p s
    \<and> cl_file k' = cl_file k \<and> cl_task k' = (cl_task k)\<lparr>ut_type := tk_type t,
      ut_direction := (if sc_data_direction c = DMA_TO_DEVICE then chr_O else chr_I),
      ut_cmd_number := tk_cmd_number t, ut_lun := tk_lun t, ut_cdblen := sc_cmd_len c,
      ut_cdb := patch 0 (take (unat (sc_cmd_len c)) (sc_cmnd c)) (ut_cdb (cl_task k)), ut_request_bufflen := sc_request_bufflen c\<rparr>"
proof -
  have ok: "session_ok s" and ready: "ss_flags s = SCSITAP_CONNECTION_READY" and at: "session_at (cl_sessions k) p = Some s"
    using assms(1) by (auto simp: serving_def)
  have len: "length (sc_cmnd c) = MAX_COMMAND_SIZE"
    using session_okD(6) [OF ok, of t] assms(2,5) by (simp add: wf_cmnd_def)
  obtain h where h: "patch 0 (task_header c t (tk_type t)) (replicate 32 0) = task_header c t (tk_type t) @ h"
    using length_task_header [OF len] by (simp add: patch_def)
  have "ctl_read sig (fl_pos (cl_file k)) 31 (replicate 32 0) s = Inr (Some (s, task_header c t (tk_type t) @ h, 31))"
    using read_oldest_unclaimed_fact [OF ok ready _ assms(2-4), of "replicate 32 0"] assms(5) h by simp
  from client_read_serving [OF assms(1), of 31, simplified, OF this]
  have rd: "client_read sig 31 (replicate 32 0) k
      = Inr (Some (k\<lparr>cl_sessions := put_session s (cl_sessions k)\<rparr>, task_header c t (tk_type t) @ h, 31))" .
  note tsk = task_of_header [OF len assms(6,7), of t "tk_type t" h]
  have "serving (k\<lparr>cl_sessions := put_session s (cl_sessions k), cl_task := u\<rparr>) p s" for u
    using assms(1) put_session_self [OF at] by (simp add: serving_def)
  then show ?thesis using rd tsk by (simp add: read_header_def SCSITAP_UHEADER_SIZE_def)
qed

lemma claim_ok:
  assumes "serving k p s" and "task_of_cmd s (ut_cmd_number (cl_task k)) = Some t"
  shows "\<exists>k'. claim_task sl k = Inr (k', 0) \<and> serving k' p (set_task_flags (tk_addr t) SCSITAP_TASK_RECEIVED s)
    \<and> cl_file k' = cl_file k \<and> cl_task k' = cl_task k"
proof -
  let ?s = "set_task_flags (tk_addr t) SCSITAP_TASK_RECEIVED s"
  have ok: "session_ok s" and ready: "ss_flags s = SCSITAP_CONNECTION_READY" using assms(1) by (auto simp: serving_def)
  have rcv: "ioctl_receive (ucast (ut_cmd_number (cl_task k))) s = Inr (?s, SUCCESS)"
    by (rule receive_found [OF ok ready assms(2)])
  have sid: "same_identity s ?s" by simp
  have "serving (k\<lparr>cl_sessions := put_session ?s (cl_sessions k)\<rparr>) p ?s"
    by (rule serving_put [OF assms(1) set_flags_ok [OF ok] sid]) simp
  with assms(1) rcv show ?thesis
    by (simp add: claim_task_def client_ioctl_def scsitap_ctl_ioctl_def at_session_def serving_def c_consts)
qed

lemma receive_data_ok:
  assumes "serving k p s" and "task_of_cmd s (ut_cmd_number (cl_task k)) = Some t" and "tk_flags t = SCSITAP_TASK_RECEIVED"
    and "c = ss_cmnds s (tk_sc t)" and "ut_direction (cl_task k) = chr_O"
    and "ut_request_bufflen (cl_task k) = sc_request_bufflen c" and "0 < unat (sc_request_bufflen c)"
    and "31 + unat (sc_request_bufflen c) \<le> length (ut_request_buffer (cl_task k))" and "unat (sc_request_bufflen c) + 31 < 2 ^ 31"
  shows "\<exists>k'. receive_scsi_data sl sig k = Inr (Some (k', 0)) \<and> serving k' p s
    \<and> cl_task k' = (cl_task k)\<lparr>ut_request_buffer := patch 0 (task_header c t chr_D @ cmnd_data c) (ut_request_buffer (cl_task k))\<rparr>"
proof -
  let ?n = "sc_request_bufflen c" and ?u = "cl_task k"
  let ?k = "k\<lparr>cl_file := (cl_file k)\<lparr>fl_pos := ucast (ut_cmd_number ?u)\<rparr>\<rparr>"
  let ?D = "put_session s (cl_sessions k)" and ?b = "patch 0 (task_header c t chr_D @ cmnd_data c) (ut_request_buffer ?u)"
  have ok: "session_ok s" and ready: "ss_flags s = SCSITAP_CONNECTION_READY" and at: "session_at (cl_sessions k) p = Some s"
    using assms(1) by (auto simp: serving_def)
  have sv: "serving ?k p s" using assms(1) by (simp add: serving_def)
  have n: "sint ?n = int (unat ?n)" by (rule sint_small) (use assms(9) in simp)
  have "ctl_read sig (fl_pos (cl_file ?k)) (31 + unat ?n) (ut_request_buffer ?u) s = Inr (Some (s, ?b, 31))"
    by (rule read_claimed_data_fact [OF ok ready _ assms(3,4,7)]) (use assms(2,8,9) in simp_all)
  moreover have "31 + m = nat (int m + 31)" for m by simp
  ultimately have rd: "client_read sig (int (unat ?n) + 31) (ut_request_buffer ?u) ?k = Inr (Some (?k\<lparr>cl_sessions := ?D\<rparr>, ?b, 31))"
    using client_read_serving [OF sv, of "int (unat ?n) + 31" sig "ut_request_buffer ?u" ?b 31] by simp
  have ci: "c_int (int (unat ?n) + 31) = Inr (int (unat ?n) + 31)"
    by (rule c_int_in_range) (use uint_less_of_unat [of ?n "2 ^ 31 - 31"] assms(9) in simp_all)
  have "serving (?k\<lparr>cl_sessions := ?D, cl_task := u\<rparr>) p s" for u
    using sv put_session_self [OF at] by (simp add: serving_def)
  then show ?thesis
    using assms(5,6) rd ci n
    by (simp add: receive_scsi_data_def client_ioctl_def scsitap_ctl_ioctl_def Let_def c_consts)
qed

lemma answer_in_buffer:
  assumes "6 + n \<le> length b"
  shows "patch 0 (answer num st []) b = answer num st (segment 6 n b) @ drop (6 + n) b"
  using assms by (simp add: patch_def answer_def segment_def add.commute flip: drop_drop)

text \<open>
  Completing the task writes the answer to the driver: what the driver's \<open>write\<close> makes of it is
  what the call does.
\<close>

lemma complete_ok:
  assumes "serving k p s" and "n = unat (ut_request_bufflen (cl_task k))" and "n + 6 < 2 ^ 31"
    and "6 + n \<le> length (ut_request_buffer (cl_task k))"
    and "ctl_write sl (6 + n) (answer (ut_cmd_number (cl_task k)) (of_int (ut_status (cl_task k)))
        (segment 6 n (ut_request_buffer (cl_task k))) @ drop (6 + n) (ut_request_buffer (cl_task k))) s = Inr (s', int (6 + n))"
    and "session_ok s'"
  shows "\<exists>k'. complete_scsi_task sl k = Inr (k', 0) \<and> serving k' p s' \<and> cl_file k' = cl_file k
    \<and> (\<exists>b. cl_task k' = (cl_task k)\<lparr>ut_request_buffer := b\<rparr> \<and> length b = length (ut_request_buffer (cl_task k)))"
proof -
  let ?u = "cl_task k"
  let ?b = "patch 0 (answer (ut_cmd_number ?u) (of_int (ut_status ?u)) []) (ut_request_buffer ?u)"
  have st: "store 0 (answer (ut_cmd_number ?u) (of_int (ut_status ?u)) []) (ut_request_buffer ?u) = Inr ?b"
    and lb: "length ?b = length (ut_request_buffer ?u)"
    using assms(4) by (simp_all add: store_def)
  have n: "sint (ut_request_bufflen ?u) = int n" using sint_small assms(2,3) by simp
  let ?k = "k\<lparr>cl_task := ?u\<lparr>ut_request_buffer := ?b\<rparr>\<rparr>"
  have sv: "serving ?k p s" using assms(1) by (simp add: serving_def)
  have nat6: "nat (int n + 6) = 6 + n" by simp
  have "client_write sl (int n + 6) ?b ?k = Inr (?k\<lparr>cl_sessions := put_session s' (cl_sessions ?k)\<rparr>, int (6 + n))"
    by (rule client_write_serving [OF sv]) (use assms(5) answer_in_buffer [OF assms(4)] nat6 in simp_all)
  moreover have "c_int (int n + 6) = Inr (int n + 6)" by (rule c_int_in_range) (use assms(3) in simp_all)
  moreover have "serving (?k\<lparr>cl_sessions := put_session s' (cl_sessions ?k)\<rparr>) p s'"
    by (rule serving_put [OF sv assms(6) write_identity [OF assms(5)]])
  ultimately show ?thesis
    using st n lb by (auto simp: complete_scsi_task_def Let_def)
qed

text \<open>
  The data phase of a request of length 0 reads 31 bytes, which is how a target asks for the next
  command: when no other command is waiting the driver answers 0, and the call fails.
\<close>

lemma receive_empty_fact:
  assumes "serving k p s" and "ss_queue s \<noteq> []" and "\<forall>u\<in>set (ss_queue s). tk_flags u = SCSITAP_TASK_RECEIVED"
    and "ut_direction (cl_task k) = chr_O" and "ut_request_bufflen (cl_task k) = 0"
  shows "\<exists>k'. receive_scsi_data sl sig k = Inr (Some (k', - 1))"
proof -
  let ?k = "k\<lparr>cl_file := (cl_file k)\<lparr>fl_pos := ucast (ut_cmd_number (cl_task k))\<rparr>\<rparr>"
  have sv: "serving ?k p s" and ok: "session_ok s" and ready: "ss_flags s = SCSITAP_CONNECTION_READY"
    using assms(1) by (auto simp: serving_def)
  have "find (\<lambda>t. tk_flags t = SCSITAP_TASK_SUBMITTED) (ss_queue s) = None"
    using assms(3) by (auto simp: find_None_iff c_consts)
  then have "ctl_read sig (fl_pos (cl_file ?k)) (nat 31) (ut_request_buffer (cl_task k)) s = Inr (Some (s, ut_request_buffer (cl_task k), 0))"
    using assms(2) ready lock_unlock [OF ok] by (simp add: ctl_read_def ctl_read_locked_def SCSITAP_UHEADER_SIZE_def)
  from client_read_serving [OF sv _ this] show ?thesis
    using assms(4,5) by (simp add: receive_scsi_data_def client_ioctl_def scsitap_ctl_ioctl_def Let_def c_int_def c_consts)
qed

definition demo_client :: "u32 \<Rightarrow> user_scsitap_task \<Rightarrow> client" where
  "demo_client f u = \<lparr>cl_sessions = no_sessions\<lparr>sl_queue := [demo_session 1 (Some f)]\<rparr>,
     cl_file = \<lparr>fl_minor = 0, fl_private = Some 1, fl_pos = 0\<rparr>, cl_task = u\<rparr>"

lemma demo_serving:
  "serving (demo_client SCSITAP_TASK_RECEIVED u) 1 (demo_session 1 (Some SCSITAP_TASK_RECEIVED))"
  "serving (demo_client SCSITAP_TASK_SUBMITTED u) 1 (demo_session 1 (Some SCSITAP_TASK_SUBMITTED))"
  using demo_session_ok [of 1] by (simp_all add: serving_def demo_client_def session_at_def no_sessions_def SCSITAP_CONNECTION_READY_def)
    (simp_all add: demo_session_def)

end
