(* ===== verification/Files.thy ===== *)
theory Files
  imports Prelude
begin

text \<open>
  The files of the target process: what \<open>user/scsi.c\<close>, \<open>user/scsi_target.c\<close> and
  \<open>user/main.c\<close> use of the C library.  A directory maps names to inodes, an inode is its bytes,
  a stream is an inode with a position.  Data written to a stream is seen by every later use of the
  same stream; the buffer between a stream and its inode is not modelled, and a disk does not fill
  up.  \<open>fs_denied\<close> says which names the process may not open for writing.
\<close>

record fs =
  fs_dir :: "string \<Rightarrow> nat option"
  fs_data :: "nat \<Rightarrow> bytes"
  fs_next :: nat
  fs_denied :: "string \<Rightarrow> bool"

record handle =
  fh_ino :: nat
  fh_pos :: nat
  fh_writable :: bool

section \<open>Opening\<close>

definition fopen_r :: "string \<Rightarrow> fs \<Rightarrow> handle option" where
  "fopen_r name fs = map_option (\<lambda>i. \<lparr>fh_ino = i, fh_pos = 0, fh_writable = False\<rparr>) (fs_dir fs name)"

definition fopen_r_plus :: "string \<Rightarrow> fs \<Rightarrow> handle option" where
  "fopen_r_plus name fs = (if fs_denied fs name then None
     else map_option (\<lambda>i. \<lparr>fh_ino = i, fh_pos = 0, fh_writable = True\<rparr>) (fs_dir fs name))"

text \<open>Mode \<open>w+\<close> empties the file if it exists and creates it if it does not.\<close>

definition fopen_w_plus :: "string \<Rightarrow> fs \<Rightarrow> fs \<times> handle option" where
  "fopen_w_plus name fs =
     (if fs_denied fs name then (fs, None)
      else case fs_dir fs name of
        Some i \<Rightarrow> (fs\<lparr>fs_data := (fs_data fs)(i := [])\<rparr>, Some \<lparr>fh_ino = i, fh_pos = 0, fh_writable = True\<rparr>)
      | None \<Rightarrow> let i = fs_next fs
          in (fs\<lparr>fs_dir := (fs_dir fs)(name \<mapsto> i), fs_data := (fs_data fs)(i := []), fs_next := i + 1\<rparr>,
              Some \<lparr>fh_ino = i, fh_pos = 0, fh_writable = True\<rparr>))"

section \<open>Names and sizes\<close>

definition set_length :: "nat \<Rightarrow> bytes \<Rightarrow> bytes" where
  "set_length n xs = take n xs @ replicate (n - length xs) 0"

lemma length_set_length [simp]: "length (set_length n xs) = n"
  by (simp add: set_length_def)

lemma set_length_same: "length xs = n \<Longrightarrow> set_length n xs = xs"
  by (simp add: set_length_def)

definition truncate_file :: "string \<Rightarrow> nat \<Rightarrow> fs \<Rightarrow> fs" where
  "truncate_file name n fs = (case fs_dir fs name of
       None \<Rightarrow> fs
     | Some i \<Rightarrow> if fs_denied fs name then fs else fs\<lparr>fs_data := (fs_data fs)(i := set_length n (fs_data fs i))\<rparr>)"

definition rename_file :: "string \<Rightarrow> string \<Rightarrow> fs \<Rightarrow> fs" where
  "rename_file old new fs = (case fs_dir fs old of
       None \<Rightarrow> fs
     | Some i \<Rightarrow> fs\<lparr>fs_dir := (fs_dir fs)(old := None, new \<mapsto> i)\<rparr>)"

definition stat_size :: "string \<Rightarrow> fs \<Rightarrow> nat option" where
  "stat_size name fs = map_option (\<lambda>i. length (fs_data fs i)) (fs_dir fs name)"

section \<open>Streams\<close>

definition fseek_set :: "nat \<Rightarrow> handle \<Rightarrow> handle" where
  "fseek_set off h = h\<lparr>fh_pos := off\<rparr>"

definition fseek_end :: "fs \<Rightarrow> handle \<Rightarrow> handle" where
  "fseek_end fs h = h\<lparr>fh_pos := length (fs_data fs (fh_ino h))\<rparr>"

definition ftello :: "handle \<Rightarrow> int" where
  "ftello h = int (fh_pos h)"

definition fread :: "nat \<Rightarrow> fs \<Rightarrow> handle \<Rightarrow> bytes \<times> handle" where
  "fread n fs h = (let bs = segment (fh_pos h) n (fs_data fs (fh_ino h)) in (bs, h\<lparr>fh_pos := fh_pos h + length bs\<rparr>))"

definition write_at :: "nat \<Rightarrow> bytes \<Rightarrow> bytes \<Rightarrow> bytes" where
  "write_at off bs xs = patch off bs (xs @ replicate (off + length bs - length xs) 0)"

text \<open>A write to a stream that was opened for reading writes nothing and returns 0.\<close>

definition fwrite :: "bytes \<Rightarrow> fs \<Rightarrow> handle \<Rightarrow> fs \<times> handle \<times> nat" where
  "fwrite bs fs h =
     (if \<not> fh_writable h then (fs, h, 0)
      else (fs\<lparr>fs_data := (fs_data fs)(fh_ino h := write_at (fh_pos h) bs (fs_data fs (fh_ino h)))\<rparr>,
            h\<lparr>fh_pos := fh_pos h + length bs\<rparr>, length bs))"

section \<open>The directory as names and contents\<close>

text \<open>
  What a user of the directory sees: which names there are, and the bytes under each.  It is a
  faithful view as long as no two names share an inode (no hard links) and new inodes are new.
\<close>

definition content :: "fs \<Rightarrow> string \<Rightarrow> bytes option" where
  "content fs name = map_option (fs_data fs) (fs_dir fs name)"

definition fs_ok :: "fs \<Rightarrow> bool" where
  "fs_ok fs \<longleftrightarrow> inj_on (fs_dir fs) (dom (fs_dir fs)) \<and> (\<forall>n i. fs_dir fs n = Some i \<longrightarrow> i < fs_next fs)"

lemma fs_okD:
  assumes "fs_ok fs"
  shows "fs_dir fs n = Some i \<Longrightarrow> fs_dir fs m = Some i \<Longrightarrow> n = m" and "fs_dir fs n = Some i \<Longrightarrow> i < fs_next fs"
  using assms unfolding fs_ok_def inj_on_def dom_def by (metis (mono_tags) mem_Collect_eq option.distinct(1))+

lemma fs_okI:
  assumes "\<And>n m i. fs_dir fs n = Some i \<Longrightarrow> fs_dir fs m = Some i \<Longrightarrow> n = m" and "\<And>n i. fs_dir fs n = Some i \<Longrightarrow> i < fs_next fs"
  shows "fs_ok fs"
  unfolding fs_ok_def inj_on_def dom_def using assms by (metis (mono_tags, lifting) mem_Collect_eq option.exhaust)

lemma content_write:
  assumes "fs_ok fs" and "fs_dir fs n = Some i"
  shows "content (fs\<lparr>fs_data := (fs_data fs)(i := x)\<rparr>) = (content fs)(n \<mapsto> x)" and "fs_ok (fs\<lparr>fs_data := (fs_data fs)(i := x)\<rparr>)"
proof -
  have other: "fs_dir fs m \<noteq> Some i" if "m \<noteq> n" for m using fs_okD(1) [OF assms(1) _ assms(2)] that by blast
  have "content (fs\<lparr>fs_data := (fs_data fs)(i := x)\<rparr>) m = ((content fs)(n \<mapsto> x)) m" for m
    using assms(2) other [of m] by (cases "m = n"; cases "fs_dir fs m") (simp_all add: content_def)
  then show "content (fs\<lparr>fs_data := (fs_data fs)(i := x)\<rparr>) = (content fs)(n \<mapsto> x)" by blast
  show "fs_ok (fs\<lparr>fs_data := (fs_data fs)(i := x)\<rparr>)" using assms(1) by (simp add: fs_ok_def)
qed

lemma content_rename:
  assumes "fs_ok fs" and "content fs old = Some x" and "new \<noteq> old"
  shows "content (rename_file old new fs) = (content fs)(old := None, new \<mapsto> x)" and "fs_ok (rename_file old new fs)"
proof -
  obtain i where i: "fs_dir fs old = Some i" "x = fs_data fs i" using assms(2) by (auto simp: content_def)
  then show "content (rename_file old new fs) = (content fs)(old := None, new \<mapsto> x)"
    using assms(3) by (auto simp: content_def rename_file_def)
  have "fs_dir fs m \<noteq> Some i" if "m \<noteq> old" for m using fs_okD(1) [OF assms(1) _ i(1)] that by blast
  then show "fs_ok (rename_file old new fs)"
    using i fs_okD [OF assms(1)] by (intro fs_okI) (auto simp: rename_file_def split: if_splits)
qed

lemma content_empty:
  assumes "fs_ok fs" and "\<not> fs_denied fs name"
  shows "\<exists>fs' i. fopen_w_plus name fs = (fs', Some \<lparr>fh_ino = i, fh_pos = 0, fh_writable = True\<rparr>) \<and> fs_dir fs' name = Some i
    \<and> content fs' = (content fs)(name \<mapsto> []) \<and> fs_ok fs' \<and> fs_denied fs' = fs_denied fs \<and> (\<forall>n. n \<noteq> name \<longrightarrow> fs_dir fs' n = fs_dir fs n)"
proof (cases "fs_dir fs name")
  case (Some i)
  with assms content_write [OF assms(1) Some, of "[]"] show ?thesis by (simp add: fopen_w_plus_def)
next
  case None
  let ?i = "fs_next fs"
  let ?fs = "fs\<lparr>fs_dir := (fs_dir fs)(name \<mapsto> ?i), fs_data := (fs_data fs)(?i := []), fs_next := ?i + 1\<rparr>"
  have new: "fs_dir fs n \<noteq> Some ?i" for n using fs_okD(2) [OF assms(1), of n ?i] by blast
  then have "content ?fs m = ((content fs)(name \<mapsto> [])) m" for m by (cases "fs_dir fs m") (auto simp: content_def)
  then have "content ?fs = (content fs)(name \<mapsto> [])" by blast
  moreover have "fs_ok ?fs"
    using fs_okD [OF assms(1)] new by (intro fs_okI) (auto simp: less_Suc_eq split: if_splits)
  ultimately show ?thesis using None assms(2) by (simp add: fopen_w_plus_def Let_def)
qed

section \<open>A disk image as a store of blocks\<close>

lemma write_at_inside: "off + length bs \<le> length xs \<Longrightarrow> write_at off bs xs = patch off bs xs"
  by (simp add: write_at_def)

text \<open>Bytes written into an image, which grows as far as needed; writing none leaves it as it is.\<close>

definition burn :: "nat \<Rightarrow> bytes \<Rightarrow> bytes \<Rightarrow> bytes" where
  "burn off bs img = (if bs = [] then img else write_at off bs img)"

lemma burn_inside: "off + length bs \<le> length img \<Longrightarrow> burn off bs img = write_at off bs img"
  by (simp add: burn_def write_at_inside)

text \<open>The interface the block commands rely on: a write is read back, and nothing else changes.\<close>

locale block_store =
  fixes rd :: "nat \<Rightarrow> nat \<Rightarrow> 's \<Rightarrow> bytes"
    and wr :: "nat \<Rightarrow> bytes \<Rightarrow> 's \<Rightarrow> 's"
    and size :: "'s \<Rightarrow> nat"
  assumes rd_wr: "off + length bs \<le> size s \<Longrightarrow> rd off (length bs) (wr off bs s) = bs"
    and rd_wr_other: "off + length bs \<le> size s \<Longrightarrow> o' + n \<le> size s \<Longrightarrow> o' + n \<le> off \<or> off + length bs \<le> o' \<Longrightarrow>
      rd o' n (wr off bs s) = rd o' n s"
    and size_wr: "off + length bs \<le> size s \<Longrightarrow> size (wr off bs s) = size s"
    and rd_split: "off + n + m \<le> size s \<Longrightarrow> rd off (n + m) s = rd off n s @ rd (off + n) m s"
    and rd_length: "off + n \<le> size s \<Longrightarrow> length (rd off n s) = n"
begin

lemma rd_inner:
  assumes "off + n \<le> size s" and "i + m \<le> n"
  shows "segment i m (rd off n s) = rd (off + i) m s"
proof -
  have "rd off n s = rd off i s @ rd (off + i) m s @ rd (off + i + m) (n - i - m) s"
    using assms rd_split [of off i "n - i" s] rd_split [of "off + i" m "n - i - m" s] by simp
  then show ?thesis using assms rd_length by (simp add: segment_def)
qed

text \<open>The store as numbered blocks of \<open>b\<close> bytes: a write of whole blocks replaces just those.\<close>

lemma blocks_after_write:
  assumes "length bs = n * b" and "(lba + n) * b \<le> size s" and "(i + 1) * b \<le> size s"
  shows "rd (i * b) b (wr (lba * b) bs s) = (if lba \<le> i \<and> i < lba + n then segment ((i - lba) * b) b bs else rd (i * b) b s)"
proof (cases "lba \<le> i \<and> i < lba + n")
  case True
  then obtain j where j: "i = lba + j" "j < n" by (metis le_Suc_ex nat_add_left_cancel_less)
  then have jb: "j * b + b \<le> n * b" by (metis add.commute mult_Suc Suc_leI mult_le_mono1)
  have fits: "lba * b + length bs \<le> size s" using assms(1,2) by (simp add: add_mult_distrib)
  have "segment (j * b) b (rd (lba * b) (length bs) (wr (lba * b) bs s)) = rd (lba * b + j * b) b (wr (lba * b) bs s)"
    by (rule rd_inner) (use fits jb assms(1) size_wr in auto)
  with True j show ?thesis using rd_wr [OF fits] by (simp add: add_mult_distrib)
next
  case False
  then consider (before) "i + 1 \<le> lba" | (after) "lba + n \<le> i" by linarith
  then have "i * b + b \<le> lba * b \<or> lba * b + length bs \<le> i * b"
  proof cases
    case before
    then have "(i + 1) * b \<le> lba * b" by (rule mult_le_mono1)
    then show ?thesis by simp
  next
    case after
    then have "(lba + n) * b \<le> i * b" by (rule mult_le_mono1)
    then show ?thesis using assms(1) by (simp add: add_mult_distrib)
  qed
  with False assms show ?thesis
    using rd_wr_other [of "lba * b" bs s "i * b" b] by (auto simp: add_mult_distrib)
qed

end

interpretation image: block_store segment write_at length
  by unfold_locales (auto simp: write_at_inside mem_simps segment_append_segment)

end
