(* ===== verification/Scsi_Types.thy ===== *)
theory Scsi_Types
  imports Files
begin

text \<open>
  The data of the SCSI engine, \<open>include/scsi.h\<close>: logical units, targets, the command tables, and
  the state a command handler works on.
\<close>

section \<open>Constants\<close>

definition DIRECTION_NO_DATA :: int where
  [c_consts]: "DIRECTION_NO_DATA = -1"

definition DIRECTION_READ :: int where
  [c_consts]: "DIRECTION_READ = -3"

definition DIRECTION_WRITE :: int where
  [c_consts]: "DIRECTION_WRITE = -2"

definition TARGET_TYPE_EMULATION :: int where
  [c_consts]: "TARGET_TYPE_EMULATION = 0"

definition LUN_TYPE_HD :: int where
  [c_consts]: "LUN_TYPE_HD = 1"

definition LUN_TYPE_DVD_R :: int where
  [c_consts]: "LUN_TYPE_DVD_R = 2"

definition LUN_TYPE_DVD_ROM :: int where
  [c_consts]: "LUN_TYPE_DVD_ROM = 3"

section \<open>Command tables\<close>

text \<open>The functions a table entry can point at, by name.\<close>

datatype scsi_command =
    Spc_report_luns | Spc_test_unit_ready | Spc_request_sense | Spc_mode_sense6 | Spc_mode_sense10
  | Spc_mode_select10 | Spc_prevent_allow_media_removal | Spc_persistent_reserve_in
  | Spc_persistent_reserve_out | Spc_inquiry
  | Mmc_read_buffer_capacity | Mmc_synchronize_cache | Mmc_reserve_track | Mmc_read_disc_information
  | Mmc_read_track_information | Mmc_prevent_allow_media_removal | Mmc_start_stop_unit
  | Mmc_set_cd_speed | Mmc_set_streaming | Mmc_read_toc | Mmc_get_performance
  | Mmc_read_dvd_structure | Mmc_report_key | Mmc_get_configuration
  | Sbc_verify10 | Sbc_verify12 | Sbc_verify16 | Sbc_read_capacity10 | Sbc_read10
  | Sbc_write12 | Sbc_write10 | Sbc_write6

text \<open>
  A table has 256 entries of a function, the size of the command block and the direction; an entry
  that is not listed is \<open>{NULL, 0, 0}\<close>.
\<close>

type_synonym scsi_command_table = "(u8 \<times> scsi_command \<times> nat \<times> int) list"

section \<open>Logical units and targets\<close>

text \<open>The links are lists; the fields \<open>cdb\<close> and \<open>edtl\<close>, which no code uses, are left out.\<close>

record lun_data =
  ld_device_type :: u8
  ld_block_size :: u16
  ld_vendor :: string
  ld_productid :: string
  ld_revision :: string
  ld_serial_number :: string
  ld_lun :: u8
  ld_luntype :: int
  ld_lunsizeinmb :: int
  ld_filename :: string
  ld_fh :: "handle option"
  ld_cmds :: "scsi_command_table option"
  ld_is_blank :: int
  ld_current_profile :: int

record target_data =
  td_type :: int
  td_targetname :: string
  td_pt_device :: int
  td_luns :: "lun_data list"

section \<open>What a command handler works on\<close>

text \<open>
  The pointers a handler gets: the logical unit, the data buffer (the bytes from \<open>data\<close> to the
  end of the request buffer), \<open>data_size\<close> and \<open>status\<close>; and the file system.  The command
  block is an array of 16 bytes.
\<close>

record scsi_io =
  io_fs :: fs
  io_ld :: lun_data
  io_data :: bytes
  io_size :: int
  io_status :: u8

definition finish_cmd :: "int \<Rightarrow> u8 \<Rightarrow> scsi_io \<Rightarrow> scsi_io res" where
  "finish_cmd n st io = Inr (io\<lparr>io_size := n, io_status := st\<rparr>)"

text \<open>\<open>*status=2; return;\<close>\<close>

definition check_condition :: "scsi_io \<Rightarrow> scsi_io res" where
  "check_condition io = Inr (io\<lparr>io_status := 2\<rparr>)"

text \<open>Assignments to consecutive bytes of \<open>data\<close>, and \<open>memset(data,0,n)\<close>.\<close>

definition put_data :: "nat \<Rightarrow> bytes \<Rightarrow> scsi_io \<Rightarrow> scsi_io res" where
  "put_data off bs io = and_then (store off bs (io_data io)) (\<lambda>d. Inr (io\<lparr>io_data := d\<rparr>))"

definition clear_data :: "nat \<Rightarrow> scsi_io \<Rightarrow> scsi_io res" where
  "clear_data n = put_data 0 (replicate n 0)"

text \<open>
  Multi-byte fields of the command block: \<open>ntohs\<close> of a \<open>short\<close>, \<open>ntohl\<close> of the low half of
  the \<open>long\<close> that the code loads.
\<close>

definition cdb_be16 :: "bytes \<Rightarrow> nat \<Rightarrow> u16" where
  "cdb_be16 cdb off = be16 (segment off 2 cdb)"

definition cdb_be32 :: "bytes \<Rightarrow> nat \<Rightarrow> u32" where
  "cdb_be32 cdb off = be32 (segment off 4 cdb)"

text \<open>\<open>*((long *)p)=htonl(n)\<close> stores eight bytes, the upper four of them 0.\<close>

definition long_htonl :: "u32 \<Rightarrow> bytes" where
  "long_htonl n = be32_bytes n @ [0, 0, 0, 0]"

definition ascii :: "string \<Rightarrow> bytes" where
  "ascii s = map of_char s"

lemma length_long_htonl [simp]: "length (long_htonl n) = 8"
  by (simp add: long_htonl_def)

lemma put_data_ok:
  "off + length bs \<le> length (io_data io) \<Longrightarrow> put_data off bs io = Inr (io\<lparr>io_data := patch off bs (io_data io)\<rparr>)"
  by (simp add: put_data_def store_def)

lemma clear_data_ok:
  "n \<le> length (io_data io) \<Longrightarrow> clear_data n io = Inr (io\<lparr>io_data := patch 0 (replicate n 0) (io_data io)\<rparr>)"
  by (simp add: clear_data_def put_data_ok)

text \<open>The sense data that the handlers put into the data buffer.\<close>

definition illegal_request :: bytes where
  "illegal_request = [0x00, 0x1c, 0x70, 0x00, 0x05, 0x00, 0x00, 0x00, 0x00, 0x12,
     0x00, 0x00, 0x00, 0x00, 0x24, 0x00, 0x00, 0x00, 0x00, 0x00, 0x00, 0x01, 0x02, 0x03, 0x04, 0x05, 0x06, 0x07]"

definition ILLEGAL_REQUEST :: "scsi_io \<Rightarrow> scsi_io res" where
  "ILLEGAL_REQUEST io = put_data 0 illegal_request (io\<lparr>io_size := 28, io_status := 2\<rparr>)"

lemma length_illegal_request [simp]: "length illegal_request = 28"
  by (simp add: illegal_request_def)

end
