(* ===== verification/Spc.thy ===== *)
theory Spc
  imports Scsi_Types
begin

text \<open>
  The commands every device answers (SPC), from \<open>user/scsi.c\<close>.  A handler takes the target, the
  command block and the state of the command; the theorems about them are in the theory
  \<open>Engine\<close>.
\<close>

section \<open>REPORT LUNS\<close>

text \<open>The loop over the target's logical units; \<open>k\<close> is \<open>numluns\<close>.\<close>

fun report_each :: "nat \<Rightarrow> nat \<Rightarrow> lun_data list \<Rightarrow> scsi_io \<Rightarrow> (scsi_io \<times> nat) res" where
  "report_each alloc_len k [] io = Inr (io, k)"
| "report_each alloc_len k (l # ls) io =
     and_then (if 8 + 1 + k * 8 \<le> alloc_len then put_data (8 + 1 + k * 8) [ld_lun l] io else Inr io)
       (report_each alloc_len (k + 1) ls)"

definition spc_report_luns :: "target_data \<Rightarrow> bytes \<Rightarrow> scsi_io \<Rightarrow> scsi_io res" where
  "spc_report_luns td cdb io =
     (let alloc_len = unat (cdb_be32 cdb 6)
      in if int alloc_len > io_size io then check_condition io
         else and_then (clear_data alloc_len (io\<lparr>io_size := int alloc_len\<rparr>)) (\<lambda>io.
              and_then (report_each alloc_len 0 (td_luns td) io) (\<lambda>(io, numluns).
              and_then (put_data 0 (long_htonl (of_nat (numluns * 8))) io) (\<lambda>io.
                Inr (io\<lparr>io_status := 0\<rparr>)))))"

section \<open>Commands without data\<close>

definition spc_test_unit_ready :: "scsi_io \<Rightarrow> scsi_io res" where
  "spc_test_unit_ready io = finish_cmd 0 0 io"

definition spc_mode_sense10 :: "scsi_io \<Rightarrow> scsi_io res" where
  "spc_mode_sense10 io = finish_cmd 0 0 io"

definition spc_mode_select10 :: "scsi_io \<Rightarrow> scsi_io res" where
  "spc_mode_select10 io = finish_cmd 0 0 io"

definition spc_prevent_allow_media_removal :: "scsi_io \<Rightarrow> scsi_io res" where
  "spc_prevent_allow_media_removal io = finish_cmd 0 0 io"

section \<open>REQUEST SENSE\<close>

definition sense_is_ok :: bytes where
  "sense_is_ok = [0x70, 0x00, 0x00, 0x00, 0x00, 0x00, 0x00, 0x12, 0x00, 0x00, 0x00, 0x00, 0x00, 0x00, 0x00, 0x00,
     0x00, 0x00, 0x00, 0x01, 0x02, 0x03, 0x04, 0x05, 0x06, 0x07]"

definition spc_request_sense :: "bytes \<Rightarrow> scsi_io \<Rightarrow> scsi_io res" where
  "spc_request_sense cdb io =
     (if cdb ! 1 AND 0x01 \<noteq> 0 then check_condition io
      else and_then (put_data 0 sense_is_ok io) (finish_cmd (uint (cdb ! 4)) 0))"

section \<open>MODE SENSE\<close>

text \<open>The block descriptor and the mode pages, in the order the code appends them at \<open>pos\<close>.\<close>

definition block_descriptor :: bytes where
  "block_descriptor = [0, 0, 0, 0, 0, 0, 0x02, 0]"

definition page_recovery :: bytes where
  "page_recovery = [0x01, 0x0a, 0xe4, 0, 0, 0, 0, 0, 0, 0, 0, 0]"

definition page_disconnect :: bytes where
  "page_disconnect = [0x02, 0x0e, 0, 0, 0, 0, 0, 0, 0, 0, 0x08, 0, 0, 0, 0, 0]"

definition page_format :: bytes where
  "page_format = [0x03, 0x16, 0, 0x01, 0, 0, 0, 0, 0, 0, 0, 0x10, 0x02, 0, 0, 0x01, 0, 0, 0, 0, 0x40, 0, 0, 0]"

definition page_geometry :: bytes where
  "page_geometry = [0x04, 0x16, 0x02, 0, 0, 0x01, 0, 0, 0, 0, 0, 0, 0, 0, 0, 0, 0, 0, 0, 0, 0x11, 0x30, 0, 0]"

definition page_control :: bytes where
  "page_control = [0x0a, 0x0a, 0, 0, 0, 0, 0, 0, 0xff, 0xff, 0, 0]"

definition pages_protocol :: bytes where
  "pages_protocol = [0x18, 0x01, 0x05, 0x19, 0x01, 0x05]"

definition mode_pages :: bytes where
  "mode_pages = block_descriptor @ page_recovery @ page_disconnect @ page_format @ page_geometry
     @ page_control @ pages_protocol"

lemma length_mode_pages: "length mode_pages = 102"
  by (simp add: mode_pages_def block_descriptor_def page_recovery_def page_disconnect_def page_format_def
      page_geometry_def page_control_def pages_protocol_def)

text \<open>Every other page: 18 bytes of zeros and a good status; the sense data above the call is not used.\<close>

definition mode_sense_other :: "scsi_io \<Rightarrow> scsi_io res" where
  "mode_sense_other io = clear_data 18 (io\<lparr>io_size := 18, io_status := 0\<rparr>)"

definition spc_mode_sense6 :: "bytes \<Rightarrow> scsi_io \<Rightarrow> scsi_io res" where
  "spc_mode_sense6 cdb io =
     (let dbd = drop_bit 3 (cdb ! 1) AND 0x01;
          pc = drop_bit 6 (cdb ! 2) AND 0x03;
          pcode = cdb ! 2 AND 0x3f;
          numblocks = 1;
          pos = 4 + length mode_pages
      in if dbd = 0 \<and> pc = 0 \<and> pcode = 0x3f then
           and_then (put_data 4 mode_pages io) (\<lambda>io.
           and_then (put_data 0 [of_nat pos - 1, 0x00, 0x00, numblocks * 8] io) (finish_cmd (int pos) 0))
         else mode_sense_other io)"

section \<open>Reservations\<close>

definition service_action_known :: "u8 \<Rightarrow> bool" where
  "service_action_known sa \<longleftrightarrow> sa = 0x00 \<or> sa = 0x01 \<or> sa = 0x02 \<or> sa = 0x03"

text \<open>\<open>data_size\<close> is an \<open>int\<close>: the 32-bit length is converted to it.\<close>

definition spc_persistent_reserve_out :: "bytes \<Rightarrow> scsi_io \<Rightarrow> scsi_io res" where
  "spc_persistent_reserve_out cdb io =
     (let sa = cdb ! 1 AND 0x1f;
          alloc_len = cdb_be32 cdb 5
      in if service_action_known sa then finish_cmd (sint alloc_len) 0 io else ILLEGAL_REQUEST io)"

definition spc_persistent_reserve_in :: "bytes \<Rightarrow> scsi_io \<Rightarrow> scsi_io res" where
  "spc_persistent_reserve_in cdb io =
     (let sa = cdb ! 1 AND 0x1f;
          alloc_len = cdb_be16 cdb 7
      in and_then (clear_data (unat alloc_len) io) (\<lambda>io.
           if service_action_known sa then finish_cmd (uint alloc_len) 0 io else ILLEGAL_REQUEST io))"

section \<open>INQUIRY\<close>

text \<open>A name in a field of \<open>n\<close> characters: cut off or filled up with blanks.\<close>

definition blank_padded :: "nat \<Rightarrow> string \<Rightarrow> bytes" where
  "blank_padded n s = patch 0 (take n (ascii s)) (replicate n 0x20)"

lemma length_blank_padded [simp]: "length (blank_padded n s) = n"
  by (simp add: blank_padded_def)

definition standard_inquiry :: "lun_data \<Rightarrow> bytes" where
  "standard_inquiry ld = [ld_device_type ld, 0x00, 0x05, 0x02, 31, 0, 0x80, 0]
     @ blank_padded 8 (ld_vendor ld) @ blank_padded 16 (ld_productid ld) @ blank_padded 4 (ld_revision ld)"

definition spc_inquiry :: "bytes \<Rightarrow> scsi_io \<Rightarrow> scsi_io res" where
  "spc_inquiry cdb io =
     (let evpd = cdb ! 1; page_code = cdb ! 2; alloc_len = cdb_be16 cdb 3
      in and_then (clear_data (unat alloc_len) io) (\<lambda>io.
         and_then (if evpd AND 0x01 \<noteq> 0 then
                     (if page_code = 0 then and_then (put_data 0 [0x05, 0, 0, 1, 0] io) (\<lambda>io. Inr (Some io))
                      else if page_code = 0x83 then and_then (put_data 0 [0x05, 0x83] io) (\<lambda>io. Inr (Some io))
                      else Inr None)
                   else and_then (put_data 0 (standard_inquiry (io_ld io)) io) (\<lambda>io. Inr (Some io)))
           (\<lambda>r. case r of None \<Rightarrow> check_condition io | Some io' \<Rightarrow> finish_cmd (uint alloc_len) 0 io')))"

end
