(* ===== verification/Mmc.thy ===== *)
theory Mmc
  imports Spc
begin

text \<open>
  The commands of a CD/DVD device (MMC), from \<open>user/scsi.c\<close>, with \<open>insert_new_dvd_r\<close> from
  \<open>user/scsi_target.c\<close>, which START STOP UNIT calls.
\<close>

section \<open>Following the unit's stream\<close>

text \<open>The C library's functions on \<open>ld->lun_fh\<close>: a null stream is a null dereference.\<close>

definition with_fh :: "(handle \<Rightarrow> scsi_io \<Rightarrow> 'a res) \<Rightarrow> scsi_io \<Rightarrow> 'a res" where
  "with_fh f io = (case ld_fh (io_ld io) of None \<Rightarrow> Inl Null_deref | Some h \<Rightarrow> f h io)"

definition set_fh :: "handle option \<Rightarrow> scsi_io \<Rightarrow> scsi_io" where
  "set_fh h io = io\<lparr>io_ld := (io_ld io)\<lparr>ld_fh := h\<rparr>\<rparr>"

text \<open>Division of an \<open>off_t\<close> by the block size; a block size of 0 is not caught.\<close>

definition div_blocks :: "int \<Rightarrow> u16 \<Rightarrow> int res" where
  "div_blocks n bs = (if bs = 0 then Inl Division_by_zero else Inr (n div uint bs))"

section \<open>Commands without data\<close>

definition mmc_synchronize_cache :: "scsi_io \<Rightarrow> scsi_io res" where
  "mmc_synchronize_cache io = finish_cmd 0 0 io"

definition mmc_reserve_track :: "scsi_io \<Rightarrow> scsi_io res" where
  "mmc_reserve_track io = finish_cmd 0 0 io"

definition mmc_prevent_allow_media_removal :: "scsi_io \<Rightarrow> scsi_io res" where
  "mmc_prevent_allow_media_removal io = finish_cmd 0 0 io"

definition mmc_set_cd_speed :: "scsi_io \<Rightarrow> scsi_io res" where
  "mmc_set_cd_speed io = finish_cmd 0 0 io"

definition mmc_set_streaming :: "scsi_io \<Rightarrow> scsi_io res" where
  "mmc_set_streaming io = finish_cmd 0 0 io"

section \<open>Changing disks\<close>

text \<open>
  \<open>stamp\<close> is the file name made of the time and the process id.  A unit whose stream is open
  keeps its image under that name if the image is not empty; then a fresh image is made.
\<close>

definition insert_new_dvd_r :: "string \<Rightarrow> scsi_io \<Rightarrow> scsi_io res" where
  "insert_new_dvd_r stamp io =
     (let io1 = (case ld_fh (io_ld io) of
            None \<Rightarrow> io
          | Some h \<Rightarrow>
              let total_size = ftello (fseek_end (io_fs io) h);
                  io' = set_fh None io
              in if total_size \<noteq> 0 then io'\<lparr>io_fs := rename_file (ld_filename (io_ld io)) stamp (io_fs io)\<rparr> else io');
          (fs', h') = fopen_w_plus (ld_filename (io_ld io1)) (io_fs io1)
      in case h' of
           None \<Rightarrow> Inl (Exit 10)
         | Some h \<Rightarrow> Inr (set_fh (Some h) (io1\<lparr>io_fs := fs'\<rparr>)))"

definition mmc_start_stop_unit :: "string \<Rightarrow> scsi_io \<Rightarrow> scsi_io res" where
  "mmc_start_stop_unit stamp io =
     and_then (if ld_current_profile (io_ld io) = 0x0011 then insert_new_dvd_r stamp io else Inr io) (finish_cmd 0 0)"

section \<open>Capacity, disc and track\<close>

definition mmc_read_buffer_capacity :: "bytes \<Rightarrow> scsi_io \<Rightarrow> scsi_io res" where
  "mmc_read_buffer_capacity cdb io =
     (if cdb ! 1 AND 0x01 \<noteq> 0 then check_condition io
      else and_then (put_data 0 [0x00, 0x0a, 0x00, 0x00, 0x00, 0x13, 0x00, 0x00, 0x00, 0x13, 0x00, 0x00] io)
             (finish_cmd 12 0))"

definition disc_information :: "int \<Rightarrow> bytes" where
  "disc_information profile =
     (if profile = 0x0011 then [0x00, 0x20, 0x00, 0x01, 0x01, 0x01, 0x01, 0x20, 0x00, 0x00, 0x00, 0x00]
      else if profile = 0x0010 then [0x00, 0x20, 0x0e, 0x01, 0x01, 0x01, 0x01, 0x20, 0x00, 0x00, 0x00, 0x00]
      else [])"

definition mmc_read_disc_information :: "bytes \<Rightarrow> scsi_io \<Rightarrow> scsi_io res" where
  "mmc_read_disc_information cdb io =
     (let alloc_len = cdb_be16 cdb 7
      in and_then (clear_data (unat alloc_len) io) (\<lambda>io.
         and_then (put_data 0 (disc_information (ld_current_profile (io_ld io))) io) (finish_cmd (uint alloc_len) 0)))"

text \<open>
  Bytes 0 to 23 and 28 to 33 of the track information; the track size between them is fixed for
  a DVD-R and computed from the stream's position for a DVD-ROM.
\<close>

definition track_head :: "int \<Rightarrow> bytes" where
  "track_head profile =
     [0x00, 0x22, 0x01, 0x01, 0x00, 0x04]
     @ (if profile = 0x0011 then [0x61, 0x03] else [0x01, 0x00])
     @ [0x00, 0x00, 0x00, 0x00, 0x00, 0x00, 0x00, 0x00]
     @ (if profile = 0x0011 then [0x00, 0x23, 0x10, 0x20] else [0x00, 0x00, 0x00, 0x00])
     @ [0x00, 0x00, 0x00, 0x10]"

definition track_tail :: bytes where
  "track_tail = [0x00, 0x00, 0x00, 0x00, 0x00, 0x00]"

definition int_bytes :: "int \<Rightarrow> bytes" where
  "int_bytes n = be32_bytes (word_of_int n)"

lemma length_int_bytes [simp]: "length (int_bytes n) = 4"
  by (simp add: int_bytes_def)

definition mmc_read_track_information :: "bytes \<Rightarrow> scsi_io \<Rightarrow> scsi_io res" where
  "mmc_read_track_information cdb io =
     (let address = cdb ! 1 AND 0x03;
          lba = cdb_be32 cdb 2;
          alloc_len = cdb_be16 cdb 7;
          profile = ld_current_profile (io_ld io)
      in if address \<noteq> 1 \<or> lba = 0 then check_condition io
         else and_then (clear_data (unat alloc_len) io) (\<lambda>io.
              and_then (if profile = 0x0011 then put_data 0 (track_head profile @ [0x00, 0x23, 0x10, 0x20] @ track_tail) io
                        else if profile = 0x0010 then
                          with_fh (\<lambda>h io. and_then (div_blocks (ftello h) (ld_block_size (io_ld io))) (\<lambda>blocks.
                            put_data 0 (track_head profile @ int_bytes blocks @ track_tail) io)) io
                        else Inr io)
                (finish_cmd (uint alloc_len) 0)))"

section \<open>READ TOC\<close>

definition toc_sense :: bytes where
  "toc_sense = [0x00, 0x12, 0x70, 0x00, 0x05, 0x00, 0x00, 0x00, 0x00, 0x12, 0x00, 0x00, 0x00, 0x00,
     0x24, 0x00, 0x00, 0x00, 0x00, 0x00]"

text \<open>\<open>alloc_len\<close> is a \<open>short\<close>: from 0x8000 on it is negative and the \<open>memset\<close> runs away.\<close>

definition mmc_read_toc :: "bytes \<Rightarrow> scsi_io \<Rightarrow> scsi_io res" where
  "mmc_read_toc cdb io =
     (let format = cdb ! 2 AND 0x0f;
          alloc_len = sint (cdb_be16 cdb 7)
      in if alloc_len < 0 then Inl Out_of_bounds
         else and_then (clear_data (nat alloc_len) io) (\<lambda>io.
           if ld_is_blank (io_ld io) \<noteq> 0 then put_data 0 toc_sense (io\<lparr>io_size := 20, io_status := 2\<rparr>)
           else if format \<noteq> 0 then check_condition io
           else and_then (put_data 0 [0x00, 0x0a, 1, 1, 0, 0x14, 0x01, 0, 0, 0, 0, 0] io) (finish_cmd alloc_len 0)))"

section \<open>GET PERFORMANCE\<close>

definition performance_dvd_r :: bytes where
  "performance_dvd_r = [0x00, 0x00, 0x00, 0x14, 0x02, 0x00, 0x00, 0x00, 0x00, 0x00, 0x00, 0x00, 0x00, 0x00, 0x15, 0xa4,
     0x00, 0x23, 0x10, 0x1f, 0x00, 0x00, 0x15, 0xa4]"

definition write_speeds_dvd_r :: bytes where
  "write_speeds_dvd_r = [0x00, 0x00, 0x00, 0x24, 0x00, 0x00, 0x00, 0x00,
     0x00, 0x00, 0x00, 0x00, 0x00, 0x23, 0x10, 0x1f, 0x00, 0x00, 0x12, 0xb3, 0x00, 0x00, 0x15, 0xa4,
     0x00, 0x00, 0x00, 0x00, 0x00, 0x23, 0x10, 0x1f, 0x00, 0x00, 0x12, 0xb3, 0x00, 0x00, 0x0c, 0xfc]"

definition mmc_get_performance :: "bytes \<Rightarrow> scsi_io \<Rightarrow> scsi_io res" where
  "mmc_get_performance cdb io =
     (let type = cdb ! 10; profile = ld_current_profile (io_ld io)
      in if profile = 0x0011 then
           (if type = 0 then and_then (put_data 0 performance_dvd_r io) (finish_cmd 24 0)
            else if type = 3 then and_then (put_data 0 write_speeds_dvd_r io) (finish_cmd 40 0)
            else check_condition io)
         else if profile = 0x0010 then
           (if type = 0 then and_then (put_data 0 [0x00, 0x00, 0x00, 0x04, 0x02, 0x00, 0x00, 0x00] io) (finish_cmd 8 0)
            else ILLEGAL_REQUEST io)
         else finish_cmd 0 0 io)"

section \<open>READ DVD STRUCTURE\<close>

text \<open>Format 0 for a DVD-ROM: the last block, with its third byte left out.\<close>

definition dvd_rom_physical :: "scsi_io \<Rightarrow> scsi_io res" where
  "dvd_rom_physical io =
     and_then (put_data 4 [0x01, 0x02, 0x01, 0x00] io) (\<lambda>io.
     and_then (put_data 9 [0x03, 0x00, 0x00] io)
       (with_fh (\<lambda>h io.
          let io1 = set_fh (Some (fseek_end (io_fs io) h)) io
          in and_then (div_blocks (ftello (fseek_end (io_fs io) h)) (ld_block_size (io_ld io))) (\<lambda>blocks.
               let b = int_bytes blocks in put_data 13 [b ! 0, b ! 1, b ! 3] io1))))"

definition dvd_r_prerecorded :: bytes where
  "dvd_r_prerecorded = [0x00, 0x6c, 0x00, 0x00, 0x01, 0x40, 0xc1, 0xfd, 0x9e, 0xd8, 0x58, 0x00,
     0x02, 0x35, 0x0d, 0x0e, 0x88, 0x9a, 0x80, 0x00, 0x03, 0x43, 0x4d, 0x43, 0x20, 0x4d, 0x41, 0x00,
     0x04, 0x47, 0x2e, 0x20, 0x41, 0x45, 0x31, 0x00, 0x05, 0x00, 0x00, 0x00, 0x00, 0x00, 0x02, 0x00,
     0x06, 0x09, 0x0d, 0x11, 0x87, 0x78, 0x90, 0x00, 0x07, 0x88, 0x80, 0x00, 0x00, 0x00, 0x00, 0x00,
     0x08, 0x05, 0x15, 0x0d, 0x0f, 0x0a, 0x09, 0x00]"

text \<open>Format 0x0e, which only a DVD-R has.\<close>

definition dvd_structure_lead_in :: "int \<Rightarrow> (scsi_io \<Rightarrow> scsi_io res) \<Rightarrow> scsi_io \<Rightarrow> scsi_io res" where
  "dvd_structure_lead_in profile fin io =
     (if profile = 0x0011 then and_then (put_data 0 dvd_r_prerecorded io) fin
      else if profile = 0x0010 then ILLEGAL_REQUEST io
      else fin io)"

definition mmc_read_dvd_structure :: "bytes \<Rightarrow> scsi_io \<Rightarrow> scsi_io res" where
  "mmc_read_dvd_structure cdb io =
     (let alloc_len = cdb_be16 cdb 8; format = cdb ! 7; profile = ld_current_profile (io_ld io);
          fin = finish_cmd (uint alloc_len) 0
      in and_then (clear_data (unat alloc_len) io) (\<lambda>io.
         if format = 0 then
           and_then (put_data 0 [8, 2, 0, 0] io) (\<lambda>io.
           and_then (if profile = 0x0011 then
                       and_then (put_data 4 [0x25, 0x0f, 0x02, 0x00] io) (put_data 9 [0x03, 0x00, 0x00])
                     else if profile = 0x0010 then dvd_rom_physical io
                     else Inr io) fin)
         else if format = 1 then and_then (put_data 0 [0, 6] io) fin
         else if format = 0x0d then
           (if profile = 0x0011 then and_then (put_data 0 [0x80, 0x06] io) fin
            else if profile = 0x0010 then ILLEGAL_REQUEST io
            else fin io)
         else if format = 0x0e then dvd_structure_lead_in profile fin io
         else if format = 0x11 then ILLEGAL_REQUEST io
         else check_condition io))"

section \<open>REPORT KEY\<close>

definition mmc_report_key :: "bytes \<Rightarrow> scsi_io \<Rightarrow> scsi_io res" where
  "mmc_report_key cdb io =
     (let alloc_len = cdb_be16 cdb 8; key_format = cdb ! 10 AND 0x3f
      in if key_format \<noteq> 8 then check_condition io
         else and_then (clear_data (unat alloc_len) io) (\<lambda>io.
              and_then (put_data 0 [0, 6] io) (\<lambda>io.
              and_then (put_data 4 [0x63, 0xf7, 0x01] io) (finish_cmd (uint alloc_len) 0))))"

section \<open>GET CONFIGURATION\<close>

definition profile_list :: "u16 list" where
  "profile_list = [0x0008, 0x0009, 0x000a, 0x0010, 0x0011, 0x0014, 0x001a, 0x001b]"

text \<open>
  A feature: the flag byte (which some features leave out when the profile is unknown) and what
  follows the length byte.
\<close>

definition by_profile :: "int \<Rightarrow> u8 \<Rightarrow> u8 \<Rightarrow> bytes" where
  "by_profile profile r rom = (if profile = 0x0011 then [r] else if profile = 0x0010 then [rom] else [])"

definition profile_entries :: "int \<Rightarrow> bytes" where
  "profile_entries profile = concat (map (\<lambda>p. be16_bytes p @ [if uint p = profile then 0x01 else 0x00, 0]) profile_list)"

text \<open>The serial number, filled up with blanks to a multiple of four.\<close>

definition serial_field :: "string \<Rightarrow> bytes" where
  "serial_field s = ascii s @ replicate ((4 - length s mod 4) mod 4) 0x20"

definition feature_high :: "u16 \<Rightarrow> lun_data \<Rightarrow> (bytes \<times> bytes) option" where
  "feature_high n ld = (let profile = ld_current_profile ld in
     if n = 0x0021 then Some (by_profile profile 0x05 0x04, [0x3f, 0x0b, 0x01, 0x01, 0, 0, 0, 0])
     else if n = 0x002f then Some (by_profile profile 0x05 0x04, [0x46, 0, 0, 0])
     else if n = 0x0100 then Some ([0x03], [])
     else if n = 0x0105 then Some ([0x03], [0, 0, 0, 0])
     else if n = 0x0107 then Some ([0x0d], [0x1f, 0, 0, 0])
     else if n = 0x0108 then Some ([0x03], serial_field (ld_serial_number ld))
     else None)"

definition feature :: "u16 \<Rightarrow> lun_data \<Rightarrow> (bytes \<times> bytes) option" where
  "feature n ld = (let profile = ld_current_profile ld in
     if n = 0x0000 then Some ([0x03], profile_entries profile)
     else if n = 0x0001 then Some ([0x07], [0, 0, 0, 1, 0, 0, 0, 0])
     else if n = 0x0002 then Some ([0x03], [0, 0, 0, 0])
     else if n = 0x0003 then Some ([0x03], [0x29, 0, 0, 0])
     else if n = 0x0010 then Some (by_profile profile 0x00 0x01, [0, 0] @ be16_bytes (ld_block_size ld) @ [0, 0x10, 0, 0])
     else if n = 0x001f then Some (by_profile profile 0x00 0x01, [])
     else feature_high n ld)"

text \<open>
  The header's length field counts the bytes after it; an unknown feature leaves only its own
  number behind the header.
\<close>

definition configuration_header :: "int \<Rightarrow> int \<Rightarrow> bytes" where
  "configuration_header ptr profile = int_bytes (ptr - 3) @ [0, 0] @ be16_bytes (word_of_int profile)"

definition mmc_get_configuration :: "bytes \<Rightarrow> scsi_io \<Rightarrow> scsi_io res" where
  "mmc_get_configuration cdb io =
     (let starting_feature_number = cdb_be16 cdb 2;
          alloc_len = cdb_be16 cdb 7;
          ld = io_ld io;
          (body, ptr) = (case feature starting_feature_number ld of
              Some (flags, rest) \<Rightarrow>
                (be16_bytes starting_feature_number @ flags @ [of_nat (length rest)] @ rest,
                 8 + 2 + length flags + length rest)
            | None \<Rightarrow> (be16_bytes starting_feature_number, 7))
      in and_then (clear_data (unat alloc_len) io) (\<lambda>io.
         and_then (put_data 8 body io) (\<lambda>io.
         and_then (put_data 0 (configuration_header (int ptr) (ld_current_profile ld)) io)
           (finish_cmd (uint alloc_len) 0))))"

end
