(* ===== verification/Sbc.thy ===== *)
theory Sbc
  imports Mmc
begin

text \<open>
  The block commands of a disk (SBC), from \<open>user/scsi.c\<close>: READ, WRITE, VERIFY and READ
  CAPACITY.  The transfer loops go on until everything has been moved, so a stream that cannot
  deliver or take the data keeps them running for ever: they are partial functions, and a loop that
  does not end is the outcome \<open>Never_returns\<close>.
\<close>

section \<open>VERIFY\<close>

definition sbc_verify10 :: "scsi_io \<Rightarrow> scsi_io res" where
  "sbc_verify10 io = finish_cmd 0 0 io"

definition sbc_verify12 :: "scsi_io \<Rightarrow> scsi_io res" where
  "sbc_verify12 io = finish_cmd 0 0 io"

definition sbc_verify16 :: "scsi_io \<Rightarrow> scsi_io res" where
  "sbc_verify16 io = finish_cmd 0 0 io"

section \<open>READ CAPACITY\<close>

definition sbc_read_capacity10 :: "scsi_io \<Rightarrow> scsi_io res" where
  "sbc_read_capacity10 io =
     and_then (clear_data 8 io) (with_fh (\<lambda>h io.
       let h' = fseek_end (io_fs io) h; io = set_fh (Some h') io
       in and_then (div_blocks (ftello h') (ld_block_size (io_ld io))) (\<lambda>blocks.
          and_then (put_data 0 (long_htonl (word_of_int (blocks - 1))) io) (\<lambda>io.
          and_then (put_data 4 (long_htonl (ucast (ld_block_size (io_ld io)))) io) (finish_cmd 8 0)))))"

section \<open>The transfer loops\<close>

text \<open>
  \<open>lba\<close> and \<open>len\<close> are in bytes, \<open>cnt\<close> is \<open>count\<close>.  The loop's state is the file
  system, the stream and the data buffer.
\<close>

partial_function (option) read_loop ::
  "nat \<Rightarrow> nat \<Rightarrow> nat \<Rightarrow> fs \<Rightarrow> handle \<Rightarrow> bytes \<Rightarrow> (handle \<times> bytes) res option" where
  "read_loop lba len cnt fs h d =
     (if cnt < len then
        (case fread (len - cnt) fs (fseek_set (lba + cnt) h) of (bs, h') \<Rightarrow>
          (case store cnt bs d of
             Inl e \<Rightarrow> Some (Inl e)
           | Inr d' \<Rightarrow> read_loop lba len (cnt + length bs) fs h' d'))
      else Some (Inr (h, d)))"

partial_function (option) write_loop ::
  "nat \<Rightarrow> nat \<Rightarrow> nat \<Rightarrow> fs \<Rightarrow> handle \<Rightarrow> bytes \<Rightarrow> (fs \<times> handle) res option" where
  "write_loop lba len cnt fs h d =
     (if cnt < len then
        (case load cnt (len - cnt) d of
           Inl e \<Rightarrow> Some (Inl e)
         | Inr bs \<Rightarrow>
            (case fwrite bs fs (fseek_set (lba + cnt) h) of (fs', h', r) \<Rightarrow>
               write_loop lba len (cnt + r) fs' h' d))
      else Some (Inr (fs, h)))"

section \<open>READ and WRITE\<close>

text \<open>The test against the size of the unit, whose right-hand side is an \<open>int\<close> product.\<close>

definition beyond_unit :: "nat \<Rightarrow> nat \<Rightarrow> lun_data \<Rightarrow> bool res" where
  "beyond_unit lba len ld =
     and_then (c_int (ld_lunsizeinmb ld * 1024)) (\<lambda>a. and_then (c_int (a * 1024)) (\<lambda>b. Inr (int lba + int len > b)))"

definition sbc_read10 :: "bytes \<Rightarrow> scsi_io \<Rightarrow> scsi_io res" where
  "sbc_read10 cdb io =
     (let bs = unat (ld_block_size (io_ld io));
          lba = unat (cdb_be32 cdb 2) * bs;
          transfer_len = unat (cdb_be16 cdb 7) * bs
      in and_then (beyond_unit lba transfer_len (io_ld io)) (\<lambda>beyond.
         if beyond then check_condition io
         else with_fh (\<lambda>h io. case read_loop lba transfer_len 0 (io_fs io) h (io_data io) of
                None \<Rightarrow> Inl Never_returns
              | Some r \<Rightarrow> and_then r (\<lambda>(h', d).
                  finish_cmd (int transfer_len) 0 (set_fh (Some h') (io\<lparr>io_data := d\<rparr>)))) io))"

text \<open>What the three WRITE commands do once they have computed the bytes they address.\<close>

definition write_blocks :: "nat \<Rightarrow> nat \<Rightarrow> scsi_io \<Rightarrow> scsi_io res" where
  "write_blocks lba transfer_len io =
     and_then (beyond_unit lba transfer_len (io_ld io)) (\<lambda>beyond.
       if beyond then check_condition io
       else with_fh (\<lambda>h io. case write_loop lba transfer_len 0 (io_fs io) h (io_data io) of
              None \<Rightarrow> Inl Never_returns
            | Some r \<Rightarrow> and_then r (\<lambda>(fs', h').
                finish_cmd (int transfer_len) 0 (set_fh (Some h') (io\<lparr>io_fs := fs'\<rparr>)))) io)"

definition sbc_write12 :: "bytes \<Rightarrow> scsi_io \<Rightarrow> scsi_io res" where
  "sbc_write12 cdb io =
     (let bs = unat (ld_block_size (io_ld io))
      in write_blocks (unat (cdb_be32 cdb 2) * bs) (unat (cdb_be32 cdb 6) * bs) io)"

definition sbc_write10 :: "bytes \<Rightarrow> scsi_io \<Rightarrow> scsi_io res" where
  "sbc_write10 cdb io =
     (let bs = unat (ld_block_size (io_ld io))
      in write_blocks (unat (cdb_be32 cdb 2) * bs) (unat (cdb_be16 cdb 7) * bs) io)"

definition sbc_write6 :: "bytes \<Rightarrow> scsi_io \<Rightarrow> scsi_io res" where
  "sbc_write6 cdb io =
     (let bs = unat (ld_block_size (io_ld io))
      in write_blocks (unat (cdb_be16 cdb 2) * bs) (unat (cdb ! 4) * bs) io)"

section \<open>What the loops do\<close>

text \<open>A file that holds the bytes asked for is read in one pass.\<close>

lemma read_loop_ok:
  assumes "lba + len \<le> length (fs_data fs (fh_ino h))" and "len \<le> length d"
  shows "\<exists>h'. read_loop lba len 0 fs h d = Some (Inr (h', patch 0 (segment lba len (fs_data fs (fh_ino h))) d))
    \<and> fh_ino h' = fh_ino h \<and> fh_writable h' = fh_writable h"
proof (cases "len = 0")
  case True
  then show ?thesis by (simp add: read_loop.simps)
next
  case False
  let ?bs = "segment lba len (fs_data fs (fh_ino h))" and ?h = "h\<lparr>fh_pos := lba + len\<rparr>"
  have l: "length ?bs = len" using assms(1) by simp
  have fin: "read_loop lba len len fs h' d' = Some (Inr (h', d'))" for h' d'
    by (simp add: read_loop.simps)
  have rd: "fread len fs (fseek_set lba h) = (?bs, ?h)"
    using l by (simp add: fread_def fseek_set_def)
  have "read_loop lba len 0 fs h d = read_loop lba len len fs ?h (patch 0 ?bs d)"
    by (subst read_loop.simps) (use False rd l assms(2) in \<open>simp add: store_def\<close>)
  with fin show ?thesis by simp
qed

text \<open>
  A file that ends before the bytes asked for: once the loop has what there is, every further pass
  moves nothing.
\<close>

lemma read_loop_stuck:
  assumes "cnt < len" and "length (fs_data fs (fh_ino h)) \<le> lba + cnt" and "cnt \<le> length d"
  shows "read_loop lba len cnt fs h d = None"
proof (rule ccontr)
  assume "read_loop lba len cnt fs h d \<noteq> None"
  then obtain x where "read_loop lba len cnt fs h d = Some x" by blast
  then have "\<not> (cnt < len \<and> length (fs_data fs (fh_ino h)) \<le> lba + cnt \<and> cnt \<le> length d)"
  proof (induction rule: read_loop.raw_induct [rotated 1, consumes 1])
    case (1 f lba len cnt fs h d r)
    then show ?case
      by (auto simp: fread_def fseek_set_def segment_def store_def split: if_splits)
  qed
  with assms show False by simp
qed

lemma read_loop_short:
  assumes "0 < len" and "length (fs_data fs (fh_ino h)) < lba + len" and "len \<le> length d"
  shows "read_loop lba len 0 fs h d = None"
proof (cases "length (fs_data fs (fh_ino h)) \<le> lba")
  case True
  with assms(1) show ?thesis by (intro read_loop_stuck) auto
next
  case False
  let ?f = "fs_data fs (fh_ino h)"
  let ?bs = "segment lba len ?f"
  have l: "length ?bs = length ?f - lba" "length ?f - lba \<le> length d"
    using False assms(2,3) by (simp_all add: segment_def)
  have "read_loop lba len 0 fs h d = read_loop lba len (length ?bs) fs (h\<lparr>fh_pos := lba + length ?bs\<rparr>) (patch 0 ?bs d)"
    by (subst read_loop.simps) (use assms l in \<open>simp add: fread_def fseek_set_def store_def\<close>)
  moreover have "read_loop lba len (length ?bs) fs (h\<lparr>fh_pos := lba + length ?bs\<rparr>) (patch 0 ?bs d) = None"
    by (rule read_loop_stuck) (use assms l False in auto)
  ultimately show ?thesis by simp
qed

text \<open>A write of some bytes is one pass; a write of none does not even seek.\<close>

lemma write_loop_writes:
  assumes "fh_writable h" and "len \<le> length d" and "0 < len"
  shows "\<exists>h'. write_loop lba len 0 fs h d = Some (Inr
      (fs\<lparr>fs_data := (fs_data fs)(fh_ino h := write_at lba (segment 0 len d) (fs_data fs (fh_ino h)))\<rparr>, h'))
    \<and> fh_ino h' = fh_ino h \<and> fh_writable h'"
proof -
  have fin: "write_loop lba len len fs' h' d = Some (Inr (fs', h'))" for fs' h'
    by (simp add: write_loop.simps)
  have "write_loop lba len 0 fs h d = write_loop lba len len
      (fs\<lparr>fs_data := (fs_data fs)(fh_ino h := write_at lba (segment 0 len d) (fs_data fs (fh_ino h)))\<rparr>) (h\<lparr>fh_pos := lba + len\<rparr>) d"
    by (subst write_loop.simps) (use assms in \<open>simp add: load_def fwrite_def fseek_set_def\<close>)
  with fin assms(1) show ?thesis by simp
qed

lemma burn_loop:
  assumes "fh_writable h" and "len \<le> length d"
  shows "\<exists>h'. write_loop lba len 0 fs h d = Some (Inr
      (fs\<lparr>fs_data := (fs_data fs)(fh_ino h := burn lba (segment 0 len d) (fs_data fs (fh_ino h)))\<rparr>, h'))
    \<and> fh_ino h' = fh_ino h \<and> fh_writable h'"
proof (cases "len = 0")
  case True
  then have "segment 0 len d = []" by (simp add: segment_def)
  with True assms show ?thesis by (simp add: write_loop.simps burn_def)
next
  case False
  then have "segment 0 len d \<noteq> []" using assms(2) by (auto simp: segment_def)
  with write_loop_writes [OF assms, of lba fs] False show ?thesis by (simp add: burn_def)
qed

text \<open>A stream that was opened for reading takes nothing: the loop never ends.\<close>

lemma write_loop_stuck:
  assumes "\<not> fh_writable h" and "cnt < len" and "len \<le> length d"
  shows "write_loop lba len cnt fs h d = None"
proof (rule ccontr)
  assume "write_loop lba len cnt fs h d \<noteq> None"
  then obtain x where "write_loop lba len cnt fs h d = Some x" by blast
  then have "\<not> (\<not> fh_writable h \<and> cnt < len \<and> len \<le> length d)"
  proof (induction rule: write_loop.raw_induct [rotated 1, consumes 1])
    case (1 f lba len cnt fs h d r)
    show ?case
    proof
      assume a: "\<not> fh_writable h \<and> cnt < len \<and> len \<le> length d"
      then have "f lba len cnt fs (h\<lparr>fh_pos := lba + cnt\<rparr>) d = Some r"
        using 1(2) by (simp add: fwrite_def fseek_set_def load_def)
      from 1(1) [OF this] a show False by simp
    qed
  qed
  with assms show False by simp
qed

text \<open>A transfer that is longer than the buffer leaves it in its first pass.\<close>

lemma read_loop_overruns:
  assumes "length d < len" and "lba + len \<le> length (fs_data fs (fh_ino h))"
  shows "read_loop lba len 0 fs h d = Some (Inl Out_of_bounds)"
proof -
  have "length (segment lba len (fs_data fs (fh_ino h))) = len" using assms(2) by simp
  then show ?thesis
    by (subst read_loop.simps) (use assms(1) in \<open>auto simp: fread_def fseek_set_def store_def\<close>)
qed

lemma write_loop_overruns:
  assumes "length d < len"
  shows "write_loop lba len 0 fs h d = Some (Inl Out_of_bounds)"
  by (subst write_loop.simps) (use assms in \<open>simp add: load_def\<close>)

end
