(* ===== verification/Commands.thy ===== *)
theory Commands
  imports Sbc
begin

text \<open>
  The command tables of \<open>user/scsi.c\<close>, the call through a table entry, and what every command of
  the disk table keeps of its logical unit.
\<close>

section \<open>The tables\<close>

definition scsi_mmc_commands_low :: scsi_command_table where
  "scsi_mmc_commands_low =
     [(0x00, Spc_test_unit_ready, 6, DIRECTION_NO_DATA),
      (0x03, Spc_request_sense, 6, DIRECTION_READ),
      (0x12, Spc_inquiry, 6, DIRECTION_READ),
      (0x1a, Spc_mode_sense6, 6, DIRECTION_READ),
      (0x1b, Mmc_start_stop_unit, 6, DIRECTION_NO_DATA),
      (0x1e, Mmc_prevent_allow_media_removal, 6, DIRECTION_NO_DATA),
      (0x25, Sbc_read_capacity10, 10, DIRECTION_READ),
      (0x28, Sbc_read10, 10, DIRECTION_READ),
      (0x2a, Sbc_write10, 10, DIRECTION_WRITE),
      (0x35, Mmc_synchronize_cache, 10, DIRECTION_NO_DATA),
      (0x43, Mmc_read_toc, 10, DIRECTION_READ),
      (0x46, Mmc_get_configuration, 10, DIRECTION_READ),
      (0x51, Mmc_read_disc_information, 10, DIRECTION_READ),
      (0x52, Mmc_read_track_information, 10, DIRECTION_READ),
      (0x53, Mmc_reserve_track, 10, DIRECTION_NO_DATA),
      (0x55, Spc_mode_select10, 10, DIRECTION_WRITE),
      (0x5a, Spc_mode_sense10, 10, DIRECTION_READ),
      (0x5c, Mmc_read_buffer_capacity, 10, DIRECTION_READ)]"

definition scsi_mmc_commands_high :: scsi_command_table where
  "scsi_mmc_commands_high =
     [(0xa0, Spc_report_luns, 12, DIRECTION_READ),
      (0xa4, Mmc_report_key, 12, DIRECTION_READ),
      (0xac, Mmc_get_performance, 12, DIRECTION_READ),
      (0xad, Mmc_read_dvd_structure, 12, DIRECTION_READ),
      (0xb6, Mmc_set_streaming, 12, DIRECTION_WRITE),
      (0xbb, Mmc_set_cd_speed, 12, DIRECTION_NO_DATA)]"

definition scsi_mmc_commands :: scsi_command_table where
  "scsi_mmc_commands = scsi_mmc_commands_low @ scsi_mmc_commands_high"

definition scsi_sbc_commands_low :: scsi_command_table where
  "scsi_sbc_commands_low =
     [(0x00, Spc_test_unit_ready, 6, DIRECTION_NO_DATA),
      (0x03, Spc_request_sense, 6, DIRECTION_READ),
      (0x0a, Sbc_write6, 6, DIRECTION_WRITE),
      (0x12, Spc_inquiry, 6, DIRECTION_READ),
      (0x1a, Spc_mode_sense6, 6, DIRECTION_READ),
      (0x1e, Spc_prevent_allow_media_removal, 6, DIRECTION_NO_DATA),
      (0x25, Sbc_read_capacity10, 10, DIRECTION_READ),
      (0x28, Sbc_read10, 10, DIRECTION_READ),
      (0x2a, Sbc_write10, 10, DIRECTION_WRITE),
      (0x2f, Sbc_verify10, 10, DIRECTION_NO_DATA),
      (0x55, Spc_mode_select10, 10, DIRECTION_WRITE),
      (0x5e, Spc_persistent_reserve_in, 10, DIRECTION_READ),
      (0x5f, Spc_persistent_reserve_out, 10, DIRECTION_WRITE)]"

definition scsi_sbc_commands_high :: scsi_command_table where
  "scsi_sbc_commands_high =
     [(0x8f, Sbc_verify16, 16, DIRECTION_NO_DATA),
      (0xa0, Spc_report_luns, 12, DIRECTION_READ),
      (0xaa, Sbc_write12, 12, DIRECTION_WRITE),
      (0xaf, Sbc_verify12, 12, DIRECTION_NO_DATA)]"

definition scsi_sbc_commands :: scsi_command_table where
  "scsi_sbc_commands = scsi_sbc_commands_low @ scsi_sbc_commands_high"

section \<open>Calling a command\<close>

definition table_func :: "scsi_command_table \<Rightarrow> u8 \<Rightarrow> scsi_command option" where
  "table_func tbl opcode = map_option fst (map_of tbl opcode)"

lemma table_funcE:
  assumes "table_func tbl op = Some f"
  obtains n dir where "(op, f, n, dir) \<in> set tbl"
  using assms by (auto simp: table_func_def dest: map_of_SomeD)

text \<open>The call \<open>(*(ld->cmds[opcode].func))(td, ld, cdb, data, &data_size, &status)\<close>.\<close>

fun call_command :: "string \<Rightarrow> scsi_command \<Rightarrow> target_data \<Rightarrow> bytes \<Rightarrow> scsi_io \<Rightarrow> scsi_io res" where
  "call_command stamp Spc_report_luns td cdb io = spc_report_luns td cdb io"
| "call_command stamp Spc_test_unit_ready td cdb io = spc_test_unit_ready io"
| "call_command stamp Spc_request_sense td cdb io = spc_request_sense cdb io"
| "call_command stamp Spc_mode_sense6 td cdb io = spc_mode_sense6 cdb io"
| "call_command stamp Spc_mode_sense10 td cdb io = spc_mode_sense10 io"
| "call_command stamp Spc_mode_select10 td cdb io = spc_mode_select10 io"
| "call_command stamp Spc_prevent_allow_media_removal td cdb io = spc_prevent_allow_media_removal io"
| "call_command stamp Spc_persistent_reserve_in td cdb io = spc_persistent_reserve_in cdb io"
| "call_command stamp Spc_persistent_reserve_out td cdb io = spc_persistent_reserve_out cdb io"
| "call_command stamp Spc_inquiry td cdb io = spc_inquiry cdb io"
| "call_command stamp Mmc_read_buffer_capacity td cdb io = mmc_read_buffer_capacity cdb io"
| "call_command stamp Mmc_synchronize_cache td cdb io = mmc_synchronize_cache io"
| "call_command stamp Mmc_reserve_track td cdb io = mmc_reserve_track io"
| "call_command stamp Mmc_read_disc_information td cdb io = mmc_read_disc_information cdb io"
| "call_command stamp Mmc_read_track_information td cdb io = mmc_read_track_information cdb io"
| "call_command stamp Mmc_prevent_allow_media_removal td cdb io = mmc_prevent_allow_media_removal io"
| "call_command stamp Mmc_start_stop_unit td cdb io = mmc_start_stop_unit stamp io"
| "call_command stamp Mmc_set_cd_speed td cdb io = mmc_set_cd_speed io"
| "call_command stamp Mmc_set_streaming td cdb io = mmc_set_streaming io"
| "call_command stamp Mmc_read_toc td cdb io = mmc_read_toc cdb io"
| "call_command stamp Mmc_get_performance td cdb io = mmc_get_performance cdb io"
| "call_command stamp Mmc_read_dvd_structure td cdb io = mmc_read_dvd_structure cdb io"
| "call_command stamp Mmc_report_key td cdb io = mmc_report_key cdb io"
| "call_command stamp Mmc_get_configuration td cdb io = mmc_get_configuration cdb io"
| "call_command stamp Sbc_verify10 td cdb io = sbc_verify10 io"
| "call_command stamp Sbc_verify12 td cdb io = sbc_verify12 io"
| "call_command stamp Sbc_verify16 td cdb io = sbc_verify16 io"
| "call_command stamp Sbc_read_capacity10 td cdb io = sbc_read_capacity10 io"
| "call_command stamp Sbc_read10 td cdb io = sbc_read10 cdb io"
| "call_command stamp Sbc_write12 td cdb io = sbc_write12 cdb io"
| "call_command stamp Sbc_write10 td cdb io = sbc_write10 cdb io"
| "call_command stamp Sbc_write6 td cdb io = sbc_write6 cdb io"

section \<open>A disk\<close>

text \<open>
  A logical unit as \<open>add_lun\<close> leaves it for a disk below 2 GB: the stream is open for writing and
  the image has the size of the unit.
\<close>

definition hd_ok :: "fs \<Rightarrow> lun_data \<Rightarrow> bool" where
  "hd_ok fs ld \<longleftrightarrow> ld_cmds ld = Some scsi_sbc_commands \<and> ld_block_size ld = 512
     \<and> 0 \<le> ld_lunsizeinmb ld \<and> ld_lunsizeinmb ld < 2048
     \<and> (case ld_fh ld of None \<Rightarrow> False | Some h \<Rightarrow> fh_writable h
          \<and> length (fs_data fs (fh_ino h)) = nat (ld_lunsizeinmb ld * 1048576))"

definition unit_image :: "fs \<Rightarrow> lun_data \<Rightarrow> bytes" where
  "unit_image fs ld = (case ld_fh ld of None \<Rightarrow> [] | Some h \<Rightarrow> fs_data fs (fh_ino h))"

definition unit_ino :: "lun_data \<Rightarrow> nat option" where
  "unit_ino ld = map_option fh_ino (ld_fh ld)"

text \<open>
  What a command keeps: the size of the data buffer, the unit apart from its stream's position, the
  size of its image, and every other file.
\<close>

definition keeps_unit :: "scsi_io \<Rightarrow> scsi_io \<Rightarrow> bool" where
  "keeps_unit io io' \<longleftrightarrow> length (io_data io') = length (io_data io)
     \<and> fs_dir (io_fs io') = fs_dir (io_fs io) \<and> fs_next (io_fs io') = fs_next (io_fs io)
     \<and> fs_denied (io_fs io') = fs_denied (io_fs io)
     \<and> (\<forall>i. Some i \<noteq> unit_ino (io_ld io) \<longrightarrow> fs_data (io_fs io') i = fs_data (io_fs io) i)
     \<and> length (unit_image (io_fs io') (io_ld io)) = length (unit_image (io_fs io) (io_ld io))
     \<and> (\<exists>h. io_ld io' = (io_ld io)\<lparr>ld_fh := h\<rparr>
          \<and> map_option (\<lambda>h. (fh_ino h, fh_writable h)) h = map_option (\<lambda>h. (fh_ino h, fh_writable h)) (ld_fh (io_ld io)))"

lemma keeps_unit_refl [simp]: "keeps_unit io io"
  by (auto simp: keeps_unit_def intro: exI [where x = "ld_fh (io_ld io)"])

lemma keeps_unit_data [simp]:
  assumes "io_fs io' = io_fs io" and "io_ld io' = io_ld io"
  shows "keeps_unit io io' \<longleftrightarrow> length (io_data io') = length (io_data io)"
  using assms by (auto simp: keeps_unit_def intro: exI [where x = "ld_fh (io_ld io)"])

lemma unit_image_fh: "unit_image fs (ld\<lparr>ld_fh := h\<rparr>) = (case h of None \<Rightarrow> [] | Some h \<Rightarrow> fs_data fs (fh_ino h))"
  by (simp add: unit_image_def)

lemma keeps_unit_ino: "keeps_unit io io' \<Longrightarrow> unit_ino (io_ld io') = unit_ino (io_ld io)"
  by (cases "ld_fh (io_ld io)") (auto simp: keeps_unit_def unit_ino_def)

lemma unit_image_ino: "unit_image fs ld = (case unit_ino ld of None \<Rightarrow> [] | Some i \<Rightarrow> fs_data fs i)"
  by (simp add: unit_image_def unit_ino_def split: option.splits)

lemma keeps_unit_trans:
  assumes "keeps_unit io io'" and "keeps_unit io' io''"
  shows "keeps_unit io io''"
  using assms keeps_unit_ino [OF assms(1)] unfolding keeps_unit_def unit_image_ino by auto

text \<open>A command that returns and keeps the unit.\<close>

definition runs_safely :: "(scsi_io \<Rightarrow> scsi_io res) \<Rightarrow> scsi_io \<Rightarrow> bool" where
  "runs_safely f io \<longleftrightarrow> (\<exists>io'. f io = Inr io' \<and> keeps_unit io io')"

named_theorems safe_intros "how commands that run safely are put together"

lemma safe_finish [safe_intros]: "runs_safely (finish_cmd n st) io" "runs_safely check_condition io" "runs_safely Inr io"
  by (simp_all add: runs_safely_def finish_cmd_def check_condition_def)

lemma safe_put [safe_intros]: "off + length bs \<le> length (io_data io) \<Longrightarrow> runs_safely (put_data off bs) io"
  by (simp add: runs_safely_def put_data_ok)

lemma safe_clear [safe_intros]: "n \<le> length (io_data io) \<Longrightarrow> runs_safely (clear_data n) io"
  by (simp add: runs_safely_def clear_data_ok)

lemma safe_illegal [safe_intros]: "28 \<le> length (io_data io) \<Longrightarrow> runs_safely ILLEGAL_REQUEST io"
  by (simp add: runs_safely_def ILLEGAL_REQUEST_def put_data_ok)

lemma safe_then [safe_intros]:
  assumes "runs_safely f io" and "\<And>io'. keeps_unit io io' \<Longrightarrow> length (io_data io') = length (io_data io) \<Longrightarrow> runs_safely g io'"
  shows "runs_safely (\<lambda>io. and_then (f io) g) io"
proof -
  obtain io1 where io1: "f io = Inr io1" "keeps_unit io io1" using assms(1) by (auto simp: runs_safely_def)
  have "length (io_data io1) = length (io_data io)" using io1(2) by (simp add: keeps_unit_def)
  from assms(2) [OF io1(2) this] obtain io2 where "g io1 = Inr io2" "keeps_unit io1 io2" by (auto simp: runs_safely_def)
  with io1 show ?thesis using keeps_unit_trans by (auto simp: runs_safely_def)
qed

lemma safe_if [safe_intros]:
  "(b \<Longrightarrow> runs_safely f io) \<Longrightarrow> (\<not> b \<Longrightarrow> runs_safely g io) \<Longrightarrow> runs_safely (\<lambda>io. if b then f io else g io) io"
  by (simp add: runs_safely_def)

lemma unat_u16_less: "unat (w :: u16) < 65536"
  using unsigned_less [of w] by simp

lemma unat_u16_le: "65536 \<le> n \<Longrightarrow> unat (w :: u16) \<le> n"
  using unat_u16_less [of w] by simp

text \<open>The commands that only fill in the data buffer.\<close>

lemma safe_plain:
  assumes "65536 \<le> length (io_data io)"
  shows "runs_safely spc_test_unit_ready io" "runs_safely (spc_request_sense cdb) io" "runs_safely spc_mode_select10 io"
    "runs_safely spc_prevent_allow_media_removal io" "runs_safely sbc_verify10 io" "runs_safely sbc_verify12 io"
    "runs_safely sbc_verify16 io" "runs_safely (spc_persistent_reserve_out cdb) io"
  using assms
  by (auto simp: spc_test_unit_ready_def [abs_def] spc_mode_select10_def [abs_def] spc_prevent_allow_media_removal_def [abs_def]
      sbc_verify10_def [abs_def] sbc_verify12_def [abs_def] sbc_verify16_def [abs_def] spc_request_sense_def [abs_def]
      spc_persistent_reserve_out_def [abs_def] Let_def sense_is_ok_def intro!: safe_intros)

lemma safe_mode_sense6:
  assumes "65536 \<le> length (io_data io)"
  shows "runs_safely (spc_mode_sense6 cdb) io"
  using assms
  by (simp add: runs_safely_def spc_mode_sense6_def mode_sense_other_def Let_def put_data_ok clear_data_ok length_mode_pages finish_cmd_def)

lemma safe_reserve_in:
  assumes "65536 \<le> length (io_data io)"
  shows "runs_safely (spc_persistent_reserve_in cdb) io"
  unfolding spc_persistent_reserve_in_def [abs_def] Let_def
  by (intro safe_intros unat_u16_le) (use assms in auto)

lemma safe_inquiry:
  assumes "65536 \<le> length (io_data io)"
  shows "runs_safely (spc_inquiry cdb) io"
proof -
  have "unat (cdb_be16 cdb 3) \<le> length (io_data io)" by (rule unat_u16_le [OF assms])
  with assms show ?thesis
    by (simp add: runs_safely_def spc_inquiry_def Let_def put_data_ok clear_data_ok finish_cmd_def check_condition_def standard_inquiry_def)
qed

lemma report_each_safe:
  assumes "alloc_len < length (io_data io)"
  shows "\<exists>io' m. report_each alloc_len k ls io = Inr (io', m) \<and> keeps_unit io io'"
  using assms
proof (induction ls arbitrary: k io)
  case Nil
  then show ?case by simp
next
  case (Cons l ls)
  show ?case
  proof (cases "8 + 1 + k * 8 \<le> alloc_len")
    case True
    let ?io = "io\<lparr>io_data := patch (9 + k * 8) [ld_lun l] (io_data io)\<rparr>"
    have "alloc_len < length (io_data ?io)" using Cons.prems True by simp
    from Cons.IH [OF this, of "k + 1"] Cons.prems True keeps_unit_trans [of io ?io] show ?thesis
      by (fastforce simp: put_data_ok)
  next
    case False
    with Cons show ?thesis by simp
  qed
qed

lemma safe_report_luns:
  assumes "65536 \<le> length (io_data io)" and "io_size io < int (length (io_data io))"
  shows "runs_safely (spc_report_luns td cdb) io"
proof (cases "int (unat (cdb_be32 cdb 6)) > io_size io")
  case True
  then show ?thesis by (simp add: runs_safely_def spc_report_luns_def Let_def check_condition_def)
next
  case False
  let ?n = "unat (cdb_be32 cdb 6)"
  have n: "?n < length (io_data io)" using False assms(2) by linarith
  let ?io = "io\<lparr>io_size := int ?n, io_data := patch 0 (replicate ?n 0) (io_data io)\<rparr>"
  obtain io' m where r: "report_each ?n 0 (td_luns td) ?io = Inr (io', m)" "keeps_unit ?io io'"
    using report_each_safe [of ?n ?io 0 "td_luns td"] n by (simp del: of_nat_unat) blast
  have k: "keeps_unit io io'" by (rule keeps_unit_trans [OF _ r(2)]) (use n in simp)
  have l: "length (io_data io') = length (io_data io)" using k by (simp add: keeps_unit_def)
  have "keeps_unit io (io'\<lparr>io_data := d, io_status := 0\<rparr>)" if "length d = length (io_data io')" for d
    by (rule keeps_unit_trans [OF k]) (use that in simp)
  with False r n l assms(1) show ?thesis
    by (simp add: runs_safely_def spc_report_luns_def Let_def clear_data_ok put_data_ok)
qed

section \<open>Transfers on a stream\<close>

text \<open>The bytes a unit has, and the bytes a command addresses.\<close>

definition unit_bytes :: "lun_data \<Rightarrow> nat" where
  "unit_bytes ld = nat (ld_lunsizeinmb ld * 1048576)"

text \<open>A command leaves the unit's stream on its inode and open as it was; only its position moves.\<close>

definition same_stream :: "handle \<Rightarrow> handle \<Rightarrow> bool" where
  "same_stream h h' \<longleftrightarrow> fh_ino h' = fh_ino h \<and> fh_writable h' = fh_writable h"

text \<open>A unit below 2 GB: the test against its size does not overflow.\<close>

definition small_unit :: "lun_data \<Rightarrow> bool" where
  "small_unit l \<longleftrightarrow> 0 \<le> ld_lunsizeinmb l \<and> ld_lunsizeinmb l < 2048"

lemma beyond_small_unit: "small_unit l \<Longrightarrow> beyond_unit lba len l = Inr (lba + len > unit_bytes l)"
  by (auto simp: small_unit_def beyond_unit_def c_int_def unit_bytes_def)

lemma read_on_stream:
  assumes "ld_fh (io_ld io) = Some h" and "small_unit (io_ld io)"
    and "lba = unat (cdb_be32 cdb 2) * unat (ld_block_size (io_ld io))" and "len = unat (cdb_be16 cdb 7) * unat (ld_block_size (io_ld io))"
    and "lba + len \<le> unit_bytes (io_ld io)" and "lba + len \<le> length (fs_data (io_fs io) (fh_ino h))" and "len \<le> length (io_data io)"
  shows "\<exists>h'. same_stream h h' \<and> sbc_read10 cdb io = Inr (set_fh (Some h')
      (io\<lparr>io_data := patch 0 (segment lba len (fs_data (io_fs io) (fh_ino h))) (io_data io), io_size := int len, io_status := 0\<rparr>))"
  using read_loop_ok [OF assms(6,7)] assms(1-5) beyond_small_unit [OF assms(2)]
  by (auto simp: sbc_read10_def Let_def with_fh_def finish_cmd_def same_stream_def set_fh_def)

lemma write_on_stream:
  assumes "ld_fh (io_ld io) = Some h" and "small_unit (io_ld io)" and "fh_writable h"
    and "lba + len \<le> unit_bytes (io_ld io)" and "len \<le> length (io_data io)"
  shows "\<exists>h'. same_stream h h' \<and> write_blocks lba len io = Inr (set_fh (Some h')
      (io\<lparr>io_fs := (io_fs io)\<lparr>fs_data := (fs_data (io_fs io))(fh_ino h := burn lba (segment 0 len (io_data io)) (fs_data (io_fs io) (fh_ino h)))\<rparr>,
        io_size := int len, io_status := 0\<rparr>))"
  using burn_loop [OF assms(3,5), of lba "io_fs io"] assms(1,3,4) beyond_small_unit [OF assms(2)]
  by (auto simp: write_blocks_def with_fh_def finish_cmd_def same_stream_def set_fh_def)

lemma transfer_beyond:
  assumes "small_unit (io_ld io)"
  shows "lba + len > unit_bytes (io_ld io) \<Longrightarrow> write_blocks lba len io = Inr (io\<lparr>io_status := 2\<rparr>)"
    and "(unat (cdb_be32 cdb 2) + unat (cdb_be16 cdb 7)) * unat (ld_block_size (io_ld io)) > unit_bytes (io_ld io)
      \<Longrightarrow> sbc_read10 cdb io = Inr (io\<lparr>io_status := 2\<rparr>)"
  using beyond_small_unit [OF assms] by (simp_all add: write_blocks_def sbc_read10_def check_condition_def Let_def add_mult_distrib)

lemma capacity_on_stream:
  assumes "ld_fh (io_ld io) = Some h" and "ld_block_size (io_ld io) \<noteq> 0" and "12 \<le> length (io_data io)"
  shows "\<exists>h' d. same_stream h h' \<and> sbc_read_capacity10 io
      = Inr (set_fh (Some h') (io\<lparr>io_data := patch 0 d (io_data io), io_size := 8, io_status := 0\<rparr>))
    \<and> length d = 12 \<and> take 8 d = be32_bytes (word_of_int (int (length (fs_data (io_fs io) (fh_ino h))) div uint (ld_block_size (io_ld io)) - 1))
          @ be32_bytes (ucast (ld_block_size (io_ld io)))"
proof -
  let ?h = "fseek_end (io_fs io) h"
  let ?a = "be32_bytes (word_of_int (int (length (fs_data (io_fs io) (fh_ino h))) div uint (ld_block_size (io_ld io)) - 1))"
  let ?b = "be32_bytes (ucast (ld_block_size (io_ld io)))"
  have "patch 4 (?b @ [0, 0, 0, 0]) (patch 0 (?a @ [0, 0, 0, 0]) (patch 0 (replicate 8 0) (io_data io)))
      = patch 0 (?a @ ?b @ [0, 0, 0, 0]) (io_data io)"
    using assms(3) by (simp add: patch_def)
  then have "sbc_read_capacity10 io = Inr (set_fh (Some ?h)
      (io\<lparr>io_data := patch 0 (?a @ ?b @ [0, 0, 0, 0]) (io_data io), io_size := 8, io_status := 0\<rparr>))"
    using assms by (simp add: sbc_read_capacity10_def clear_data_ok put_data_ok with_fh_def Let_def set_fh_def div_blocks_def
        finish_cmd_def ftello_def long_htonl_def fseek_end_def)
  moreover have "same_stream h ?h" by (simp add: same_stream_def fseek_end_def)
  ultimately show ?thesis by (intro exI [of _ ?h] exI [of _ "?a @ ?b @ [0, 0, 0, 0]"]) simp
qed

section \<open>Transfers on a disk\<close>

lemma hd_okD:
  assumes "hd_ok fs ld"
  obtains h where "ld_fh ld = Some h" and "fh_writable h" and "length (fs_data fs (fh_ino h)) = unit_bytes ld"
    and "ld_block_size ld = 512" and "unit_image fs ld = fs_data fs (fh_ino h)" and "unit_ino ld = Some (fh_ino h)"
  using assms by (auto simp: hd_ok_def unit_bytes_def unit_image_def unit_ino_def split: option.splits)

lemma hd_small: "hd_ok fs ld \<Longrightarrow> small_unit ld"
  by (simp add: hd_ok_def small_unit_def)

lemma keeps_unit_stream:
  assumes "ld_fh (io_ld io) = Some h" and "same_stream h h'" and "io_fs io' = io_fs io" and "io_ld io' = io_ld io"
    and "length (io_data io') = length (io_data io)"
  shows "keeps_unit io (set_fh (Some h') io')"
  using assms by (auto simp: keeps_unit_def set_fh_def same_stream_def)

lemma keeps_unit_hd: "keeps_unit io io' \<Longrightarrow> hd_ok (io_fs io) (io_ld io) \<Longrightarrow> hd_ok (io_fs io') (io_ld io')"
  by (cases "ld_fh (io_ld io)") (auto simp: keeps_unit_def hd_ok_def unit_image_def)

text \<open>A read of \<open>len\<close> bytes at \<open>lba\<close>, inside the unit and the data buffer.\<close>

lemma read10_inside:
  assumes "hd_ok (io_fs io) (io_ld io)" and "lba = unat (cdb_be32 cdb 2) * 512" and "len = unat (cdb_be16 cdb 7) * 512"
    and "lba + len \<le> unit_bytes (io_ld io)" and "len \<le> length (io_data io)"
  shows "\<exists>io'. sbc_read10 cdb io = Inr io' \<and> keeps_unit io io' \<and> io_fs io' = io_fs io \<and> io_status io' = 0
    \<and> io_size io' = int len \<and> io_data io' = patch 0 (segment lba len (unit_image (io_fs io) (io_ld io))) (io_data io)"
proof -
  obtain h where h: "ld_fh (io_ld io) = Some h" "fh_writable h" "length (fs_data (io_fs io) (fh_ino h)) = unit_bytes (io_ld io)"
      "ld_block_size (io_ld io) = 512" "unit_image (io_fs io) (io_ld io) = fs_data (io_fs io) (fh_ino h)"
      "unit_ino (io_ld io) = Some (fh_ino h)"
    using hd_okD [OF assms(1)] .
  obtain h' where h': "same_stream h h'" "sbc_read10 cdb io = Inr (set_fh (Some h')
      (io\<lparr>io_data := patch 0 (segment lba len (fs_data (io_fs io) (fh_ino h))) (io_data io), io_size := int len, io_status := 0\<rparr>))"
    using read_on_stream [OF h(1) hd_small [OF assms(1)], of lba cdb len] assms(2-5) h(3,4) by auto
  then show ?thesis
    using keeps_unit_stream [OF h(1) h'(1)] assms(4,5) h(3,5) by (simp add: set_fh_def)
qed

lemma read10_beyond:
  assumes "hd_ok (io_fs io) (io_ld io)"
    and "unat (cdb_be32 cdb 2) * 512 + unat (cdb_be16 cdb 7) * 512 > unit_bytes (io_ld io)"
  shows "sbc_read10 cdb io = Inr (io\<lparr>io_status := 2\<rparr>)"
  using transfer_beyond(2) [OF hd_small [OF assms(1)]] assms by (simp add: hd_ok_def add_mult_distrib)

text \<open>A write: the image is overwritten at \<open>lba\<close>, and nothing else in the file system changes.\<close>

definition update_file :: "nat \<Rightarrow> bytes \<Rightarrow> fs \<Rightarrow> fs" where
  "update_file i bs fs = fs\<lparr>fs_data := (fs_data fs)(i := bs)\<rparr>"

lemma write_inside:
  assumes "hd_ok (io_fs io) (io_ld io)" and "lba + len \<le> unit_bytes (io_ld io)" and "len \<le> length (io_data io)"
  shows "\<exists>io'. write_blocks lba len io = Inr io' \<and> keeps_unit io io' \<and> io_data io' = io_data io \<and> io_status io' = 0
    \<and> io_size io' = int len
    \<and> io_fs io' = update_file (the (unit_ino (io_ld io))) (write_at lba (segment 0 len (io_data io)) (unit_image (io_fs io) (io_ld io))) (io_fs io)"
proof -
  obtain h where h: "ld_fh (io_ld io) = Some h" "fh_writable h" "length (fs_data (io_fs io) (fh_ino h)) = unit_bytes (io_ld io)"
      "ld_block_size (io_ld io) = 512" "unit_image (io_fs io) (io_ld io) = fs_data (io_fs io) (fh_ino h)"
      "unit_ino (io_ld io) = Some (fh_ino h)"
    using hd_okD [OF assms(1)] .
  let ?img = "write_at lba (segment 0 len (io_data io)) (fs_data (io_fs io) (fh_ino h))"
  let ?fs = "update_file (fh_ino h) ?img (io_fs io)"
  obtain h' where h': "same_stream h h'"
      "write_blocks lba len io = Inr (set_fh (Some h') (io\<lparr>io_fs := ?fs, io_size := int len, io_status := 0\<rparr>))"
    using write_on_stream [OF h(1) hd_small [OF assms(1)] h(2) assms(2,3)] assms(2,3) h(3) by (auto simp: update_file_def burn_inside)
  let ?io = "set_fh (Some h') (io\<lparr>io_fs := ?fs, io_size := int len, io_status := 0\<rparr>)"
  have "length ?img = length (fs_data (io_fs io) (fh_ino h))"
    using assms(2,3) h(3) by (simp add: write_at_inside)
  then have "keeps_unit io ?io"
    using h h' by (auto simp: keeps_unit_def set_fh_def update_file_def unit_image_def same_stream_def)
  then show ?thesis using h h'(2) by (simp add: set_fh_def)
qed

lemma write_beyond:
  assumes "hd_ok (io_fs io) (io_ld io)" and "lba + len > unit_bytes (io_ld io)"
  shows "write_blocks lba len io = Inr (io\<lparr>io_status := 2\<rparr>)"
  using transfer_beyond(1) [OF hd_small [OF assms(1)]] assms(2) by simp

lemma capacity_ok:
  assumes "hd_ok (io_fs io) (io_ld io)" and "12 \<le> length (io_data io)"
  shows "\<exists>io'. sbc_read_capacity10 io = Inr io' \<and> keeps_unit io io' \<and> io_fs io' = io_fs io \<and> io_status io' = 0
    \<and> io_size io' = 8 \<and> segment 0 8 (io_data io')
        = be32_bytes (word_of_int (int (unit_bytes (io_ld io)) div 512 - 1)) @ be32_bytes 512"
proof -
  obtain h where h: "ld_fh (io_ld io) = Some h" "fh_writable h" "length (fs_data (io_fs io) (fh_ino h)) = unit_bytes (io_ld io)"
      "ld_block_size (io_ld io) = 512" "unit_image (io_fs io) (io_ld io) = fs_data (io_fs io) (fh_ino h)"
      "unit_ino (io_ld io) = Some (fh_ino h)"
    using hd_okD [OF assms(1)] .
  obtain h' d where h': "same_stream h h'" "length d = 12"
      "sbc_read_capacity10 io = Inr (set_fh (Some h') (io\<lparr>io_data := patch 0 d (io_data io), io_size := 8, io_status := 0\<rparr>))"
      "take 8 d = be32_bytes (word_of_int (int (unit_bytes (io_ld io)) div 512 - 1)) @ be32_bytes 512"
    using capacity_on_stream [OF h(1) _ assms(2)] h(3,4) by auto
  have "segment 0 8 (patch 0 d (io_data io)) = take 8 d" using assms(2) h'(2) by (simp add: patch_def segment_def)
  then show ?thesis
    using keeps_unit_stream [OF h(1) h'(1)] h'(2-4) assms(2) by (simp add: set_fh_def)
qed

end
