(* ===== verification/Target.thy ===== *)
theory Target
  imports Commands
begin

text \<open>
  Targets and logical units, \<open>user/scsi_target.c\<close>: the list of targets, the units of a target, and
  \<open>run_scsi_command\<close>, which looks up the unit and calls the command.  Memory allocation succeeds.
\<close>

section \<open>The list of targets\<close>

definition add_target :: "string \<Rightarrow> int \<Rightarrow> target_data list \<Rightarrow> target_data list \<times> target_data" where
  "add_target targetname targettype targets =
     (let td = \<lparr>td_type = targettype, td_targetname = targetname, td_pt_device = 0, td_luns = []\<rparr>
      in (td # targets, td))"

definition find_target :: "string \<Rightarrow> target_data list \<Rightarrow> target_data option" where
  "find_target targetname targets = find (\<lambda>td. targetname = td_targetname td) targets"

text \<open>The loop over \<open>t->next\<close>, for a list whose head has another name.\<close>

fun unlink_next :: "string \<Rightarrow> target_data list \<Rightarrow> target_data list" where
  "unlink_next targetname (t # u # ts) =
     (if td_targetname u = targetname then t # ts else t # unlink_next targetname (u # ts))"
| "unlink_next targetname ts = ts"

definition delete_target :: "string \<Rightarrow> target_data list \<Rightarrow> target_data list" where
  "delete_target targetname targets = (case targets of
       [] \<Rightarrow> []
     | t # ts \<Rightarrow> if td_targetname t = targetname then ts else unlink_next targetname targets)"

text \<open>
  The names as stacks of targets: adding pushes, finding looks at the top, deleting pops.
\<close>

datatype target_op = Add string int | Find string | Delete string

fun on_targets :: "target_op \<Rightarrow> target_data list \<Rightarrow> (target_data list \<times> target_data option) res" where
  "on_targets (Add n ty) ts = (case add_target n ty ts of (ts', t) \<Rightarrow> Inr (ts', Some t))"
| "on_targets (Find n) ts = Inr (ts, find_target n ts)"
| "on_targets (Delete n) ts = Inr (delete_target n ts, None)"

definition top_of :: "'a list \<Rightarrow> 'a option" where
  "top_of xs = (case xs of [] \<Rightarrow> None | x # _ \<Rightarrow> Some x)"

fun on_stacks :: "target_op \<Rightarrow> (string \<Rightarrow> target_data list) \<Rightarrow> (string \<Rightarrow> target_data list) \<times> target_data option" where
  "on_stacks (Add n ty) f = (let t = \<lparr>td_type = ty, td_targetname = n, td_pt_device = 0, td_luns = []\<rparr> in (f(n := t # f n), Some t))"
| "on_stacks (Find n) f = (f, top_of (f n))"
| "on_stacks (Delete n) f = (f(n := tl (f n)), None)"

definition stacks :: "target_data list \<Rightarrow> string \<Rightarrow> target_data list" where
  "stacks ts n = filter (\<lambda>t. td_targetname t = n) ts"

lemma add_pushes:
  "add_target n ty ts = (\<lparr>td_type = ty, td_targetname = n, td_pt_device = 0, td_luns = []\<rparr> # ts,
     \<lparr>td_type = ty, td_targetname = n, td_pt_device = 0, td_luns = []\<rparr>)"
  "stacks (t # ts) = (stacks ts)(td_targetname t := t # stacks ts (td_targetname t))"
  by (auto simp: add_target_def stacks_def Let_def fun_eq_iff)

lemma find_is_top: "find_target n ts = top_of (stacks ts n)"
  by (induction ts) (auto simp: find_target_def stacks_def top_of_def)

lemma unlink_pops:
  assumes "td_targetname (hd ts) \<noteq> n"
  shows "stacks (unlink_next n ts) m = (if m = n then tl (stacks ts m) else stacks ts m)"
  using assms by (induction n ts rule: unlink_next.induct) (auto simp: stacks_def)

lemma delete_pops: "stacks (delete_target n ts) = (stacks ts)(n := tl (stacks ts n))"
proof
  fix m
  show "stacks (delete_target n ts) m = ((stacks ts)(n := tl (stacks ts n))) m"
    using unlink_pops [of ts n m] by (cases ts) (auto simp: delete_target_def stacks_def)
qed

interpretation target_list: functional_refinement on_targets on_stacks stacks "\<lambda>_. True" "\<lambda>_ _. True"
proof
  show "\<exists>s'. on_targets r s = Inr (s', snd (on_stacks r (stacks s))) \<and> stacks s' = fst (on_stacks r (stacks s)) \<and> True" for r s
    by (cases r) (simp_all add: add_pushes find_is_top delete_pops split_def Let_def)
qed

lemma all_targets: "acceptable on_targets (\<lambda>_ _. True) ops ts"
  by (induction ops arbitrary: ts) (auto split: sum.split)

text \<open>
  C40.  The list of targets is a stack per name.  Any sequence of additions, look-ups and deletions finds
  what stacks of targets, one for each name, give: a look-up finds the target of that name added last,
  a deletion removes that one and uncovers the one before it, wherever it is in the list, and no other
  name notices.
\<close>

theorem target_list_is_stacks:
  "\<exists>ts'. run_outputs on_targets ops ts = Inr (ts', snd (spec_outputs on_stacks ops (stacks ts)))
     \<and> stacks ts' = fst (spec_outputs on_stacks ops (stacks ts))"
  using target_list.run_refines [OF TrueI all_targets] by blast

section \<open>Logical units\<close>

text \<open>
  \<open>add_lun\<close>.  \<open>l\<close> is what \<open>malloc\<close> returns: a unit with whatever was in that memory;
  \<open>stamp\<close> is the time as a string.  A hard disk leaves \<open>current_profile\<close> as it finds it.
\<close>

definition open_disk :: "string \<Rightarrow> fs \<Rightarrow> fs \<times> handle option" where
  "open_disk lunfile fs = (case fopen_r_plus lunfile fs of
       Some h \<Rightarrow> (fs, Some h)
     | None \<Rightarrow> fopen_w_plus lunfile fs)"

definition truncate_off_t :: "string \<Rightarrow> int \<Rightarrow> fs \<Rightarrow> fs" where
  "truncate_off_t lunfile n fs = (if n < 0 then fs else truncate_file lunfile (nat n) fs)"

definition link_lun :: "int \<Rightarrow> int \<Rightarrow> int \<Rightarrow> lun_data \<Rightarrow> target_data \<Rightarrow> target_data \<times> lun_data" where
  "link_lun lun luntype lunsizeinmb l t =
     (let l' = l\<lparr>ld_lun := of_int lun, ld_luntype := luntype, ld_lunsizeinmb := lunsizeinmb\<rparr>
      in (t\<lparr>td_luns := l' # td_luns t\<rparr>, l'))"

definition add_lun ::
  "string \<Rightarrow> lun_data \<Rightarrow> target_data \<Rightarrow> int \<Rightarrow> string \<Rightarrow> int \<Rightarrow> int \<Rightarrow> fs
     \<Rightarrow> fs \<times> target_data \<times> lun_data option" where
  "add_lun stamp l t lun lunfile luntype lunsizeinmb fs =
     (let lunsize = lunsizeinmb * 1024 * 1024
      in if luntype = LUN_TYPE_HD then
           (let l = l\<lparr>ld_device_type := 0x00, ld_is_blank := 0, ld_block_size := 512, ld_vendor := ''VirtualHD'',
                      ld_productid := ''VHD'', ld_revision := ''0'', ld_serial_number := stamp,
                      ld_cmds := Some scsi_sbc_commands, ld_filename := lunfile\<rparr>;
                (fs', fh) = open_disk lunfile fs
            in case fh of
                 None \<Rightarrow> (fs', t, None)
               | Some h \<Rightarrow> (let (t', l') = link_lun lun luntype lunsizeinmb (l\<lparr>ld_fh := Some h\<rparr>) t
                   in (truncate_off_t lunfile lunsize fs', t', Some l')))
         else if luntype = LUN_TYPE_DVD_R then
           (let l = l\<lparr>ld_device_type := 0x05, ld_current_profile := 0x0011, ld_is_blank := 1, ld_block_size := 2048,
                      ld_vendor := ''VirtualDVDR'', ld_productid := ''VdR'', ld_revision := ''0'', ld_serial_number := stamp,
                      ld_cmds := Some scsi_mmc_commands, ld_filename := lunfile\<rparr>;
                (fs', fh) = fopen_w_plus lunfile fs
            in case fh of
                 None \<Rightarrow> (fs', t, None)
               | Some h \<Rightarrow> (let (t', l') = link_lun lun luntype lunsizeinmb (l\<lparr>ld_fh := Some h\<rparr>) t in (fs', t', Some l')))
         else if luntype = LUN_TYPE_DVD_ROM then
           (let l = l\<lparr>ld_device_type := 0x05, ld_current_profile := 0x0010, ld_is_blank := 0, ld_block_size := 2048,
                      ld_vendor := ''VirtualDVDROM'', ld_productid := ''VdROM'', ld_revision := ''0'', ld_serial_number := stamp,
                      ld_cmds := Some scsi_mmc_commands, ld_filename := lunfile\<rparr>
            in case fopen_r lunfile fs of
                 None \<Rightarrow> (fs, t, None)
               | Some h \<Rightarrow> (let (t', l') = link_lun lun luntype lunsizeinmb (l\<lparr>ld_fh := Some h\<rparr>) t in (fs, t', Some l')))
         else (let (t', l') = link_lun lun luntype lunsizeinmb l t in (fs, t', Some l')))"

section \<open>Running a command\<close>

text \<open>The unit that stands in for a missing LUN 0 is a zeroed global: it has no command table.\<close>

definition DUMMY_LUN_0 :: lun_data where
  "DUMMY_LUN_0 = \<lparr>ld_device_type = 0, ld_block_size = 0, ld_vendor = [], ld_productid = [], ld_revision = [],
     ld_serial_number = [], ld_lun = 0, ld_luntype = 0, ld_lunsizeinmb = 0, ld_filename = [], ld_fh = None,
     ld_cmds = None, ld_is_blank = 0, ld_current_profile = 0\<rparr>"

definition find_lun :: "target_data \<Rightarrow> u8 \<Rightarrow> lun_data option" where
  "find_lun td lun = (case find (\<lambda>l. ld_lun l = lun) (td_luns td) of
       Some l \<Rightarrow> Some l
     | None \<Rightarrow> if lun = 0 then Some DUMMY_LUN_0 else None)"

text \<open>A handler changes the unit in place.\<close>

fun replace_lun :: "lun_data \<Rightarrow> lun_data list \<Rightarrow> lun_data list" where
  "replace_lun l [] = []"
| "replace_lun l (x # xs) = (if ld_lun x = ld_lun l then l # xs else x # replace_lun l xs)"

record engine =
  en_fs :: fs
  en_target :: target_data
  en_data :: bytes

definition run_scsi_command :: "string \<Rightarrow> u8 \<Rightarrow> bytes \<Rightarrow> int \<Rightarrow> engine \<Rightarrow> (engine \<times> u8) res" where
  "run_scsi_command stamp lun cdb data_size e =
     (let td = en_target e; ld = find_lun td lun
      in if td_type td = TARGET_TYPE_EMULATION then
           (case ld of
              None \<Rightarrow> Inl Null_deref
            | Some l \<Rightarrow> (case ld_cmds l of
                None \<Rightarrow> Inl Null_deref
              | Some cmds \<Rightarrow> (case table_func cmds (cdb ! 0) of
                    None \<Rightarrow> Inr (e, 2)
                  | Some f \<Rightarrow>
                      and_then (call_command stamp f td cdb
                          \<lparr>io_fs = en_fs e, io_ld = l, io_data = en_data e, io_size = data_size, io_status = 0\<rparr>) (\<lambda>io.
                        Inr (\<lparr>en_fs = io_fs io, en_target = td\<lparr>td_luns := replace_lun (io_ld io) (td_luns td)\<rparr>,
                              en_data = io_data io\<rparr>, io_status io)))))
         else Inr (e, 0))"

section \<open>A target with disks\<close>

text \<open>The bytes a transfer command moves.\<close>

definition transfer_len :: "bytes \<Rightarrow> nat" where
  "transfer_len cdb =
     (if cdb ! 0 = 0x28 \<or> cdb ! 0 = 0x2a then unat (cdb_be16 cdb 7) * 512
      else if cdb ! 0 = 0xaa then unat (cdb_be32 cdb 6) * 512
      else if cdb ! 0 = 0x0a then unat (cdb ! 4) * 512
      else 0)"

definition transfer_lba :: "bytes \<Rightarrow> nat" where
  "transfer_lba cdb = (if cdb ! 0 = 0x0a then unat (cdb_be16 cdb 2) * 512 else unat (cdb_be32 cdb 2) * 512)"

lemma sbc_table_cases:
  assumes "table_func scsi_sbc_commands op = Some f"
  shows "(op, f) \<in> set [(0x00, Spc_test_unit_ready), (0x03, Spc_request_sense), (0x0a, Sbc_write6), (0x12, Spc_inquiry),
    (0x1a, Spc_mode_sense6), (0x1e, Spc_prevent_allow_media_removal), (0x25, Sbc_read_capacity10), (0x28, Sbc_read10),
    (0x2a, Sbc_write10), (0x2f, Sbc_verify10), (0x55, Spc_mode_select10), (0x5e, Spc_persistent_reserve_in),
    (0x5f, Spc_persistent_reserve_out), (0x8f, Sbc_verify16), (0xa0, Spc_report_luns), (0xaa, Sbc_write12), (0xaf, Sbc_verify12)]"
proof -
  obtain n dir where "(op, f, n, dir) \<in> set scsi_sbc_commands" using assms by (rule table_funcE)
  then show ?thesis
    unfolding scsi_sbc_commands_def scsi_sbc_commands_low_def scsi_sbc_commands_high_def append_Cons append_Nil set_simps insert_iff
    by (elim disjE) simp_all
qed

lemma writes_as_blocks:
  assumes "hd_ok (io_fs io) (io_ld io)"
  shows "cdb ! 0 = 0x2a \<Longrightarrow> sbc_write10 cdb io = write_blocks (transfer_lba cdb) (transfer_len cdb) io"
    and "cdb ! 0 = 0xaa \<Longrightarrow> sbc_write12 cdb io = write_blocks (transfer_lba cdb) (transfer_len cdb) io"
    and "cdb ! 0 = 0x0a \<Longrightarrow> sbc_write6 cdb io = write_blocks (transfer_lba cdb) (transfer_len cdb) io"
proof -
  have "ld_block_size (io_ld io) = 512" using assms by (simp add: hd_ok_def)
  then show "cdb ! 0 = 0x2a \<Longrightarrow> sbc_write10 cdb io = write_blocks (transfer_lba cdb) (transfer_len cdb) io"
    and "cdb ! 0 = 0xaa \<Longrightarrow> sbc_write12 cdb io = write_blocks (transfer_lba cdb) (transfer_len cdb) io"
    and "cdb ! 0 = 0x0a \<Longrightarrow> sbc_write6 cdb io = write_blocks (transfer_lba cdb) (transfer_len cdb) io"
    by (simp_all add: sbc_write10_def sbc_write12_def sbc_write6_def transfer_len_def transfer_lba_def Let_def)
qed

lemma safe_write:
  assumes "hd_ok (io_fs io) (io_ld io)" and "len \<le> length (io_data io)"
  shows "runs_safely (write_blocks lba len) io"
  using write_inside [OF assms(1) _ assms(2)] write_beyond [OF assms(1), of lba len]
  by (cases "lba + len \<le> unit_bytes (io_ld io)") (auto simp: runs_safely_def)

lemma safe_read10:
  assumes "hd_ok (io_fs io) (io_ld io)" and "unat (cdb_be16 cdb 7) * 512 \<le> length (io_data io)"
  shows "runs_safely (sbc_read10 cdb) io"
  using read10_inside [OF assms(1) refl refl _ assms(2)] read10_beyond [OF assms(1), of cdb]
  by (cases "unat (cdb_be32 cdb 2) * 512 + unat (cdb_be16 cdb 7) * 512 \<le> unit_bytes (io_ld io)") (auto simp: runs_safely_def)

text \<open>Every command of the disk table runs safely on a disk.\<close>

lemma disk_command_safe:
  assumes "table_func scsi_sbc_commands (cdb ! 0) = Some f" and "hd_ok (io_fs io) (io_ld io)"
    and "65536 \<le> length (io_data io)" and "io_size io < int (length (io_data io))" and "transfer_len cdb \<le> length (io_data io)"
  shows "runs_safely (call_command stamp f td cdb) io"
proof -
  note plain = safe_plain [OF assms(3)] safe_mode_sense6 [OF assms(3)] safe_reserve_in [OF assms(3)] safe_inquiry [OF assms(3)]
    safe_report_luns [OF assms(3,4)]
  have cap: "runs_safely sbc_read_capacity10 io"
    using capacity_ok [OF assms(2)] assms(3) by (auto simp: runs_safely_def)
  have rd: "cdb ! 0 = 0x28 \<Longrightarrow> runs_safely (sbc_read10 cdb) io"
    using safe_read10 [OF assms(2), of cdb] assms(5) by (simp add: transfer_len_def)
  have wr: "cdb ! 0 = 0x2a \<Longrightarrow> runs_safely (sbc_write10 cdb) io" "cdb ! 0 = 0xaa \<Longrightarrow> runs_safely (sbc_write12 cdb) io"
    "cdb ! 0 = 0x0a \<Longrightarrow> runs_safely (sbc_write6 cdb) io"
    using safe_write [OF assms(2,5), of "transfer_lba cdb"] writes_as_blocks [OF assms(2)] by (simp_all add: runs_safely_def)
  show ?thesis
    using sbc_table_cases [OF assms(1)] plain cap rd wr by (auto simp: runs_safely_def)
qed

end
