(* ===== verification/Engine.thy ===== *)
theory Engine
  imports Target
begin

text \<open>
  What the SCSI engine does: the theorems about \<open>run_scsi_command\<close> for targets whose units are
  disks, and the inputs it does not survive.
\<close>

section \<open>Targets of disks\<close>

text \<open>
  The target \<open>main\<close> sets up: disks with distinct numbers, on distinct images.
\<close>

definition disk_target :: "engine \<Rightarrow> bool" where
  "disk_target e \<longleftrightarrow> td_type (en_target e) = TARGET_TYPE_EMULATION
     \<and> distinct (map ld_lun (td_luns (en_target e))) \<and> distinct (map unit_ino (td_luns (en_target e)))
     \<and> (\<forall>l\<in>set (td_luns (en_target e)). hd_ok (en_fs e) l)"

definition unit_of :: "engine \<Rightarrow> u8 \<Rightarrow> lun_data option" where
  "unit_of e lun = find (\<lambda>l. ld_lun l = lun) (td_luns (en_target e))"

text \<open>The contents of a unit: what a client of the target sees of it.\<close>

definition lun_image :: "engine \<Rightarrow> u8 \<Rightarrow> bytes" where
  "lun_image e lun = (case unit_of e lun of None \<Rightarrow> [] | Some l \<Rightarrow> unit_image (en_fs e) l)"

text \<open>
  A request the transport can carry: the unit exists, the buffer is large enough for what the
  handlers clear and for the transfer.
\<close>

definition request_fits :: "engine \<Rightarrow> u8 \<Rightarrow> bytes \<Rightarrow> int \<Rightarrow> bool" where
  "request_fits e lun cdb sz \<longleftrightarrow> unit_of e lun \<noteq> None \<and> 65536 \<le> length (en_data e)
     \<and> sz < int (length (en_data e)) \<and> transfer_len cdb \<le> length (en_data e)"

text \<open>Targets, units and images do not depend on what the data buffer holds.\<close>

lemma engine_cong:
  assumes "en_fs e = en_fs e'" and "en_target e = en_target e'"
  shows "disk_target e = disk_target e'" and "unit_of e = unit_of e'" and "lun_image e = lun_image e'"
proof -
  show "disk_target e = disk_target e'" using assms by (simp add: disk_target_def)
  show u: "unit_of e = unit_of e'" using assms by (simp add: unit_of_def fun_eq_iff)
  show "lun_image e = lun_image e'" using assms u by (simp add: lun_image_def fun_eq_iff cong: option.case_cong)
qed

lemma unit_ofD: "unit_of e lun = Some l \<Longrightarrow> l \<in> set (td_luns (en_target e)) \<and> ld_lun l = lun"
  by (auto simp: unit_of_def dest: find_SomeD)

lemma replace_lun_split:
  assumes "distinct (map ld_lun ls)" and "l \<in> set ls" and "ld_lun l' = ld_lun l"
  shows "replace_lun l' ls = map (\<lambda>x. if ld_lun x = ld_lun l then l' else x) ls"
  using assms
proof (induction ls)
  case (Cons x xs)
  show ?case
  proof (cases "ld_lun x = ld_lun l")
    case True
    then have "ld_lun y \<noteq> ld_lun l" if "y \<in> set xs" for y
      using Cons.prems(1) that by (auto simp: image_iff)
    then have "map (\<lambda>x. if ld_lun x = ld_lun l then l' else x) xs = xs" by (intro map_idI) auto
    with True Cons.prems(3) show ?thesis by simp
  next
    case False
    with Cons show ?thesis by auto
  qed
qed simp

text \<open>The state after a command that kept its unit.\<close>

lemma disk_target_step:
  assumes "disk_target e" and "unit_of e lun = Some l"
    and "keeps_unit \<lparr>io_fs = en_fs e, io_ld = l, io_data = en_data e, io_size = n, io_status = st\<rparr> io" (is "keeps_unit ?io io")
    and "e' = \<lparr>en_fs = io_fs io, en_target = (en_target e)\<lparr>td_luns := replace_lun (io_ld io) (td_luns (en_target e))\<rparr>, en_data = io_data io\<rparr>"
  shows "disk_target e'" and "length (en_data e') = length (en_data e)" and "unit_of e' lun = Some (io_ld io)"
    and "unit_bytes (io_ld io) = unit_bytes l" and "unit_ino (io_ld io) = unit_ino l"
    and "m \<noteq> lun \<Longrightarrow> unit_of e' m = unit_of e m" and "m \<noteq> lun \<Longrightarrow> lun_image e' m = lun_image e m"
    and "map ld_lun (td_luns (en_target e')) = map ld_lun (td_luns (en_target e))"
proof -
  let ?ls = "td_luns (en_target e)"
  have l: "l \<in> set ?ls" "ld_lun l = lun" using unit_ofD [OF assms(2)] by auto
  have d: "distinct (map ld_lun ?ls)" "distinct (map unit_ino ?ls)" "\<forall>x\<in>set ?ls. hd_ok (en_fs e) x"
    using assms(1) by (auto simp: disk_target_def)
  obtain h where ld: "io_ld io = l\<lparr>ld_fh := h\<rparr>" using assms(3) by (auto simp: keeps_unit_def)
  have lun: "ld_lun (io_ld io) = ld_lun l" and ub: "unit_bytes (io_ld io) = unit_bytes l"
    by (simp_all add: ld unit_bytes_def)
  have ino: "unit_ino (io_ld io) = unit_ino l" using keeps_unit_ino [OF assms(3)] by simp
  have repl: "replace_lun (io_ld io) ?ls = map (\<lambda>x. if ld_lun x = ld_lun l then io_ld io else x) ?ls"
    by (rule replace_lun_split [OF d(1) l(1) lun])
  have k: "ld_lun x = ld_lun l \<longleftrightarrow> x = l" "unit_ino x = unit_ino l \<longleftrightarrow> x = l" if "x \<in> set ?ls" for x
    using distinct_key_eq [OF d(1) that l(1)] distinct_key_eq [OF d(2) that l(1)] by auto
  have m1: "map ld_lun (replace_lun (io_ld io) ?ls) = map ld_lun ?ls" and m2: "map unit_ino (replace_lun (io_ld io) ?ls) = map unit_ino ?ls"
    unfolding repl using lun ino k by auto
  have other: "fs_data (io_fs io) i = fs_data (en_fs e) i" if "unit_ino x = Some i" "x \<in> set ?ls" "x \<noteq> l" for x i
    using assms(3) that k(2) [OF that(2)] by (auto simp: keeps_unit_def)
  have img: "unit_image (io_fs io) x = unit_image (en_fs e) x" if "x \<in> set ?ls" "x \<noteq> l" for x
    using other [OF _ that] by (cases "unit_ino x") (auto simp: unit_image_ino)
  have hd: "hd_ok (io_fs io) x" if "x \<in> set ?ls" "x \<noteq> l" for x
  proof -
    have "hd_ok (en_fs e) x" using d(3) that by simp
    moreover from this obtain hh where "ld_fh x = Some hh" using hd_okD by blast
    ultimately show ?thesis using other [of x "fh_ino hh"] that by (simp add: hd_ok_def unit_ino_def)
  qed
  have "hd_ok (io_fs io) (io_ld io)" using keeps_unit_hd [OF assms(3)] d(3) l(1) by simp
  then have "hd_ok (io_fs io) x" if "x \<in> set (replace_lun (io_ld io) ?ls)" for x
    using that hd k(1) unfolding repl by auto
  then show "disk_target e'"
    using assms(1) m1 m2 d unfolding disk_target_def assms(4) by simp
  show "length (en_data e') = length (en_data e)" using assms(3,4) by (simp add: keeps_unit_def)
  have fnd: "find (\<lambda>x. ld_lun x = m) (map (\<lambda>x. if ld_lun x = ld_lun l then io_ld io else x) ls)
      = (if m = lun \<and> find (\<lambda>x. ld_lun x = m) ls \<noteq> None then Some (io_ld io) else find (\<lambda>x. ld_lun x = m) ls)" for m ls
    using l(2) lun by (induction ls) auto
  show "unit_of e' lun = Some (io_ld io)" using fnd [of lun ?ls] assms(2,4) repl by (simp add: unit_of_def)
  show u: "unit_of e' m = unit_of e m" if "m \<noteq> lun" for m
    using fnd [of m ?ls] assms(4) repl that by (simp add: unit_of_def)
  show "lun_image e' m = lun_image e m" if "m \<noteq> lun" for m
    using u [OF that] assms(4) img l(2) that unit_ofD [of e m]
    by (cases "unit_of e m") (auto simp: lun_image_def)
  show "unit_bytes (io_ld io) = unit_bytes l" "unit_ino (io_ld io) = unit_ino l" by (fact ub ino)+
  show "map ld_lun (td_luns (en_target e')) = map ld_lun (td_luns (en_target e))" using assms(4) m1 by simp
qed

text \<open>Running a command that the disk table has, or does not have.\<close>

lemma run_found:
  assumes "disk_target e" and "unit_of e lun = Some l" and "table_func scsi_sbc_commands (cdb ! 0) = Some f"
    and "call_command stamp f (en_target e) cdb
        \<lparr>io_fs = en_fs e, io_ld = l, io_data = en_data e, io_size = sz, io_status = 0\<rparr> = Inr io"
  shows "run_scsi_command stamp lun cdb sz e =
    Inr (\<lparr>en_fs = io_fs io, en_target = (en_target e)\<lparr>td_luns := replace_lun (io_ld io) (td_luns (en_target e))\<rparr>, en_data = io_data io\<rparr>, io_status io)"
proof -
  have "ld_cmds l = Some scsi_sbc_commands"
    using assms(1) unit_ofD [OF assms(2)] by (auto simp: disk_target_def hd_ok_def)
  with assms show ?thesis
    by (simp add: run_scsi_command_def find_lun_def unit_of_def disk_target_def Let_def)
qed

text \<open>A command that leaves its unit and the files as they are.\<close>

lemma run_plain:
  assumes "disk_target e" and "unit_of e lun = Some l" and "table_func scsi_sbc_commands (cdb ! 0) = Some f"
    and "call_command stamp f (en_target e) cdb
        \<lparr>io_fs = en_fs e, io_ld = l, io_data = en_data e, io_size = sz, io_status = 0\<rparr> = Inr io"
    and "io_fs io = en_fs e" and "io_ld io = l"
  shows "run_scsi_command stamp lun cdb sz e = Inr (e\<lparr>en_data := io_data io\<rparr>, io_status io)"
proof -
  have "replace_lun l (td_luns (en_target e)) = map (\<lambda>x. if ld_lun x = ld_lun l then l else x) (td_luns (en_target e))"
    using assms(1) unit_ofD [OF assms(2)] by (intro replace_lun_split) (auto simp: disk_target_def)
  also have "\<dots> = td_luns (en_target e)"
    using assms(1) unit_ofD [OF assms(2)] distinct_key_eq [of ld_lun "td_luns (en_target e)" _ l]
    by (intro map_idI) (auto simp: disk_target_def)
  finally show ?thesis using run_found [OF assms(1-4)] assms(5,6) by simp
qed

lemma run_unknown:
  assumes "disk_target e" and "unit_of e lun = Some l" and "table_func scsi_sbc_commands (cdb ! 0) = None"
  shows "run_scsi_command stamp lun cdb sz e = Inr (e, 2)"
proof -
  have "ld_cmds l = Some scsi_sbc_commands"
    using assms(1) unit_ofD [OF assms(2)] by (auto simp: disk_target_def hd_ok_def)
  with assms show ?thesis
    by (simp add: run_scsi_command_def find_lun_def unit_of_def disk_target_def Let_def)
qed

lemma disk_request:
  assumes "disk_target e" and "request_fits e lun cdb sz"
  shows "\<exists>e' st. run_scsi_command stamp lun cdb sz e = Inr (e', st) \<and> disk_target e'
    \<and> length (en_data e') = length (en_data e) \<and> (\<forall>m. m \<noteq> lun \<longrightarrow> lun_image e' m = lun_image e m)
    \<and> map ld_lun (td_luns (en_target e')) = map ld_lun (td_luns (en_target e))"
proof -
  obtain l where l: "unit_of e lun = Some l" using assms(2) by (auto simp: request_fits_def)
  show ?thesis
  proof (cases "table_func scsi_sbc_commands (cdb ! 0)")
    case None
    with assms(1) run_unknown [OF assms(1) l None] show ?thesis by auto
  next
    case (Some f)
    let ?io = "\<lparr>io_fs = en_fs e, io_ld = l, io_data = en_data e, io_size = sz, io_status = 0\<rparr>"
    have "hd_ok (io_fs ?io) (io_ld ?io)" using assms(1) unit_ofD [OF l] by (simp add: disk_target_def)
    then have "runs_safely (call_command stamp f (en_target e) cdb) ?io"
      using assms(2) by (intro disk_command_safe [OF Some]) (auto simp: request_fits_def)
    then obtain io where io: "call_command stamp f (en_target e) cdb ?io = Inr io" "keeps_unit ?io io"
      by (auto simp: runs_safely_def)
    from disk_target_step [OF assms(1) l io(2) refl] run_found [OF assms(1) l Some io(1)] show ?thesis by auto
  qed
qed

section \<open>Reading and writing\<close>

lemma unit_image_size:
  assumes "disk_target e" and "unit_of e lun = Some l"
  shows "lun_image e lun = unit_image (en_fs e) l" and "length (lun_image e lun) = unit_bytes l" and "hd_ok (en_fs e) l"
proof -
  show hd: "hd_ok (en_fs e) l" using assms unit_ofD by (auto simp: disk_target_def)
  show "lun_image e lun = unit_image (en_fs e) l" using assms(2) by (simp add: lun_image_def)
  then show "length (lun_image e lun) = unit_bytes l" using hd_okD [OF hd] by metis
qed

lemma unit_image_update:
  assumes "unit_ino l = Some i"
  shows "unit_image (update_file i bs fs) l = bs"
  using assms by (simp add: unit_image_ino update_file_def)

lemma read_entry: "table_func scsi_sbc_commands 0x28 = Some Sbc_read10"
  by (simp add: table_func_def scsi_sbc_commands_def scsi_sbc_commands_low_def scsi_sbc_commands_high_def)

lemma write_entries:
  "table_func scsi_sbc_commands 0x2a = Some Sbc_write10" "table_func scsi_sbc_commands 0xaa = Some Sbc_write12"
  "table_func scsi_sbc_commands 0x0a = Some Sbc_write6"
  by (simp_all add: table_func_def scsi_sbc_commands_def scsi_sbc_commands_low_def scsi_sbc_commands_high_def)

lemma run_read:
  assumes "disk_target e" and "unit_of e lun = Some l" and "cdb ! 0 = 0x28"
    and "transfer_lba cdb + transfer_len cdb \<le> length (lun_image e lun)" and "transfer_len cdb \<le> length (en_data e)"
  shows "\<exists>e'. run_scsi_command stamp lun cdb sz e = Inr (e', 0) \<and> disk_target e' \<and> en_fs e' = en_fs e
    \<and> en_data e' = patch 0 (segment (transfer_lba cdb) (transfer_len cdb) (lun_image e lun)) (en_data e)
    \<and> (\<forall>m. lun_image e' m = lun_image e m) \<and> (\<exists>l'. unit_of e' lun = Some l' \<and> unit_bytes l' = unit_bytes l)"
proof -
  let ?io = "\<lparr>io_fs = en_fs e, io_ld = l, io_data = en_data e, io_size = sz, io_status = 0\<rparr>"
  note u = unit_image_size [OF assms(1,2)]
  have t: "transfer_lba cdb = unat (cdb_be32 cdb 2) * 512" "transfer_len cdb = unat (cdb_be16 cdb 7) * 512"
    using assms(3) by (simp_all add: transfer_lba_def transfer_len_def)
  obtain io where io: "sbc_read10 cdb ?io = Inr io" "keeps_unit ?io io" "io_fs io = en_fs e" "io_status io = 0"
      "io_data io = patch 0 (segment (transfer_lba cdb) (transfer_len cdb) (lun_image e lun)) (en_data e)"
    using read10_inside [of ?io "transfer_lba cdb" cdb "transfer_len cdb"] u assms(4,5) t by auto
  have f: "table_func scsi_sbc_commands (cdb ! 0) = Some Sbc_read10" using read_entry assms(3) by simp
  let ?e = "\<lparr>en_fs = io_fs io, en_target = (en_target e)\<lparr>td_luns := replace_lun (io_ld io) (td_luns (en_target e))\<rparr>, en_data = io_data io\<rparr>"
  note st = disk_target_step [OF assms(1,2) io(2) refl]
  have "lun_image ?e lun = lun_image e lun"
    using st(3,5) io(3) assms(2) by (simp add: lun_image_def unit_image_ino)
  with st(7) have "lun_image ?e m = lun_image e m" for m by (cases "m = lun") auto
  with run_found [OF assms(1,2) f] io st show ?thesis by auto
qed

lemma run_write:
  assumes "disk_target e" and "unit_of e lun = Some l" and "cdb ! 0 \<in> {0x2a, 0xaa, 0x0a}"
    and "transfer_lba cdb + transfer_len cdb \<le> length (lun_image e lun)" and "transfer_len cdb \<le> length (en_data e)"
  shows "\<exists>e'. run_scsi_command stamp lun cdb sz e = Inr (e', 0) \<and> disk_target e' \<and> en_data e' = en_data e
    \<and> lun_image e' lun = write_at (transfer_lba cdb) (segment 0 (transfer_len cdb) (en_data e)) (lun_image e lun)
    \<and> (\<forall>m. m \<noteq> lun \<longrightarrow> lun_image e' m = lun_image e m) \<and> (\<exists>l'. unit_of e' lun = Some l' \<and> unit_bytes l' = unit_bytes l)"
proof -
  let ?io = "\<lparr>io_fs = en_fs e, io_ld = l, io_data = en_data e, io_size = sz, io_status = 0\<rparr>"
  note u = unit_image_size [OF assms(1,2)]
  have hd: "hd_ok (io_fs ?io) (io_ld ?io)" using u(3) by simp
  obtain i where i: "unit_ino l = Some i" using hd_okD [OF u(3)] by metis
  obtain io where io: "write_blocks (transfer_lba cdb) (transfer_len cdb) ?io = Inr io" "keeps_unit ?io io"
      "io_data io = en_data e" "io_status io = 0"
      "io_fs io = update_file i (write_at (transfer_lba cdb) (segment 0 (transfer_len cdb) (en_data e)) (lun_image e lun)) (en_fs e)"
    using write_inside [OF hd, of "transfer_lba cdb" "transfer_len cdb"] u assms(4,5) i by auto
  obtain f where f: "table_func scsi_sbc_commands (cdb ! 0) = Some f" "call_command stamp f (en_target e) cdb ?io = Inr io"
    using assms(3) write_entries writes_as_blocks [OF hd, of cdb] io(1) by auto
  note st = disk_target_step [OF assms(1,2) io(2) refl]
  have "unit_image (io_fs io) (io_ld io) = write_at (transfer_lba cdb) (segment 0 (transfer_len cdb) (en_data e)) (lun_image e lun)"
    using st(5) i unfolding io(5) by (intro unit_image_update) simp
  then show ?thesis
    using run_found [OF assms(1,2) f] io(3,4) st by (auto simp: lun_image_def)
qed

section \<open>Properties of disks\<close>

definition serve :: "string \<Rightarrow> u8 \<times> bytes \<times> int \<Rightarrow> engine \<Rightarrow> engine res" where
  "serve stamp r e = (case r of (lun, cdb, sz) \<Rightarrow> and_then (run_scsi_command stamp lun cdb sz e) (\<lambda>(e', st). Inr e'))"

definition fits :: "engine \<Rightarrow> u8 \<times> bytes \<times> int \<Rightarrow> bool" where
  "fits e r \<longleftrightarrow> (case r of (lun, cdb, sz) \<Rightarrow> request_fits e lun cdb sz)"

text \<open>The units and the size of the data buffer never change, so what fits once always fits.\<close>

definition same_shape :: "engine \<Rightarrow> engine \<Rightarrow> bool" where
  "same_shape e e' \<longleftrightarrow> length (en_data e') = length (en_data e)
     \<and> map ld_lun (td_luns (en_target e')) = map ld_lun (td_luns (en_target e))"

lemma unit_exists: "(\<exists>l. unit_of e lun = Some l) \<longleftrightarrow> lun \<in> set (map ld_lun (td_luns (en_target e)))"
  using find_None_iff [of "\<lambda>l. ld_lun l = lun" "td_luns (en_target e)"] by (fastforce simp: unit_of_def)

lemma fits_same_shape: "same_shape e e' \<Longrightarrow> fits e' r = fits e r"
  by (simp add: fits_def request_fits_def same_shape_def unit_exists split: prod.splits)

lemma serve_ok:
  assumes "disk_target e" and "fits e r"
  shows "\<exists>e'. serve stamp r e = Inr e' \<and> disk_target e' \<and> same_shape e e'"
proof -
  obtain lun cdb sz where r: "r = (lun, cdb, sz)" by (cases r)
  then have "request_fits e lun cdb sz" using assms(2) by (simp add: fits_def)
  from disk_request [OF assms(1) this, of stamp] r show ?thesis by (auto simp: serve_def same_shape_def)
qed

interpretation disk_machine: state_machine "serve stamp" "\<lambda>e r. fits e r" disk_target for stamp
  by unfold_locales (use serve_ok in blast)

lemma all_fit:
  assumes "disk_target e" and "\<forall>r\<in>set rs. fits e r"
  shows "allowed_run (serve stamp) (\<lambda>e r. fits e r) rs e"
  using assms
proof (induction rs arbitrary: e)
  case (Cons r rs)
  obtain e' where "serve stamp r e = Inr e'" "disk_target e'" "same_shape e e'"
    using serve_ok [of e r stamp] Cons.prems by auto
  with Cons show ?case by (simp add: fits_same_shape)
qed simp

text \<open>A target with one disk of 1 MB.\<close>

definition demo_lun :: lun_data where
  "demo_lun = \<lparr>ld_device_type = 0, ld_block_size = 512, ld_vendor = ''VirtualHD'', ld_productid = ''VHD'', ld_revision = ''0'',
     ld_serial_number = ''1'', ld_lun = 0, ld_luntype = 1, ld_lunsizeinmb = 1, ld_filename = ''disk'',
     ld_fh = Some \<lparr>fh_ino = 1, fh_pos = 0, fh_writable = True\<rparr>, ld_cmds = Some scsi_sbc_commands, ld_is_blank = 0,
     ld_current_profile = 0\<rparr>"

definition demo_engine :: "lun_data \<Rightarrow> nat \<Rightarrow> engine" where
  "demo_engine l n = \<lparr>en_fs = \<lparr>fs_dir = [''disk'' \<mapsto> 1], fs_data = (\<lambda>_. replicate n 0), fs_next = 2, fs_denied = (\<lambda>_. False)\<rparr>,
     en_target = \<lparr>td_type = 0, td_targetname = ''t'', td_pt_device = 0, td_luns = [l]\<rparr>,
     en_data = replicate 135162 7\<rparr>"

definition demo_cdb :: "u8 \<Rightarrow> u8 \<Rightarrow> u8 \<Rightarrow> bytes" where
  "demo_cdb op block blocks = [op, 0, 0, 0, 0, block, 0, 0, blocks, 0, 0, 0, 0, 0, 0, 0]"

lemma demo_disk:
  "disk_target (demo_engine demo_lun 1048576)" "unit_of (demo_engine demo_lun 1048576) 0 = Some demo_lun"
  "length (lun_image (demo_engine demo_lun 1048576) 0) = 1048576" "length (en_data (demo_engine l n)) = 135162"
  by (simp_all add: disk_target_def demo_engine_def demo_lun_def hd_ok_def unit_ino_def unit_of_def lun_image_def unit_image_def c_consts)

lemma demo_cdb_fields:
  "demo_cdb op block blocks ! 0 = op"
  "transfer_lba (demo_cdb 0x28 2 1) = 1024" "transfer_len (demo_cdb 0x28 2 1) = 512"
  "transfer_lba (demo_cdb 0x2a 2 1) = 1024" "transfer_len (demo_cdb 0x2a 2 1) = 512"
  "transfer_lba (demo_cdb 0x28 0xff 0xff) = 130560" "transfer_len (demo_cdb 0x28 0xff 0xff) = 130560"
  by (simp_all add: demo_cdb_def transfer_lba_def transfer_len_def cdb_be32_def cdb_be16_def segment_def be32_def be16_def le32_def)

text \<open>
  C21.  A target of disks below 2 GB answers any sequence of requests that fit its buffer, whatever
  the bytes of the command blocks: no command faults or runs for ever, and the images keep their
  sizes.
\<close>

theorem engine_never_faults:
  assumes "disk_target e" and "\<forall>r\<in>set rs. fits e r"
  shows "\<exists>e'. run_events (serve stamp) rs e = Inr e' \<and> disk_target e'"
  using disk_machine.run_inv [OF assms(1) all_fit [OF assms]] .

theorem engine_never_faults_witness:
  "\<exists>e'. run_events (serve ''t'') [(0, demo_cdb 0x2a 2 1, 512), (0, demo_cdb 0x28 2 1, 512), (0, demo_cdb 0xff 2 1, 0)]
     (demo_engine demo_lun 1048576) = Inr e' \<and> disk_target e'"
proof -
  have "transfer_len (demo_cdb 0xff 2 1) = 0" by (simp add: transfer_len_def demo_cdb_def)
  then have "\<forall>r\<in>set [(0, demo_cdb 0x2a 2 1, 512), (0, demo_cdb 0x28 2 1, 512), (0, demo_cdb 0xff 2 1, 0)]. fits (demo_engine demo_lun 1048576) r"
    by (simp add: fits_def request_fits_def demo_disk demo_cdb_fields)
  from engine_never_faults [OF demo_disk(1) this] show ?thesis .
qed

text \<open>
  C23.  The block-device contract.  A WRITE (6, 10 or 12) inside a disk replaces exactly the blocks it
  addresses with the data in the buffer, block by block, and leaves every other block of the disk,
  every other disk and the buffer as they were.
\<close>

theorem write_updates_blocks:
  assumes "disk_target e" and "unit_of e lun = Some l" and "cdb ! 0 \<in> {0x2a, 0xaa, 0x0a}"
    and "transfer_lba cdb = b * 512" and "transfer_len cdb = n * 512"
    and "(b + n) * 512 \<le> length (lun_image e lun)" and "n * 512 \<le> length (en_data e)"
  shows "\<exists>e'. run_scsi_command stamp lun cdb sz e = Inr (e', 0) \<and> en_data e' = en_data e
    \<and> (\<forall>i. (i + 1) * 512 \<le> length (lun_image e lun) \<longrightarrow> segment (i * 512) 512 (lun_image e' lun)
         = (if b \<le> i \<and> i < b + n then segment ((i - b) * 512) 512 (en_data e) else segment (i * 512) 512 (lun_image e lun)))
    \<and> (\<forall>m. m \<noteq> lun \<longrightarrow> lun_image e' m = lun_image e m)"
proof -
  have fit: "transfer_lba cdb + transfer_len cdb \<le> length (lun_image e lun)" "transfer_len cdb \<le> length (en_data e)"
    using assms(4-7) by (simp_all add: add_mult_distrib)
  obtain e' where e': "run_scsi_command stamp lun cdb sz e = Inr (e', 0)" "en_data e' = en_data e"
      "lun_image e' lun = write_at (transfer_lba cdb) (segment 0 (transfer_len cdb) (en_data e)) (lun_image e lun)"
      "\<forall>m. m \<noteq> lun \<longrightarrow> lun_image e' m = lun_image e m"
    using run_write [OF assms(1-3) fit] by blast
  have "segment (i * 512) 512 (lun_image e' lun)
      = (if b \<le> i \<and> i < b + n then segment ((i - b) * 512) 512 (en_data e) else segment (i * 512) 512 (lun_image e lun))"
    if "(i + 1) * 512 \<le> length (lun_image e lun)" for i
  proof -
    let ?bs = "segment 0 (n * 512) (en_data e)"
    have "length ?bs = n * 512" using assms(7) by simp
    from image.blocks_after_write [OF this assms(6) that]
    have "segment (i * 512) 512 (lun_image e' lun)
        = (if b \<le> i \<and> i < b + n then segment ((i - b) * 512) 512 ?bs else segment (i * 512) 512 (lun_image e lun))"
      using e'(3) assms(4,5) by simp
    moreover have "segment ((i - b) * 512) 512 ?bs = segment ((i - b) * 512) 512 (en_data e)" if "b \<le> i" "i < b + n"
    proof -
      have "(i - b) * 512 + 512 \<le> n * 512" using that by simp
      from image.rd_inner [of 0 "n * 512" "en_data e" "(i - b) * 512" 512] this assms(7) show ?thesis by simp
    qed
    ultimately show ?thesis by simp
  qed
  with e' show ?thesis by blast
qed

theorem write_updates_blocks_witness:
  "\<exists>e'. run_scsi_command ''t'' 0 (demo_cdb 0x2a 2 1) 512 (demo_engine demo_lun 1048576) = Inr (e', 0)
     \<and> segment 1024 512 (lun_image e' 0) = replicate 512 7"
proof -
  have "segment 0 512 (replicate 135162 (7 :: u8)) = replicate 512 7" by (simp add: segment_def)
  with write_updates_blocks [OF demo_disk(1,2), of "demo_cdb 0x2a 2 1" 2 1 "''t''" 512]
  show ?thesis
    by (auto simp: demo_cdb_fields demo_disk dest!: spec [where x = 2]) (simp add: demo_engine_def)
qed

text \<open>
  C24.  Reading back: after a WRITE, a READ(10) of the same blocks, into a buffer of any contents,
  returns the bytes that were written and leaves the disk as the WRITE left it.
\<close>

theorem write_then_read:
  assumes "disk_target e" and "unit_of e lun = Some l" and "w ! 0 \<in> {0x2a, 0xaa, 0x0a}" and "r ! 0 = 0x28"
    and "transfer_lba r = transfer_lba w" and "transfer_len r = transfer_len w"
    and "transfer_lba w + transfer_len w \<le> length (lun_image e lun)" and "transfer_len w \<le> length (en_data e)"
    and "length buf = length (en_data e)"
  shows "\<exists>e1 e2. run_scsi_command stamp lun w sz e = Inr (e1, 0)
    \<and> run_scsi_command stamp lun r sz' (e1\<lparr>en_data := buf\<rparr>) = Inr (e2, 0)
    \<and> segment 0 (transfer_len w) (en_data e2) = segment 0 (transfer_len w) (en_data e) \<and> lun_image e2 lun = lun_image e1 lun"
proof -
  let ?bs = "segment 0 (transfer_len w) (en_data e)"
  have lbs: "length ?bs = transfer_len w" using assms(8) by simp
  obtain e1 l1 where e1: "run_scsi_command stamp lun w sz e = Inr (e1, 0)" "disk_target e1"
      "lun_image e1 lun = write_at (transfer_lba w) ?bs (lun_image e lun)" "unit_of e1 lun = Some l1"
    using run_write [OF assms(1-3,7,8)] by blast
  let ?e1 = "e1\<lparr>en_data := buf\<rparr>"
  have same: "disk_target ?e1" "unit_of ?e1 lun = Some l1" "lun_image ?e1 lun = lun_image e1 lun"
    using e1(2,4) by (simp_all add: disk_target_def unit_of_def lun_image_def)
  have len: "length (lun_image e1 lun) = length (lun_image e lun)"
    using e1(3) lbs assms(7) by (simp add: image.size_wr)
  obtain e2 where e2: "run_scsi_command stamp lun r sz' ?e1 = Inr (e2, 0)"
      "en_data e2 = patch 0 (segment (transfer_lba w) (transfer_len w) (lun_image e1 lun)) buf" "lun_image e2 lun = lun_image e1 lun"
    using run_read [OF same(1,2) assms(4), of stamp sz'] same(3) assms(5-9) len by auto
  have "segment (transfer_lba w) (transfer_len w) (lun_image e1 lun) = ?bs"
    using image.rd_wr [of "transfer_lba w" ?bs "lun_image e lun"] e1(3) lbs assms(7) by simp
  then have "segment 0 (transfer_len w) (en_data e2) = ?bs"
    using e2(2) lbs assms(8,9) by (simp add: segment_patch_same)
  with e1(1) e2 show ?thesis by blast
qed

theorem write_then_read_witness:
  "\<exists>e1 e2. run_scsi_command ''t'' 0 (demo_cdb 0x2a 2 1) 512 (demo_engine demo_lun 1048576) = Inr (e1, 0)
    \<and> run_scsi_command ''t'' 0 (demo_cdb 0x28 2 1) 512 (e1\<lparr>en_data := replicate 135162 0\<rparr>) = Inr (e2, 0)
    \<and> segment 0 512 (en_data e2) = segment 0 512 (replicate 135162 7)"
proof -
  have d: "en_data (demo_engine demo_lun 1048576) = replicate 135162 7" by (simp add: demo_engine_def)
  show ?thesis
    using write_then_read [OF demo_disk(1,2), of "demo_cdb 0x2a 2 1" "demo_cdb 0x28 2 1" "replicate 135162 0" "''t''" 512 512] d
    by (auto simp: demo_cdb_fields demo_disk)
qed

text \<open>A READ(10) or WRITE whose blocks are not all on the disk is refused and changes nothing.\<close>

lemma run_beyond:
  assumes "disk_target e" and "unit_of e lun = Some l" and "cdb ! 0 \<in> {0x28, 0x2a, 0xaa, 0x0a}"
    and "transfer_lba cdb + transfer_len cdb > length (lun_image e lun)"
  shows "run_scsi_command stamp lun cdb sz e = Inr (e, 2)"
proof -
  let ?io = "\<lparr>io_fs = en_fs e, io_ld = l, io_data = en_data e, io_size = sz, io_status = 0\<rparr>"
  note u = unit_image_size [OF assms(1,2)]
  have hd: "hd_ok (io_fs ?io) (io_ld ?io)" using u(3) by simp
  have wb: "write_blocks (transfer_lba cdb) (transfer_len cdb) ?io = Inr (?io\<lparr>io_status := 2\<rparr>)"
    by (rule write_beyond [OF hd]) (use u assms(4) in simp)
  have rb: "sbc_read10 cdb ?io = Inr (?io\<lparr>io_status := 2\<rparr>)" if "cdb ! 0 = 0x28"
    by (rule read10_beyond [OF hd]) (use u assms(4) that in \<open>simp add: transfer_lba_def transfer_len_def\<close>)
  obtain f where f: "table_func scsi_sbc_commands (cdb ! 0) = Some f" "call_command stamp f (en_target e) cdb ?io = Inr (?io\<lparr>io_status := 2\<rparr>)"
    using assms(3) write_entries read_entry writes_as_blocks [OF hd, of cdb] wb rb by auto
  from run_plain [OF assms(1,2) f] show ?thesis by simp
qed

text \<open>TEST UNIT READY, PREVENT ALLOW MEDIUM REMOVAL and VERIFY do nothing and succeed.\<close>

definition quiet_op :: "u8 \<Rightarrow> bool" where
  "quiet_op op \<longleftrightarrow> op \<in> {0x00, 0x1e, 0x2f, 0x8f, 0xaf}"

lemma quiet_entries:
  "table_func scsi_sbc_commands 0x00 = Some Spc_test_unit_ready" "table_func scsi_sbc_commands 0x1e = Some Spc_prevent_allow_media_removal"
  "table_func scsi_sbc_commands 0x2f = Some Sbc_verify10" "table_func scsi_sbc_commands 0x8f = Some Sbc_verify16"
  "table_func scsi_sbc_commands 0xaf = Some Sbc_verify12" "table_func scsi_sbc_commands 0x25 = Some Sbc_read_capacity10"
  by (simp_all add: table_func_def scsi_sbc_commands_def scsi_sbc_commands_low_def scsi_sbc_commands_high_def)

lemma run_quiet:
  assumes "disk_target e" and "unit_of e lun = Some l" and "quiet_op (cdb ! 0)"
  shows "run_scsi_command stamp lun cdb sz e = Inr (e, 0)"
proof -
  let ?io = "\<lparr>io_fs = en_fs e, io_ld = l, io_data = en_data e, io_size = sz, io_status = 0\<rparr>"
  obtain f where f: "table_func scsi_sbc_commands (cdb ! 0) = Some f" "call_command stamp f (en_target e) cdb ?io = Inr (?io\<lparr>io_size := 0\<rparr>)"
    using assms(3) quiet_entries unfolding quiet_op_def
    by (auto simp: finish_cmd_def spc_test_unit_ready_def spc_prevent_allow_media_removal_def sbc_verify10_def sbc_verify12_def sbc_verify16_def)
  from run_plain [OF assms(1,2) f] show ?thesis by simp
qed

text \<open>READ CAPACITY(10): the number of the last block, and the block size.\<close>

definition capacity_data :: "bytes \<Rightarrow> bytes" where
  "capacity_data img = be32_bytes (word_of_int (int (length img) div 512 - 1)) @ be32_bytes 512"

lemma run_capacity:
  assumes "disk_target e" and "unit_of e lun = Some l" and "cdb ! 0 = 0x25" and "12 \<le> length (en_data e)"
  shows "\<exists>e'. run_scsi_command stamp lun cdb sz e = Inr (e', 0) \<and> disk_target e' \<and> length (en_data e') = length (en_data e)
    \<and> lun_image e' = lun_image e \<and> segment 0 8 (en_data e') = capacity_data (lun_image e lun)"
proof -
  let ?io = "\<lparr>io_fs = en_fs e, io_ld = l, io_data = en_data e, io_size = sz, io_status = 0\<rparr>"
  note u = unit_image_size [OF assms(1,2)]
  obtain io where io: "sbc_read_capacity10 ?io = Inr io" "keeps_unit ?io io" "io_fs io = en_fs e" "io_status io = 0"
      "segment 0 8 (io_data io) = be32_bytes (word_of_int (int (unit_bytes l) div 512 - 1)) @ be32_bytes 512"
    using capacity_ok [of ?io] u(3) assms(4) by auto
  have f: "table_func scsi_sbc_commands (cdb ! 0) = Some Sbc_read_capacity10" using assms(3) quiet_entries by simp
  let ?e = "\<lparr>en_fs = io_fs io, en_target = (en_target e)\<lparr>td_luns := replace_lun (io_ld io) (td_luns (en_target e))\<rparr>, en_data = io_data io\<rparr>"
  note st = disk_target_step [OF assms(1,2) io(2) refl]
  have "lun_image ?e lun = lun_image e lun"
    using st(3,5) io(3) assms(2) by (simp add: lun_image_def unit_image_ino)
  then have "lun_image ?e m = lun_image e m" for m using st(7) [of m] by (cases "m = lun") simp_all
  then have "lun_image ?e = lun_image e" by blast
  with run_found [OF assms(1,2) f, of stamp sz io] io(1,4,5) st(1,2) u(2) show ?thesis by (auto simp: capacity_data_def)
qed

lemma run_keeps_units:
  assumes "disk_target e" and "unit_of e lun = Some l" and "run_scsi_command stamp lun cdb sz e = Inr (e', st)"
  shows "map ld_lun (td_luns (en_target e')) = map ld_lun (td_luns (en_target e))"
proof -
  have "map ld_lun (replace_lun x ls) = map ld_lun ls" for x ls by (induction ls) auto
  then show ?thesis
    using assms by (auto simp: run_scsi_command_def Let_def and_then_Inr_iff split: if_splits option.splits)
qed


text \<open>The loop of REPORT LUNS: entry \<open>k + i\<close> gets the number of unit \<open>i\<close>.\<close>

lemma report_each_entries:
  assumes "alloc_len < length (io_data io)"
  shows "\<exists>io'. report_each alloc_len k ls io = Inr (io', k + length ls) \<and> length (io_data io') = length (io_data io)
    \<and> (\<forall>j < 9 + k * 8. io_data io' ! j = io_data io ! j)
    \<and> (\<forall>i < length ls. 9 + (k + i) * 8 \<le> alloc_len \<longrightarrow> io_data io' ! (9 + (k + i) * 8) = ld_lun (ls ! i))"
  using assms
proof (induction ls arbitrary: k io)
  case Nil
  then show ?case by simp
next
  case (Cons l ls)
  define io1 where "io1 = (if 9 + k * 8 \<le> alloc_len then io\<lparr>io_data := patch (9 + k * 8) [ld_lun l] (io_data io)\<rparr> else io)"
  have len: "length (io_data io1) = length (io_data io)" using Cons.prems by (simp add: io1_def)
  have first: "report_each alloc_len k (l # ls) io = report_each alloc_len (k + 1) ls io1"
    using Cons.prems by (simp add: io1_def put_data_ok)
  obtain io' where io': "report_each alloc_len (k + 1) ls io1 = Inr (io', k + 1 + length ls)" "length (io_data io') = length (io_data io1)"
      "\<forall>j < 9 + (k + 1) * 8. io_data io' ! j = io_data io1 ! j"
      "\<forall>i < length ls. 9 + (k + 1 + i) * 8 \<le> alloc_len \<longrightarrow> io_data io' ! (9 + (k + 1 + i) * 8) = ld_lun (ls ! i)"
    using Cons.IH [of io1 "k + 1"] Cons.prems len by auto
  have "io_data io' ! j = io_data io ! j" if "j < 9 + k * 8" for j
    using io'(3) that Cons.prems by (simp add: io1_def nth_patch)
  moreover have "io_data io' ! (9 + (k + i) * 8) = ld_lun ((l # ls) ! i)" if "i < Suc (length ls)" "9 + (k + i) * 8 \<le> alloc_len" for i
  proof (cases i)
    case 0
    then show ?thesis using io'(3) that Cons.prems by (simp add: io1_def nth_patch)
  next
    case (Suc j)
    then show ?thesis using io'(4) that by simp
  qed
  ultimately show ?case using first io'(1,2) len by simp
qed

lemma report_luns_entry: "table_func scsi_sbc_commands 0xa0 = Some Spc_report_luns"
  by (simp add: table_func_def scsi_sbc_commands_def scsi_sbc_commands_low_def scsi_sbc_commands_high_def)

text \<open>
  REPORT LUNS answers with the length of the list in the first four bytes, most significant
  first, and the number of unit \<open>i\<close> (the newest first) in byte \<open>9 + 8 * i\<close>, for every unit for
  which that index is at most the allocation length.  The index that equals the allocation length is
  one byte past what the initiator allows the target to fill.
\<close>

lemma report_luns_list:
  assumes "disk_target e" and "unit_of e 0 = Some l" and "cdb ! 0 = 0xa0" and "n = unat (cdb_be32 cdb 6)"
    and "int n \<le> sz" and "sz < int (length (en_data e))" and "8 \<le> length (en_data e)"
  shows "\<exists>e'. run_scsi_command stamp 0 cdb sz e = Inr (e', 0)
    \<and> segment 0 4 (en_data e') = be32_bytes (of_nat (length (td_luns (en_target e)) * 8))
    \<and> (\<forall>i < length (td_luns (en_target e)). 9 + i * 8 \<le> n \<longrightarrow> en_data e' ! (9 + i * 8) = ld_lun (td_luns (en_target e) ! i))"
proof -
  let ?ls = "td_luns (en_target e)"
  let ?io = "\<lparr>io_fs = en_fs e, io_ld = l, io_data = patch 0 (replicate n 0) (en_data e), io_size = int n, io_status = 0\<rparr>"
  have n: "n < length (en_data e)" using assms(5,6) by linarith
  obtain io where io: "report_each n 0 ?ls ?io = Inr (io, length ?ls)" "length (io_data io) = length (en_data e)"
      "\<forall>i < length ?ls. 9 + i * 8 \<le> n \<longrightarrow> io_data io ! (9 + i * 8) = ld_lun (?ls ! i)"
    using report_each_entries [of n ?io 0 ?ls] n by auto
  let ?d = "patch 0 (long_htonl (of_nat (length ?ls * 8))) (io_data io)"
  have f: "table_func scsi_sbc_commands (cdb ! 0) = Some Spc_report_luns" using report_luns_entry assms(3) by simp
  have nn: "unat (cdb_be32 cdb 6) = n" using assms(4) by simp
  have "call_command stamp Spc_report_luns (en_target e) cdb
      \<lparr>io_fs = en_fs e, io_ld = l, io_data = en_data e, io_size = sz, io_status = 0\<rparr> = Inr (io\<lparr>io_data := ?d, io_status := 0\<rparr>)"
    using io(1,2) n assms(5,7) by (simp add: spc_report_luns_def Let_def nn clear_data_ok put_data_ok del: of_nat_unat)
  from run_found [OF assms(1,2) f this]
  have run: "\<exists>e'. run_scsi_command stamp 0 cdb sz e = Inr (e', 0) \<and> en_data e' = ?d" by simp
  have "segment 0 4 ?d = be32_bytes (of_nat (length ?ls * 8))"
    by (simp add: patch_def segment_def long_htonl_def)
  moreover have "?d ! (9 + i * 8) = ld_lun (?ls ! i)" if "i < length ?ls" "9 + i * 8 \<le> n" for i
    using io(2,3) that n assms(7) by (simp add: nth_patch)
  ultimately show ?thesis using run by auto
qed

lemma report_luns_list_witness:
  "\<exists>e'. run_scsi_command ''t'' 0 ([0xa0, 0, 0, 0, 0, 0, 0, 0, 0, 16] @ replicate 6 0) 16 (demo_engine demo_lun 1048576) = Inr (e', 0)
     \<and> segment 0 4 (en_data e') = be32_bytes 8"
proof -
  have n: "unat (cdb_be32 ([0xa0, 0, 0, 0, 0, 0, 0, 0, 0, 16] @ replicate 6 0) 6) = 16"
    by (simp add: cdb_be32_def segment_def be32_def le32_def)
  show ?thesis
    using report_luns_list [OF demo_disk(1,2), of "[0xa0, 0, 0, 0, 0, 0, 0, 0, 0, 16] @ replicate 6 0" 16 16 "''t''"] n
    by (auto simp: demo_disk) (simp add: demo_engine_def)
qed

text \<open>
  READ CAPACITY(10) reports the number of the last block, one less than the number of blocks of
  the disk, and the block size 512.
\<close>

lemma capacity_reports_last_block:
  assumes "disk_target e" and "unit_of e lun = Some l" and "cdb ! 0 = 0x25" and "12 \<le> length (en_data e)"
    and "length (lun_image e lun) = blocks * 512" and "0 < blocks"
  shows "\<exists>e'. run_scsi_command stamp lun cdb sz e = Inr (e', 0) \<and> lun_image e' lun = lun_image e lun
    \<and> segment 0 8 (en_data e') = be32_bytes (of_nat (blocks - 1)) @ be32_bytes 512"
proof -
  have "int (blocks * 512) div 512 - 1 = int (blocks - 1)" using assms(6) by simp
  then have "capacity_data (lun_image e lun) = be32_bytes (of_nat (blocks - 1)) @ be32_bytes 512"
    unfolding capacity_data_def assms(5) by (simp only: of_int_of_nat_eq)
  moreover obtain e' where "run_scsi_command stamp lun cdb sz e = Inr (e', 0)" "lun_image e' = lun_image e"
      "segment 0 8 (en_data e') = capacity_data (lun_image e lun)"
    using run_capacity [OF assms(1-4)] by blast
  ultimately show ?thesis by metis
qed

lemma capacity_reports_last_block_witness:
  "\<exists>e'. run_scsi_command ''t'' 0 (0x25 # replicate 15 0) 8 (demo_engine demo_lun 1048576) = Inr (e', 0)
     \<and> segment 0 8 (en_data e') = be32_bytes 2047 @ be32_bytes 512"
  using capacity_reports_last_block [OF demo_disk(1,2), of "0x25 # replicate 15 0" 2048 "''t''" 8]
  by (auto simp: demo_disk)

text \<open>
  WRITE(6) with a block number of 65536 or more.  The command has 21 bits for it, the handler reads
  the low 16: the data goes to the block whose number is the remainder, and 0, which the standard
  takes for 256 blocks, writes nothing.
\<close>

theorem write6_low_bits:
  assumes "disk_target e" and "unit_of e lun = Some l" and "cdb ! 0 = 0x0a"
    and "block = unat (cdb ! 1 AND 0x1f) * 65536 + unat (cdb_be16 cdb 2)" and "n = unat (cdb ! 4)"
    and "(block mod 65536 + n) * 512 \<le> length (lun_image e lun)" and "n * 512 \<le> length (en_data e)"
  shows "\<exists>e'. run_scsi_command stamp lun cdb sz e = Inr (e', 0)
    \<and> lun_image e' lun = write_at (block mod 65536 * 512) (segment 0 (n * 512) (en_data e)) (lun_image e lun)"
proof -
  have b: "block mod 65536 = unat (cdb_be16 cdb 2)"
    using assms(4) unat_u16_less [of "cdb_be16 cdb 2"] by (simp add: mod_mult_self3)
  have t: "transfer_lba cdb = block mod 65536 * 512" "transfer_len cdb = n * 512"
    using assms(3,5) b by (simp_all add: transfer_lba_def transfer_len_def)
  have fit: "transfer_lba cdb + transfer_len cdb \<le> length (lun_image e lun)" "transfer_len cdb \<le> length (en_data e)"
    using t assms(6,7) by (simp_all add: add_mult_distrib)
  show ?thesis using run_write [OF assms(1,2) _ fit, of stamp sz] assms(3) unfolding t by auto
qed

section \<open>Inputs the engine does not survive\<close>

text \<open>A unit of either table: the entries of its READ(10) and WRITE(10).\<close>

lemma transfer_entries:
  assumes "tbl \<in> {scsi_sbc_commands, scsi_mmc_commands}"
  shows "table_func tbl 0x28 = Some Sbc_read10" and "table_func tbl 0x2a = Some Sbc_write10"
  using assms by (auto simp: table_func_def scsi_sbc_commands_def scsi_sbc_commands_low_def scsi_sbc_commands_high_def
      scsi_mmc_commands_def scsi_mmc_commands_low_def scsi_mmc_commands_high_def)

text \<open>A command faults as its handler does.\<close>

lemma run_transfer:
  assumes "td_type (en_target e) = TARGET_TYPE_EMULATION" and "unit_of e lun = Some l" and "ld_cmds l = Some tbl"
    and "table_func tbl (cdb ! 0) = Some f"
  shows "run_scsi_command stamp lun cdb sz e = Inl x \<longleftrightarrow> call_command stamp f (en_target e) cdb
      \<lparr>io_fs = en_fs e, io_ld = l, io_data = en_data e, io_size = sz, io_status = 0\<rparr> = Inl x"
  using assms by (auto simp: run_scsi_command_def find_lun_def unit_of_def Let_def and_then_Inl_iff)

text \<open>When the transfer loops do not end.\<close>

lemma hangs_iff:
  assumes "ld_fh (io_ld io) = Some h" and "small_unit (io_ld io)" and "len \<le> length (io_data io)"
  shows "write_blocks lba len io = Inl Never_returns \<longleftrightarrow> 0 < len \<and> lba + len \<le> unit_bytes (io_ld io) \<and> \<not> fh_writable h"
    and "lba = unat (cdb_be32 cdb 2) * unat (ld_block_size (io_ld io)) \<Longrightarrow> len = unat (cdb_be16 cdb 7) * unat (ld_block_size (io_ld io))
      \<Longrightarrow> sbc_read10 cdb io = Inl Never_returns
        \<longleftrightarrow> 0 < len \<and> lba + len \<le> unit_bytes (io_ld io) \<and> length (fs_data (io_fs io) (fh_ino h)) < lba + len"
proof -
  note b = beyond_small_unit [OF assms(2)]
  show "write_blocks lba len io = Inl Never_returns \<longleftrightarrow> 0 < len \<and> lba + len \<le> unit_bytes (io_ld io) \<and> \<not> fh_writable h"
  proof (cases "0 < len \<and> lba + len \<le> unit_bytes (io_ld io) \<and> \<not> fh_writable h")
    case True
    with write_loop_stuck [of h 0 len "io_data io"] assms(1,3) b show ?thesis by (simp add: write_blocks_def with_fh_def)
  next
    case False
    then consider "unit_bytes (io_ld io) < lba + len" | "lba + len \<le> unit_bytes (io_ld io)" "fh_writable h"
      | "lba + len \<le> unit_bytes (io_ld io)" "len = 0" by linarith
    then show ?thesis
    proof cases
      case 1
      with transfer_beyond(1) [OF assms(2)] show ?thesis by simp
    next
      case 2
      with write_on_stream [OF assms(1,2)] assms(3) show ?thesis by fastforce
    next
      case 3
      with assms(1) b show ?thesis by (simp add: write_blocks_def with_fh_def write_loop.simps finish_cmd_def)
    qed
  qed
  show "sbc_read10 cdb io = Inl Never_returns
        \<longleftrightarrow> 0 < len \<and> lba + len \<le> unit_bytes (io_ld io) \<and> length (fs_data (io_fs io) (fh_ino h)) < lba + len"
    if lba: "lba = unat (cdb_be32 cdb 2) * unat (ld_block_size (io_ld io))" and len: "len = unat (cdb_be16 cdb 7) * unat (ld_block_size (io_ld io))"
  proof (cases "0 < len \<and> lba + len \<le> unit_bytes (io_ld io) \<and> length (fs_data (io_fs io) (fh_ino h)) < lba + len")
    case True
    with read_loop_short [of len "io_fs io" h lba "io_data io"] assms(1,3) b show ?thesis
      by (simp add: sbc_read10_def with_fh_def Let_def flip: lba len)
  next
    case False
    then consider "unit_bytes (io_ld io) < lba + len" | "lba + len \<le> unit_bytes (io_ld io)" "lba + len \<le> length (fs_data (io_fs io) (fh_ino h))"
      | "lba + len \<le> unit_bytes (io_ld io)" "len = 0" by linarith
    then show ?thesis
    proof cases
      case 1
      with transfer_beyond(2) [OF assms(2)] show ?thesis by (simp add: lba len add_mult_distrib)
    next
      case 2
      with read_on_stream [OF assms(1,2) lba len] assms(3) show ?thesis by fastforce
    next
      case 3
      with assms(1) b show ?thesis by (simp add: sbc_read10_def with_fh_def Let_def read_loop.simps finish_cmd_def flip: lba len)
    qed
  qed
qed


lemma run_faults:
  assumes "td_type (en_target e) = TARGET_TYPE_EMULATION" and "unit_of e lun = Some l" and "ld_cmds l = Some tbl"
    and "table_func tbl (cdb ! 0) = Some f"
    and "call_command stamp f (en_target e) cdb
        \<lparr>io_fs = en_fs e, io_ld = l, io_data = en_data e, io_size = sz, io_status = 0\<rparr> = Inl x"
  shows "run_scsi_command stamp lun cdb sz e = Inl x"
  using run_transfer [OF assms(1-4)] assms(5) by simp

lemma beyond_small:
  assumes "0 \<le> ld_lunsizeinmb l" and "ld_lunsizeinmb l < 2048" and "lba + len \<le> unit_bytes l"
  shows "beyond_unit lba len l = Inr False"
  using assms by (simp add: beyond_small_unit small_unit_def)

text \<open>
  C38.  When a transfer hangs.  A READ(10) or WRITE(10) of at least one block inside the nominal size of
  its unit, disk or disc, never returns exactly if the READ reaches past the end of the file, or the
  WRITE goes to a stream that was opened for reading: the loop goes on moving nothing, and the engine,
  which has one thread, is stuck with it.  Every other READ and WRITE returns.
\<close>

theorem transfers_hang_exactly:
  assumes "td_type (en_target e) = TARGET_TYPE_EMULATION" and "unit_of e lun = Some l" and "ld_cmds l = Some tbl"
    and "tbl \<in> {scsi_sbc_commands, scsi_mmc_commands}" and "ld_fh l = Some h" and "0 \<le> ld_lunsizeinmb l" and "ld_lunsizeinmb l < 2048"
    and "lba = unat (cdb_be32 cdb 2) * unat (ld_block_size l)" and "len = unat (cdb_be16 cdb 7) * unat (ld_block_size l)"
    and "len \<le> length (en_data e)" and "cdb ! 0 = (if reading then 0x28 else 0x2a)"
  shows "run_scsi_command stamp lun cdb sz e = Inl Never_returns \<longleftrightarrow>
    0 < len \<and> lba + len \<le> unit_bytes l \<and> (if reading then length (lun_image e lun) < lba + len else \<not> fh_writable h)"
proof -
  let ?io = "\<lparr>io_fs = en_fs e, io_ld = l, io_data = en_data e, io_size = sz, io_status = 0\<rparr>"
  have small: "small_unit (io_ld ?io)" using assms(6,7) by (simp add: small_unit_def)
  note hang = hangs_iff [of ?io h len lba, OF _ small]
  note f = transfer_entries [OF assms(4)]
  show ?thesis
  proof (cases reading)
    case True
    then have "table_func tbl (cdb ! 0) = Some Sbc_read10" using assms(11) f by simp
    from run_transfer [OF assms(1-3) this] show ?thesis
      using hang(2) [of cdb] assms(2,5,8-10) True by (simp add: lun_image_def unit_image_def)
  next
    case False
    then have "table_func tbl (cdb ! 0) = Some Sbc_write10" using assms(11) f by simp
    from run_transfer [OF assms(1-3) this] show ?thesis
      using hang(1) assms(5,8-10) False by (simp add: sbc_write10_def Let_def)
  qed
qed

theorem transfers_hang_exactly_witness:
  "run_scsi_command ''t'' 0 (demo_cdb 0x28 2 1) 512 (demo_engine demo_lun 1300) = Inl Never_returns
   \<and> run_scsi_command ''t'' 0 (demo_cdb 0x28 1 1) 512 (demo_engine demo_lun 1300) \<noteq> Inl Never_returns"
proof -
  have u: "unit_of (demo_engine demo_lun 1300) 0 = Some demo_lun" "length (lun_image (demo_engine demo_lun 1300) 0) = 1300"
      "td_type (en_target (demo_engine demo_lun 1300)) = TARGET_TYPE_EMULATION" "unit_bytes demo_lun = 1048576"
    by (simp_all add: lun_image_def unit_of_def demo_engine_def demo_lun_def unit_image_def unit_bytes_def c_consts)
  have f: "cdb_be32 (demo_cdb op b n) 2 = ucast b" "cdb_be16 (demo_cdb op b n) 7 = ucast n" for op b n
    by (simp_all add: demo_cdb_def cdb_be32_def cdb_be16_def segment_def be32_def be16_def le32_def)
  have l: "ld_cmds demo_lun = Some scsi_sbc_commands" "ld_fh demo_lun = Some \<lparr>fh_ino = 1, fh_pos = 0, fh_writable = True\<rparr>"
      "ld_lunsizeinmb demo_lun = 1" "ld_block_size demo_lun = 512"
    by (simp_all add: demo_lun_def)
  note t = transfers_hang_exactly [OF u(3,1) l(1) _ l(2), where reading = True and sz = 512 and stamp = "''t''"]
  show ?thesis
    using t [OF _ _ _ refl refl, of "demo_cdb 0x28 2 1"] t [OF _ _ _ refl refl, of "demo_cdb 0x28 1 1"]
    by (simp add: u l f demo_cdb_fields demo_disk)
qed

text \<open>In particular a READ(10) past the end of the file of a disk.\<close>

lemma read_past_end_of_file_hangs:
  assumes "td_type (en_target e) = TARGET_TYPE_EMULATION" and "unit_of e lun = Some l" and "ld_cmds l = Some scsi_sbc_commands"
    and "ld_block_size l = 512" and "0 \<le> ld_lunsizeinmb l" and "ld_lunsizeinmb l < 2048" and "ld_fh l \<noteq> None"
    and "cdb ! 0 = 0x28" and "0 < transfer_len cdb" and "transfer_lba cdb + transfer_len cdb \<le> unit_bytes l"
    and "transfer_len cdb \<le> length (en_data e)" and "length (lun_image e lun) < transfer_lba cdb + transfer_len cdb"
  shows "run_scsi_command stamp lun cdb sz e = Inl Never_returns"
proof -
  obtain h where h: "ld_fh l = Some h" using assms(7) by auto
  have t: "transfer_lba cdb = unat (cdb_be32 cdb 2) * unat (ld_block_size l)" "transfer_len cdb = unat (cdb_be16 cdb 7) * unat (ld_block_size l)"
    using assms(4,8) by (simp_all add: transfer_lba_def transfer_len_def)
  let ?io = "\<lparr>io_fs = en_fs e, io_ld = l, io_data = en_data e, io_size = sz, io_status = 0\<rparr>"
  have "sbc_read10 cdb ?io = Inl Never_returns"
    using hangs_iff(2) [of ?io h "transfer_len cdb" "transfer_lba cdb" cdb] t h assms(2,5,6,9-12)
    by (simp add: small_unit_def lun_image_def unit_image_def)
  moreover have f: "table_func scsi_sbc_commands (cdb ! 0) = Some Sbc_read10" using read_entry assms(8) by simp
  ultimately show ?thesis by (intro run_faults [OF assms(1-3) f]) simp
qed

lemma read_past_end_of_file_hangs_witness:
  "run_scsi_command ''t'' 0 (demo_cdb 0x28 2 1) 512 (demo_engine demo_lun 1300) = Inl Never_returns"
proof (rule read_past_end_of_file_hangs)
  show "unit_of (demo_engine demo_lun 1300) 0 = Some demo_lun" by (simp add: unit_of_def demo_engine_def demo_lun_def)
  show "length (lun_image (demo_engine demo_lun 1300) 0) < transfer_lba (demo_cdb 0x28 2 1) + transfer_len (demo_cdb 0x28 2 1)"
    by (simp add: lun_image_def unit_of_def demo_engine_def demo_lun_def unit_image_def demo_cdb_fields)
qed (simp_all add: demo_cdb_fields demo_disk, simp_all add: demo_engine_def demo_lun_def unit_bytes_def c_consts)

text \<open>
  C39.  On a disk of 2 GB or more the range check itself overflows: \<open>lunsizeinmb*1024*1024\<close> is
  computed in \<open>int\<close>, so every READ and WRITE, however small, is undefined.
\<close>

theorem large_disk_overflows:
  assumes "td_type (en_target e) = TARGET_TYPE_EMULATION" and "unit_of e lun = Some l" and "ld_cmds l = Some scsi_sbc_commands"
    and "2048 \<le> ld_lunsizeinmb l" and "cdb ! 0 \<in> {0x28, 0x2a, 0xaa, 0x0a}"
  shows "run_scsi_command stamp lun cdb sz e = Inl Signed_overflow"
proof -
  have b: "beyond_unit lba len l = Inl Signed_overflow" for lba len
    using assms(4) by (auto simp: beyond_unit_def c_int_def)
  obtain f where f: "table_func scsi_sbc_commands (cdb ! 0) = Some f" "f \<in> {Sbc_read10, Sbc_write10, Sbc_write12, Sbc_write6}"
    using assms(5) read_entry write_entries by auto
  show ?thesis
    by (rule run_faults [OF assms(1-3) f(1)])
      (use f(2) b in \<open>auto simp: sbc_read10_def sbc_write10_def sbc_write12_def sbc_write6_def write_blocks_def Let_def\<close>)
qed

theorem large_disk_overflows_witness:
  "run_scsi_command ''t'' 0 (demo_cdb 0x28 0 0) 0 (demo_engine (demo_lun\<lparr>ld_lunsizeinmb := 2048\<rparr>) 0) = Inl Signed_overflow"
proof (rule large_disk_overflows)
  show "unit_of (demo_engine (demo_lun\<lparr>ld_lunsizeinmb := 2048\<rparr>) 0) 0 = Some (demo_lun\<lparr>ld_lunsizeinmb := 2048\<rparr>)"
    by (simp add: unit_of_def demo_engine_def demo_lun_def)
qed (simp_all add: demo_cdb_fields, simp_all add: demo_engine_def demo_lun_def c_consts)

text \<open>
  C34.  READ and WRITE take the length of the transfer from the command block and never compare it
  with the size of the request: inside a disk, they leave the data buffer exactly when the block
  names more bytes than the whole buffer holds, whatever size the initiator declared.
\<close>

theorem oversized_transfer_overruns:
  assumes "disk_target e" and "unit_of e lun = Some l" and "cdb ! 0 \<in> {0x28, 0x2a, 0xaa, 0x0a}"
    and "transfer_lba cdb + transfer_len cdb \<le> length (lun_image e lun)"
  shows "run_scsi_command stamp lun cdb sz e = Inl Out_of_bounds \<longleftrightarrow> length (en_data e) < transfer_len cdb"
proof (cases "length (en_data e) < transfer_len cdb")
  case False
  then have "transfer_len cdb \<le> length (en_data e)" by simp
  with run_read [OF assms(1,2) _ assms(4)] run_write [OF assms(1,2) _ assms(4)] assms(3)
  have "\<exists>r. run_scsi_command stamp lun cdb sz e = Inr r" by (metis insert_iff)
  with False show ?thesis by auto
next
  case True
  note u = unit_image_size [OF assms(1,2)]
  have hd: "hd_ok (en_fs e) l" by (rule u(3))
  obtain h where h: "ld_fh l = Some h" "length (fs_data (en_fs e) (fh_ino h)) = length (lun_image e lun)"
    using hd assms(2) by (auto simp: hd_ok_def lun_image_def unit_image_def split: option.splits)
  have tgt: "td_type (en_target e) = TARGET_TYPE_EMULATION" using assms(1) by (simp add: disk_target_def)
  have l: "ld_cmds l = Some scsi_sbc_commands" "ld_block_size l = 512" "0 \<le> ld_lunsizeinmb l" "ld_lunsizeinmb l < 2048"
      "transfer_lba cdb + transfer_len cdb \<le> unit_bytes l"
    using hd h assms(4) by (auto simp: hd_ok_def unit_bytes_def)
  obtain f where f: "table_func scsi_sbc_commands (cdb ! 0) = Some f" "f \<in> {Sbc_read10, Sbc_write10, Sbc_write12, Sbc_write6}"
      "call_command stamp f (en_target e) cdb \<lparr>io_fs = en_fs e, io_ld = l, io_data = en_data e, io_size = sz, io_status = 0\<rparr> = Inl Out_of_bounds"
    using assms(3) read_entry write_entries read_loop_overruns [OF True] write_loop_overruns [OF True] h l
      beyond_small [OF l(3-5)] assms(4)
    by (auto simp: sbc_read10_def sbc_write10_def sbc_write12_def sbc_write6_def write_blocks_def Let_def with_fh_def
        transfer_lba_def transfer_len_def)
  from run_faults [OF tgt assms(2) l(1) f(1,3)] True show ?thesis by simp
qed

theorem oversized_transfer_overruns_witness:
  "run_scsi_command ''t'' 0 [0x28, 0, 0, 0, 0, 0, 0, 1, 8, 0, 0, 0, 0, 0, 0, 0] 512 (demo_engine demo_lun 1048576) = Inl Out_of_bounds"
proof -
  let ?cdb = "[0x28, 0, 0, 0, 0, 0, 0, 1, 8, 0, 0, 0, 0, 0, 0, 0] :: bytes"
  have "transfer_lba ?cdb = 0" "transfer_len ?cdb = 135168"
    by (simp_all add: transfer_lba_def transfer_len_def cdb_be32_def cdb_be16_def segment_def be32_def be16_def le32_def)
  then show ?thesis
    using oversized_transfer_overruns [OF demo_disk(1,2), of ?cdb "''t''" 512] by (simp add: demo_disk)
qed

text \<open>
  Any command to a unit that does not exist follows a null pointer, the REPORT LUNS to a missing
  LUN 0 included that the dummy unit is meant for: the dummy has no command table.
\<close>

lemma missing_unit_crashes:
  assumes "td_type (en_target e) = TARGET_TYPE_EMULATION" and "unit_of e lun = None"
  shows "run_scsi_command stamp lun cdb sz e = Inl Null_deref"
  using assms by (simp add: run_scsi_command_def find_lun_def unit_of_def DUMMY_LUN_0_def Let_def)

lemma missing_unit_crashes_witness:
  "run_scsi_command ''t'' 3 (0xa0 # replicate 15 0) 16 (demo_engine demo_lun 1048576) = Inl Null_deref"
  by (rule missing_unit_crashes) (simp_all add: demo_engine_def unit_of_def demo_lun_def c_consts)

text \<open>
  A WRITE(10) to a DVD-ROM, whose image is open for reading only, never returns: \<open>fwrite\<close>
  moves nothing and the loop does not look at that.
\<close>

lemma write_read_only_hangs:
  assumes "td_type (en_target e) = TARGET_TYPE_EMULATION" and "unit_of e lun = Some l" and "ld_cmds l = Some scsi_mmc_commands"
    and "ld_fh l = Some h" and "\<not> fh_writable h" and "0 \<le> ld_lunsizeinmb l" and "ld_lunsizeinmb l < 2048" and "cdb ! 0 = 0x2a"
    and "len = unat (cdb_be16 cdb 7) * unat (ld_block_size l)" and "0 < len" and "len \<le> length (en_data e)"
    and "unat (cdb_be32 cdb 2) * unat (ld_block_size l) + len \<le> unit_bytes l"
  shows "run_scsi_command stamp lun cdb sz e = Inl Never_returns"
proof -
  have f: "table_func scsi_mmc_commands (cdb ! 0) = Some Sbc_write10" using transfer_entries(2) assms(8) by simp
  have "write_blocks (unat (cdb_be32 cdb 2) * unat (ld_block_size l)) len
      \<lparr>io_fs = en_fs e, io_ld = l, io_data = en_data e, io_size = sz, io_status = 0\<rparr> = Inl Never_returns"
    using assms(4-7,10-12) by (subst hangs_iff(1)) (simp_all add: small_unit_def)
  then show ?thesis
    by (intro run_faults [OF assms(1-3) f]) (simp add: sbc_write10_def Let_def assms(9))
qed

lemma write_read_only_hangs_witness:
  "run_scsi_command ''t'' 0 (demo_cdb 0x2a 0 1) 2048 (demo_engine (demo_lun\<lparr>ld_cmds := Some scsi_mmc_commands,
     ld_block_size := 2048, ld_fh := Some \<lparr>fh_ino = 1, fh_pos = 0, fh_writable = False\<rparr>\<rparr>) 4096) = Inl Never_returns"
  (is "run_scsi_command _ _ _ _ (demo_engine ?l _) = _")
proof (rule write_read_only_hangs)
  show "unit_of (demo_engine ?l 4096) 0 = Some ?l" by (simp add: unit_of_def demo_engine_def demo_lun_def)
qed (simp_all add: demo_cdb_def cdb_be16_def cdb_be32_def segment_def be16_def be32_def le32_def, simp_all add: demo_engine_def demo_lun_def unit_bytes_def c_consts)

end
