(* ===== verification/Config.thy ===== *)
theory Config
  imports Engine
begin

text \<open>
  The set-up of the target program, \<open>configure_scsi_target\<close> in \<open>user/main.c\<close>: the arguments, the
  list of image files, and a disk for each of them.
\<close>

section \<open>Arguments\<close>

text \<open>\<open>opt\<close> says which option's value comes next, \<open>selection\<close> which options were seen.\<close>

record args =
  ar_opt :: nat
  ar_selection :: u8
  ar_devname :: "string option"
  ar_filenames :: "string option"
  ar_verbose :: bool

definition no_args :: args where
  "no_args = \<lparr>ar_opt = 0, ar_selection = 0, ar_devname = None, ar_filenames = None, ar_verbose = False\<rparr>"

text \<open>\<open>-dev\<close> sets \<open>selection\<close> to 1, it does not add to it.\<close>

fun parse_args :: "string list \<Rightarrow> args \<Rightarrow> args res" where
  "parse_args [] r = Inr r"
| "parse_args (a # as) r =
     (if ar_opt r = 1 then parse_args as (r\<lparr>ar_devname := Some a, ar_opt := 0\<rparr>)
      else if ar_opt r = 2 then parse_args as (r\<lparr>ar_filenames := Some a, ar_opt := 0\<rparr>)
      else if a = ''-dev'' then
        (if ar_selection r AND 1 = 1 then Inl (Exit 100)
         else parse_args as (r\<lparr>ar_opt := 1, ar_selection := 1\<rparr>))
      else if a = ''-files'' then
        (if ar_selection r AND 2 = 2 then Inl (Exit 100)
         else parse_args as (r\<lparr>ar_opt := 2, ar_selection := ar_selection r OR 2\<rparr>))
      else if a = ''-v'' then parse_args as (r\<lparr>ar_opt := 0, ar_selection := ar_selection r OR 4, ar_verbose := True\<rparr>)
      else Inl (Exit 100))"

section \<open>The list of files\<close>

definition MEGABYTE :: nat where
  [c_consts]: "MEGABYTE = 1048576"

text \<open>
  A name that is complete: it is checked and appended to \<open>lunfiles\<close>, an array of 256.  The
  result keeps the size \<open>stat\<close> found, which the next name overwrites.
\<close>

definition accept_name :: "fs \<Rightarrow> string \<Rightarrow> string list \<times> nat \<Rightarrow> (string list \<times> nat) res" where
  "accept_name fs fname r =
     (if fname = [] then Inr r
      else case stat_size fname fs of
        None \<Rightarrow> Inl (Exit 1)
      | Some st_size \<Rightarrow>
          if st_size mod MEGABYTE \<noteq> 0 then Inl (Exit 1)
          else if fname \<in> set (fst r) then Inl (Exit 1)
          else if length (fst r) \<ge> 256 then Inl Out_of_bounds
          else Inr (fst r @ [fname], st_size))"

text \<open>The characters up to the end of the argument, whose terminating 0 is taken for a comma.\<close>

fun scan_files :: "fs \<Rightarrow> string \<Rightarrow> string \<Rightarrow> string list \<times> nat \<Rightarrow> (string list \<times> nat) res" where
  "scan_files fs [] fname r = accept_name fs fname r"
| "scan_files fs (c # cs) fname r =
     (if c \<noteq> CHR 0x2c then
        (if length fname \<ge> 63 then Inl (Exit 1) else scan_files fs cs (fname @ [c]) r)
      else and_then (accept_name fs fname r) (scan_files fs cs []))"

section \<open>The disks\<close>

text \<open>
  One disk per name, all of the size found last; what \<open>add_lun\<close> returns is not looked at.
  \<open>mem i\<close> is the memory \<open>malloc\<close> returns for disk \<open>i\<close>.
\<close>

fun add_luns :: "string \<Rightarrow> (nat \<Rightarrow> lun_data) \<Rightarrow> nat \<Rightarrow> string list \<Rightarrow> int \<Rightarrow> target_data \<Rightarrow> fs \<Rightarrow> fs \<times> target_data" where
  "add_luns stamp mem i [] mb t fs = (fs, t)"
| "add_luns stamp mem i (f # names) mb t fs =
     (let (fs', t', l) = add_lun stamp (mem i) t (int i) f LUN_TYPE_HD mb fs
      in add_luns stamp mem (i + 1) names mb t' fs')"

record configuration =
  su_fs :: fs
  su_targets :: "target_data list"
  su_target :: target_data
  su_devname :: string
  su_verbose :: bool

text \<open>\<open>size0\<close> is what \<open>fstat\<close> holds when no file was looked at.\<close>

definition configure_scsi_target ::
  "string \<Rightarrow> (nat \<Rightarrow> lun_data) \<Rightarrow> nat \<Rightarrow> string list \<Rightarrow> target_data list \<Rightarrow> fs \<Rightarrow> configuration res" where
  "configure_scsi_target stamp mem size0 argv targets fs =
     and_then (parse_args argv no_args) (\<lambda>r.
       if ar_selection r AND 3 \<noteq> 3 \<or> ar_opt r \<noteq> 0 then Inl (Exit 100)
       else let (targets', t) = add_target ''virtual20mhd'' TARGET_TYPE_EMULATION targets
       in case (ar_devname r, ar_filenames r) of
            (Some dev, Some filenames) \<Rightarrow>
              and_then (scan_files fs filenames [] ([], size0)) (\<lambda>(names, st_size).
                let (fs', t') = add_luns stamp mem 0 names (int (st_size div MEGABYTE)) t fs
                in Inr \<lparr>su_fs = fs', su_targets = t' # targets, su_target = t', su_devname = dev, su_verbose = ar_verbose r\<rparr>)
          | _ \<Rightarrow> Inl Null_deref)"

section \<open>Adding a disk\<close>

lemma add_disk:
  assumes "fs_dir fs f = Some i" and "\<not> fs_denied fs f" and "0 \<le> mb"
  shows "\<exists>l'. add_lun stamp l t lun f LUN_TYPE_HD mb fs =
      (update_file i (set_length (nat mb * MEGABYTE) (fs_data fs i)) fs, t\<lparr>td_luns := l' # td_luns t\<rparr>, Some l')
    \<and> ld_lun l' = of_int lun \<and> unit_ino l' = Some i \<and> ld_lunsizeinmb l' = mb
    \<and> (mb < 2048 \<longrightarrow> hd_ok (update_file i (set_length (nat mb * MEGABYTE) (fs_data fs i)) fs) l')"
proof -
  have "nat (mb * 1024 * 1024) = nat mb * MEGABYTE" using assms(3) by (simp add: MEGABYTE_def nat_mult_distrib)
  with assms show ?thesis
    by (simp add: add_lun_def Let_def open_disk_def fopen_r_plus_def truncate_off_t_def truncate_file_def link_lun_def
        update_file_def unit_ino_def hd_ok_def MEGABYTE_def nat_mult_distrib mult.commute)
qed

text \<open>Files with names, of which no two are the same file.\<close>

definition files_ok :: "fs \<Rightarrow> string list \<Rightarrow> bool" where
  "files_ok fs names \<longleftrightarrow> distinct (map (fs_dir fs) names) \<and> (\<forall>f\<in>set names. fs_dir fs f \<noteq> None \<and> \<not> fs_denied fs f)"

text \<open>What is known of a target while the disks from number \<open>i\<close> on are still to come.\<close>

definition partial_target :: "fs \<Rightarrow> target_data \<Rightarrow> nat \<Rightarrow> string list \<Rightarrow> bool" where
  "partial_target fs t i names \<longleftrightarrow> distinct (map ld_lun (td_luns t)) \<and> distinct (map unit_ino (td_luns t))
     \<and> (\<forall>l\<in>set (td_luns t). hd_ok fs l \<and> (\<exists>k<i. ld_lun l = of_nat k) \<and> unit_ino l \<notin> fs_dir fs ` set names)"

lemma add_luns_ok:
  assumes "files_ok fs names" and "partial_target fs t i names" and "0 \<le> mb" and "mb < 2048" and "i + length names \<le> 256"
  shows "\<exists>fs' t'. add_luns stamp mem i names mb t fs = (fs', t') \<and> partial_target fs' t' (i + length names) []
    \<and> td_type t' = td_type t \<and> map ld_lun (td_luns t') = rev (map of_nat [i ..< i + length names]) @ map ld_lun (td_luns t)
    \<and> map unit_ino (td_luns t') = rev (map (fs_dir fs) names) @ map unit_ino (td_luns t) \<and> fs_dir fs' = fs_dir fs
    \<and> (\<forall>n. fs_data fs' n = (if Some n \<in> fs_dir fs ` set names then set_length (nat mb * MEGABYTE) (fs_data fs n) else fs_data fs n))"
  using assms
proof (induction names arbitrary: i t fs)
  case Nil
  then show ?case by simp
next
  case (Cons f names)
  obtain ino where ino: "fs_dir fs f = Some ino" "\<not> fs_denied fs f" using Cons.prems(1) by (auto simp: files_ok_def)
  let ?fs = "update_file ino (set_length (nat mb * MEGABYTE) (fs_data fs ino)) fs"
  obtain l' where l': "add_lun stamp (mem i) t (int i) f LUN_TYPE_HD mb fs = (?fs, t\<lparr>td_luns := l' # td_luns t\<rparr>, Some l')"
      "ld_lun l' = of_nat i" "unit_ino l' = Some ino" "hd_ok ?fs l'"
    using add_disk [OF ino Cons.prems(3), of stamp "mem i" t "int i"] Cons.prems(4) by auto
  let ?t = "t\<lparr>td_luns := l' # td_luns t\<rparr>"
  have dir: "fs_dir ?fs = fs_dir fs" "fs_denied ?fs = fs_denied fs" by (simp_all add: update_file_def)
  have new: "Some ino \<notin> fs_dir fs ` set names"
    using Cons.prems(1) ino(1) by (auto simp: files_ok_def)
  have ok: "files_ok ?fs names" using Cons.prems(1) dir by (auto simp: files_ok_def)
  have old: "hd_ok ?fs x \<and> unit_ino x \<noteq> Some ino" if "x \<in> set (td_luns t)" for x
  proof -
    have x: "hd_ok fs x" "unit_ino x \<noteq> Some ino" using Cons.prems(2) that ino(1) by (auto simp: partial_target_def)
    then obtain h where "ld_fh x = Some h" "fh_ino h \<noteq> ino" using hd_okD [OF x(1)] by (metis option.inject)
    with x show ?thesis by (simp add: hd_ok_def update_file_def)
  qed
  have num: "(of_nat k :: u8) \<noteq> of_nat i" if "k < i" for k
    using that Cons.prems(5) by (simp add: word_of_nat_eq_iff take_bit_nat_eq_self)
  have ino_new: "Some ino \<notin> unit_ino ` set (td_luns t)" using old by (metis imageE)
  have lun_new: "ld_lun l' \<notin> ld_lun ` set (td_luns t)"
    using Cons.prems(2) l'(2) num by (auto simp: partial_target_def) (metis num)
  have part: "hd_ok ?fs x \<and> (\<exists>k<i + 1. ld_lun x = of_nat k) \<and> unit_ino x \<notin> fs_dir ?fs ` set names" if x: "x \<in> set (l' # td_luns t)" for x
  proof (cases "x = l'")
    case True
    then show ?thesis using l' new dir(1) by auto
  next
    case False
    then have x: "x \<in> set (td_luns t)" using x by simp
    then obtain k where "k < i" "ld_lun x = of_nat k" "unit_ino x \<notin> fs_dir fs ` set names"
      using Cons.prems(2) unfolding partial_target_def by (metis insertCI image_insert list.set(2))
    moreover from this have "\<exists>k<i + 1. ld_lun x = of_nat k" by (intro exI [of _ k]) simp
    ultimately show ?thesis using old [OF x] dir(1) by auto
  qed
  have "distinct (map ld_lun (l' # td_luns t))" "distinct (map unit_ino (l' # td_luns t))"
    using Cons.prems(2) lun_new ino_new l'(3) unfolding partial_target_def by simp_all
  with part have "partial_target ?fs ?t (i + 1) names" unfolding partial_target_def by simp
  from Cons.IH [OF ok this Cons.prems(3,4)] Cons.prems(5) obtain fs' t' where r:
      "add_luns stamp mem (i + 1) names mb ?t ?fs = (fs', t')" "partial_target fs' t' (i + 1 + length names) []"
      "td_type t' = td_type ?t" "map ld_lun (td_luns t') = rev (map of_nat [i + 1 ..< i + 1 + length names]) @ map ld_lun (td_luns ?t)"
      "map unit_ino (td_luns t') = rev (map (fs_dir ?fs) names) @ map unit_ino (td_luns ?t)" "fs_dir fs' = fs_dir ?fs"
      "\<forall>n. fs_data fs' n = (if Some n \<in> fs_dir ?fs ` set names then set_length (nat mb * MEGABYTE) (fs_data ?fs n) else fs_data ?fs n)"
    by auto
  have "fs_data fs' n = (if Some n \<in> fs_dir fs ` set (f # names) then set_length (nat mb * MEGABYTE) (fs_data fs n) else fs_data fs n)" for n
    using r(7) new ino(1) dir(1) by (auto simp: update_file_def)
  moreover have "[i ..< i + length (f # names)] = i # [i + 1 ..< i + 1 + length names]" using upt_conv_Cons [of i "i + length (f # names)"] by simp
  ultimately show ?case using r l' dir ino(1) by simp
qed

section \<open>The list of names\<close>

fun comma_list :: "string list \<Rightarrow> string" where
  "comma_list [] = []"
| "comma_list [f] = f"
| "comma_list (f # names) = f @ CHR 0x2c # comma_list names"

definition name_ok :: "string \<Rightarrow> bool" where
  "name_ok f \<longleftrightarrow> f \<noteq> [] \<and> length f \<le> 63 \<and> CHR 0x2c \<notin> set f"

lemma scan_name:
  assumes "CHR 0x2c \<notin> set f" and "length (pre @ f) \<le> 63"
  shows "scan_files fs (f @ rest) pre r = scan_files fs rest (pre @ f) r"
  using assms by (induction f arbitrary: pre) auto

lemma scan_comma_list:
  assumes "\<forall>f\<in>set names. name_ok f \<and> stat_size f fs = Some (sz f) \<and> sz f mod MEGABYTE = 0"
    and "distinct names" and "set names \<inter> set ns = {}" and "length ns + length names \<le> 256" and "names \<noteq> []"
  shows "scan_files fs (comma_list names) [] (ns, n) = Inr (ns @ names, sz (last names))"
  using assms
proof (induction names arbitrary: ns n rule: comma_list.induct)
  case (2 f)
  then show ?case using scan_name [of f "[]" fs "[]"] by (simp add: name_ok_def accept_name_def)
next
  case (3 f g names)
  have f: "name_ok f" "stat_size f fs = Some (sz f)" "sz f mod MEGABYTE = 0" using "3.prems"(1) by auto
  have "scan_files fs (comma_list (f # g # names)) [] (ns, n)
      = scan_files fs (CHR 0x2c # comma_list (g # names)) f (ns, n)"
    using scan_name [of f "[]" fs] f(1) by (simp add: name_ok_def)
  also have "\<dots> = scan_files fs (comma_list (g # names)) [] (ns @ [f], sz f)"
    using f "3.prems"(3,4) by (simp add: accept_name_def name_ok_def)
  also have "\<dots> = Inr ((ns @ [f]) @ g # names, sz (last (g # names)))"
    by (rule "3.IH") (use "3.prems" in auto)
  finally show ?case by simp
qed simp

section \<open>Properties\<close>

lemma arguments_ok: "parse_args [''-dev'', dev, ''-files'', files] no_args =
    Inr \<lparr>ar_opt = 0, ar_selection = 3, ar_devname = Some dev, ar_filenames = Some files, ar_verbose = False\<rparr>"
  by (simp add: no_args_def)

text \<open>
  With good names, disk \<open>k\<close> is the \<open>k\<close>-th name of the list, and every image has the size of the
  last one.
\<close>

lemma configured_disks:
  assumes "files_ok fs names" and "names \<noteq> []" and "length names \<le> 256"
    and "\<forall>f\<in>set names. name_ok f \<and> stat_size f fs = Some (sz f) \<and> sz f mod MEGABYTE = 0"
    and "sz (last names) < 2048 * MEGABYTE"
  shows "\<exists>su. configure_scsi_target stamp mem size0 [''-dev'', dev, ''-files'', comma_list names] [] fs = Inr su
    \<and> disk_target \<lparr>en_fs = su_fs su, en_target = su_target su, en_data = data\<rparr> \<and> su_devname su = dev
    \<and> length (td_luns (su_target su)) = length names
    \<and> (\<forall>m. unit_of \<lparr>en_fs = su_fs su, en_target = su_target su, en_data = data\<rparr> m \<noteq> None \<longleftrightarrow> unat m < length names)
    \<and> (\<forall>k<length names. \<exists>i. fs_dir fs (names ! k) = Some i
        \<and> lun_image \<lparr>en_fs = su_fs su, en_target = su_target su, en_data = data\<rparr> (of_nat k) = set_length (sz (last names)) (fs_data fs i))"
proof -
  let ?t = "\<lparr>td_type = TARGET_TYPE_EMULATION, td_targetname = ''virtual20mhd'', td_pt_device = 0, td_luns = []\<rparr>"
  let ?mb = "int (sz (last names) div MEGABYTE)"
  have "distinct names" using assms(1) by (auto simp: files_ok_def dest: distinct_map [THEN iffD1])
  with assms have scan: "scan_files fs (comma_list names) [] ([], size0) = Inr (names, sz (last names))"
    by (subst scan_comma_list) auto
  have "sz (last names) mod MEGABYTE = 0" using assms(2,4) by simp
  then have mb: "nat ?mb * MEGABYTE = sz (last names)" "0 \<le> ?mb" "?mb < 2048"
    using assms(5) by (auto simp: MEGABYTE_def)
  have "partial_target fs ?t 0 names" by (simp add: partial_target_def)
  from add_luns_ok [OF assms(1) this mb(2,3), of stamp mem] assms(3) obtain fs' t' where r:
      "add_luns stamp mem 0 names ?mb ?t fs = (fs', t')" "partial_target fs' t' (length names) []" "td_type t' = TARGET_TYPE_EMULATION"
      "map ld_lun (td_luns t') = rev (map of_nat [0 ..< length names])" "map unit_ino (td_luns t') = rev (map (fs_dir fs) names)"
      "\<forall>n. fs_data fs' n = (if Some n \<in> fs_dir fs ` set names then set_length (sz (last names)) (fs_data fs n) else fs_data fs n)"
    unfolding mb(1) by auto
  let ?su = "\<lparr>su_fs = fs', su_targets = [t'], su_target = t', su_devname = dev, su_verbose = False\<rparr>"
  let ?e = "\<lparr>en_fs = fs', en_target = t', en_data = data\<rparr>"
  have conf: "configure_scsi_target stamp mem size0 [''-dev'', dev, ''-files'', comma_list names] [] fs = Inr ?su"
    unfolding configure_scsi_target_def arguments_ok using scan r(1) by (simp add: add_target_def Let_def)
  have disks: "disk_target ?e" using r(2,3) by (simp add: disk_target_def partial_target_def)
  have len: "length (td_luns t') = length names" using arg_cong [OF r(5), of length] by simp
  have "\<exists>i. fs_dir fs (names ! k) = Some i \<and> lun_image ?e (of_nat k) = set_length (sz (last names)) (fs_data fs i)" if k: "k < length names" for k
  proof -
    let ?l = "td_luns t' ! (length names - 1 - k)"
    have l: "ld_lun ?l = of_nat k" "unit_ino ?l = fs_dir fs (names ! k)" "?l \<in> set (td_luns t')"
      using arg_cong [OF r(4), of "\<lambda>xs. xs ! (length names - 1 - k)"] arg_cong [OF r(5), of "\<lambda>xs. xs ! (length names - 1 - k)"] k len
      by (simp_all add: rev_nth)
    have "names ! k \<in> set names" using k by simp
    then obtain i where i: "fs_dir fs (names ! k) = Some i" using assms(1) unfolding files_ok_def by blast
    have "unit_of ?e (of_nat k) = Some ?l"
      using disks find_key [OF _ l(3), of ld_lun] l(1) by (simp add: disk_target_def unit_of_def)
    moreover have inset: "Some i \<in> fs_dir fs ` set names" using i k by (metis image_eqI nth_mem)
    moreover have "unit_image fs' ?l = set_length (sz (last names)) (fs_data fs i)"
      using r(6) i l(2) by (simp add: unit_image_ino inset)
    ultimately show ?thesis using i by (simp add: lun_image_def)
  qed
  moreover have "unit_of ?e m \<noteq> None \<longleftrightarrow> unat m < length names" for m
  proof -
    have "unit_of ?e m \<noteq> None \<longleftrightarrow> m \<in> set (map ld_lun (td_luns t'))" by (auto simp: unit_of_def find_None_iff)
    also have "\<dots> \<longleftrightarrow> m \<in> of_nat ` {0 ..< length names}" unfolding r(4) by simp
    also have "\<dots> \<longleftrightarrow> unat m < length names"
      using assms(3) by (auto simp: unat_of_nat intro: image_eqI [where x = "unat m"])
    finally show ?thesis .
  qed
  ultimately show ?thesis using conf disks len by auto
qed

definition demo_files :: fs where
  "demo_files = \<lparr>fs_dir = [''a'' \<mapsto> 1, ''b'' \<mapsto> 2], fs_data = (\<lambda>i. replicate (i * MEGABYTE) 7), fs_next = 3, fs_denied = (\<lambda>_. False)\<rparr>"

text \<open>
  \<open>-dev\<close> overwrites the record of the options seen, so the same options in the other
  order are refused: \<open>-files\<close> before \<open>-dev\<close> ends the program, whatever the names are.
\<close>

lemma files_before_dev_refused:
  "configure_scsi_target stamp mem size0 [''-files'', files, ''-dev'', dev] targets fs = Inl (Exit 100)"
  by (simp add: configure_scsi_target_def no_args_def)

end
