(* ===== verification/Statuses.thy ===== *)
theory Statuses
  imports Target
begin

text \<open>
  The type of the engine's answers: of the 256 values of a status byte the commands use two, GOOD (0)
  and CHECK CONDITION (2).
\<close>

text \<open>A command sets the status to 0 or 2, or leaves it.\<close>

definition two_statuses :: "scsi_io \<Rightarrow> scsi_io res \<Rightarrow> bool" where
  "two_statuses io r \<longleftrightarrow> (\<forall>io'. io_status io \<in> {0, 2} \<longrightarrow> r = Inr io' \<longrightarrow> io_status io' \<in> {0, 2})"

named_theorems status_intros "how commands that answer 0 or 2 are put together"

lemma status_end [status_intros]:
  "st \<in> {0, 2} \<Longrightarrow> two_statuses io0 (finish_cmd n st io)" "two_statuses io0 (check_condition io)"
  "two_statuses io0 (ILLEGAL_REQUEST io)" "two_statuses io (put_data off bs io)" "two_statuses io (clear_data k io)"
  "two_statuses io0 (Inl f)" "two_statuses io (Inr io)"
  by (auto simp: two_statuses_def finish_cmd_def check_condition_def ILLEGAL_REQUEST_def put_data_def clear_data_def and_then_Inr_iff)

lemma status_set:
  "io_status io' \<in> {0, 2} \<Longrightarrow> two_statuses io (put_data off bs io')" "io_status io' \<in> {0, 2} \<Longrightarrow> two_statuses io (clear_data k io')"
  "io_status io' \<in> {0, 2} \<Longrightarrow> two_statuses io (Inr io')"
  by (auto simp: two_statuses_def put_data_def clear_data_def and_then_Inr_iff)

lemma status_then:
  "(\<And>io'. two_statuses io (f io') ) \<Longrightarrow> two_statuses io (and_then m f)"
  by (auto simp: two_statuses_def and_then_Inr_iff)

lemma status_if: "(b \<Longrightarrow> two_statuses io r) \<Longrightarrow> (\<not> b \<Longrightarrow> two_statuses io r') \<Longrightarrow> two_statuses io (if b then r else r')"
  by simp

text \<open>The handlers' definitions, and the pieces whose branches end a handler.\<close>

lemmas handler_defs = spc_report_luns_def spc_test_unit_ready_def spc_request_sense_def spc_mode_sense6_def mode_sense_other_def
  spc_mode_sense10_def spc_mode_select10_def spc_prevent_allow_media_removal_def spc_persistent_reserve_in_def
  spc_persistent_reserve_out_def spc_inquiry_def mmc_read_buffer_capacity_def mmc_synchronize_cache_def mmc_reserve_track_def
  mmc_read_disc_information_def mmc_read_track_information_def mmc_prevent_allow_media_removal_def mmc_start_stop_unit_def
  mmc_set_cd_speed_def mmc_set_streaming_def mmc_read_toc_def mmc_get_performance_def mmc_read_dvd_structure_def
  dvd_structure_lead_in_def mmc_report_key_def mmc_get_configuration_def sbc_verify10_def sbc_verify12_def sbc_verify16_def
  sbc_read_capacity10_def sbc_read10_def sbc_write12_def sbc_write10_def sbc_write6_def write_blocks_def

lemma handlers_two_statuses: "two_statuses io (call_command stamp f td cdb io)"
proof (cases f)
qed (auto simp: status_set handler_defs Let_def with_fh_def sense_is_ok_def intro!: status_end status_then status_if
    split: option.split prod.split)

lemma call_two_statuses:
  "call_command stamp f td cdb io = Inr io' \<Longrightarrow> io_status io = 0 \<Longrightarrow> io_status io' = 0 \<or> io_status io' = 2"
  using handlers_two_statuses [of io stamp f td cdb] by (auto simp: two_statuses_def)

lemma run_two_statuses:
  assumes "run_scsi_command stamp lun cdb sz e = Inr (e', st)"
  shows "st = 0 \<or> st = 2"
  using assms by (auto simp: run_scsi_command_def Let_def and_then_Inr_iff dest: call_two_statuses split: option.splits if_splits)

text \<open>
  C28.  The engine's statuses.  Whatever the target, its units, their state and the bytes of the command
  block, a command that returns has one of the two statuses GOOD and CHECK CONDITION.
\<close>

theorem status_type:
  "case run_scsi_command stamp lun cdb sz e of Inl f \<Rightarrow> True | Inr (e', st) \<Rightarrow> st \<in> {0, 2}"
  using run_two_statuses by (fastforce split: sum.splits)

end
