(* ===== verification/Server.thy ===== *)
theory Server
  imports Api Config Statuses
begin

text \<open>
  The target process at work: the loop of \<open>main\<close> in \<open>user/main.c\<close>, which takes tasks from
  the driver and gives them to the SCSI engine.  Its theorems go all the way: from a command that is
  pending in the kernel, through \<open>read\<close> and \<open>ioctl\<close>, the engine and the disk image, to the
  answer \<open>write\<close> makes of it.
\<close>

section \<open>One turn of the loop\<close>

record server =
  sv_client :: client
  sv_fs :: fs
  sv_target :: target_data

text \<open>
  The request buffer from byte \<open>off\<close> on is the engine's data buffer.  \<open>run_at\<close> runs the task's
  command there and stores its status in the task.
\<close>

definition engine_at :: "nat \<Rightarrow> server \<Rightarrow> engine" where
  "engine_at off v = \<lparr>en_fs = sv_fs v, en_target = sv_target v, en_data = drop off (ut_request_buffer (cl_task (sv_client v)))\<rparr>"

definition run_at :: "string \<Rightarrow> nat \<Rightarrow> server \<Rightarrow> server res" where
  "run_at stamp off v =
     (let u = cl_task (sv_client v)
      in and_then (run_scsi_command stamp (ucast (ut_lun u)) (ut_cdb u) (sint (ut_request_bufflen u)) (engine_at off v)) (\<lambda>(e, st).
           Inr \<lparr>sv_client = (sv_client v)\<lparr>cl_task := u\<lparr>ut_request_buffer := take off (ut_request_buffer u) @ en_data e, ut_status := uint st\<rparr>\<rparr>,
                sv_fs = en_fs e, sv_target = en_target e\<rparr>))"

definition complete_or_exit :: "slab \<Rightarrow> server \<Rightarrow> server res" where
  "complete_or_exit sl v =
     and_then (complete_scsi_task sl (sv_client v)) (\<lambda>(k, r). if r < 0 then Inl (Exit 1) else Inr (v\<lparr>sv_client := k\<rparr>))"

definition serve_in :: "slab \<Rightarrow> string \<Rightarrow> server \<Rightarrow> server res" where
  "serve_in sl stamp v =
     (if ut_direction (cl_task (sv_client v)) \<noteq> chr_I then Inr v
      else and_then (run_at stamp 6 v) (complete_or_exit sl))"

text \<open>\<open>None\<close>: the call sleeps.\<close>

definition serve_out :: "slab \<Rightarrow> bool \<Rightarrow> string \<Rightarrow> server \<Rightarrow> server option res" where
  "serve_out sl sig stamp v =
     (if ut_direction (cl_task (sv_client v)) \<noteq> chr_O then Inr (Some v)
      else and_then (receive_scsi_data sl sig (sv_client v)) (\<lambda>r. case r of
          None \<Rightarrow> Inr None
        | Some (k, x) \<Rightarrow>
            if x < 0 then Inl (Exit 1)
            else and_then (run_at stamp 31 (v\<lparr>sv_client := k\<rparr>)) (\<lambda>v'.
              and_then (complete_or_exit sl (v'\<lparr>sv_client := (sv_client v')\<lparr>cl_task := (cl_task (sv_client v'))\<lparr>ut_request_bufflen := 0\<rparr>\<rparr>\<rparr>)) (\<lambda>v''.
                Inr (Some v'')))))"

definition server_step :: "slab \<Rightarrow> bool \<Rightarrow> string \<Rightarrow> server \<Rightarrow> server option res" where
  "server_step sl sig stamp v =
     and_then (get_scsi_task sl sig (sv_client v)) (\<lambda>r. case r of
         None \<Rightarrow> Inr None
       | Some (k, x) \<Rightarrow>
           if x < 0 then Inl (Exit 1)
           else if x \<noteq> 0 then Inr (Some (v\<lparr>sv_client := k\<rparr>))
           else and_then (serve_in sl stamp (v\<lparr>sv_client := k\<rparr>)) (serve_out sl sig stamp))"

text \<open>The first \<open>n\<close> turns; the loop goes no further when a call sleeps.\<close>

fun server_loop :: "slab \<Rightarrow> bool \<Rightarrow> string \<Rightarrow> nat \<Rightarrow> server \<Rightarrow> server option res" where
  "server_loop sl sig stamp 0 v = Inr (Some v)"
| "server_loop sl sig stamp (Suc n) v =
     and_then (server_step sl sig stamp v) (\<lambda>r. case r of None \<Rightarrow> Inr None | Some v' \<Rightarrow> server_loop sl sig stamp n v')"

section \<open>Taking a task\<close>

text \<open>
  A target at the session \<open>s\<close>, whose oldest task that no one has claimed is \<open>t\<close>; its command
  block has every byte its operation code calls for, as the mid layer sees to.
\<close>

definition command_size :: "u8 \<Rightarrow> nat" where
  "command_size op = (if op < 0x20 then 6 else if op < 0x60 then 10 else if op < 0x80 then 12
     else if op < 0xa0 then 16 else if op < 0xc0 then 12 else 10)"

definition whole_cdb :: "scsi_cmnd \<Rightarrow> bool" where
  "whole_cdb c \<longleftrightarrow> unat (sc_cmd_len c) \<le> 16 \<and> command_size (sc_cmnd c ! 0) \<le> unat (sc_cmd_len c)"

definition server_ok :: "server \<Rightarrow> nat \<Rightarrow> scsitap_session \<Rightarrow> bool" where
  "server_ok v p s \<longleftrightarrow> serving (sv_client v) p s \<and> numbers_inv s \<and> length (ut_cdb (cl_task (sv_client v))) = 16
     \<and> length (ut_request_buffer (cl_task (sv_client v))) = BUFFER_SIZE \<and> disk_target (engine_at 6 v)"

definition awaits :: "scsitap_session \<Rightarrow> scsitap_task \<Rightarrow> bool" where
  "awaits s t \<longleftrightarrow> (\<exists>earlier later. ss_queue s = earlier @ t # later \<and> tk_flags t = SCSITAP_TASK_SUBMITTED
     \<and> (\<forall>u\<in>set earlier. tk_flags u = SCSITAP_TASK_RECEIVED))"

lemma engine_at_sel [simp]:
  "en_fs (engine_at n v) = sv_fs v" "en_target (engine_at n v) = sv_target v"
  "en_data (engine_at n v) = drop n (ut_request_buffer (cl_task (sv_client v)))"
  by (simp_all add: engine_at_def)

text \<open>What is left of an earlier command in the target's copy of the block does not matter.\<close>

lemma whole_cdb_fields:
  assumes "whole_cdb c" and "wf_cmnd c" and "length old = 16"
    and "cdb = patch 0 (take (unat (sc_cmd_len c)) (sc_cmnd c)) old"
  shows "cdb ! 0 = sc_cmnd c ! 0" and "transfer_len cdb = transfer_len (sc_cmnd c)"
    and "sc_cmnd c ! 0 \<in> {0x28, 0x2a, 0xaa, 0x0a} \<Longrightarrow> transfer_lba cdb = transfer_lba (sc_cmnd c)"
proof -
  let ?n = "unat (sc_cmd_len c)"
  have len: "length (sc_cmnd c) = 16" using assms(2) by (simp add: wf_cmnd_def MAX_COMMAND_SIZE_def)
  have nth: "cdb ! i = sc_cmnd c ! i" if "i < ?n" for i
    using that assms(1,3,4) len by (simp add: whole_cdb_def nth_patch)
  have seg: "segment i m cdb = segment i m (sc_cmnd c)" if "i + m \<le> ?n" for i m
    by (rule nth_equalityI) (use that assms(1,3,4) len nth in \<open>auto simp: whole_cdb_def nth_segment\<close>)
  have n: "command_size (sc_cmnd c ! 0) \<le> ?n" "?n \<le> 16" using assms(1) by (simp_all add: whole_cdb_def)
  have "0 < command_size (sc_cmnd c ! 0)" by (simp add: command_size_def)
  then show op: "cdb ! 0 = sc_cmnd c ! 0" using n(1) by (intro nth) simp
  show "transfer_len cdb = transfer_len (sc_cmnd c)"
  proof -
    consider "sc_cmnd c ! 0 \<in> {0x28, 0x2a}" | "sc_cmnd c ! 0 = 0xaa" | "sc_cmnd c ! 0 = 0x0a" | "sc_cmnd c ! 0 \<notin> {0x28, 0x2a, 0xaa, 0x0a}"
      by blast
    then show ?thesis
    proof cases
      case 1
      then have "10 \<le> ?n" using n(1) by (auto simp: command_size_def)
      with 1 op show ?thesis by (auto simp: transfer_len_def cdb_be16_def seg)
    next
      case 2
      then have "12 \<le> ?n" using n(1) by (simp add: command_size_def)
      with 2 op show ?thesis by (simp add: transfer_len_def cdb_be32_def seg)
    next
      case 3
      then have "6 \<le> ?n" using n(1) by (simp add: command_size_def)
      with 3 op show ?thesis by (simp add: transfer_len_def nth)
    qed (use op in \<open>simp add: transfer_len_def\<close>)
  qed
  show "transfer_lba cdb = transfer_lba (sc_cmnd c)" if "sc_cmnd c ! 0 \<in> {0x28, 0x2a, 0xaa, 0x0a}"
  proof -
    have "6 \<le> ?n" using n(1) that by (auto simp: command_size_def)
    with op show ?thesis by (simp add: transfer_lba_def cdb_be32_def cdb_be16_def seg)
  qed
qed

lemma numbers_inv_flags [simp]: "numbers_inv (set_task_flags a f s) = numbers_inv s"
  by (simp add: numbers_inv_def set_task_flags_def sorted_wrt_map del: if_split if_image_distrib)

lemma finished_numbers:
  assumes "finished s t s'" and "numbers_inv s"
  shows "numbers_inv s'"
  using assms by (auto simp: finished_def numbers_inv_def intro: sorted_wrt_filter)

text \<open>To have claimed a task first makes no difference once it is finished.\<close>

lemma finished_claimed:
  assumes "finished (set_task_flags (tk_addr t) f s) (t\<lparr>tk_flags := f\<rparr>) s'"
  shows "finished s t s'"
proof -
  have "filter (\<lambda>u. tk_addr u \<noteq> a) (map (\<lambda>u. if tk_addr u = a then u\<lparr>tk_flags := f\<rparr> else u) q) = filter (\<lambda>u. tk_addr u \<noteq> a) q" for a q
    by (induction q) simp_all
  then have "filter (\<lambda>u. tk_addr u \<noteq> tk_addr t) (ss_queue (set_task_flags (tk_addr t) f s)) = filter (\<lambda>u. tk_addr u \<noteq> tk_addr t) (ss_queue s)"
    by (simp add: set_task_flags_def)
  moreover have "ss_next_cmdnumber (set_task_flags (tk_addr t) f s) = ss_next_cmdnumber s" by (simp add: set_task_flags_def)
  moreover have "pending (set_task_flags (tk_addr t) f s) = pending s" by simp
  ultimately show ?thesis using assms unfolding finished_def by auto
qed

lemma server_ok_client:
  assumes "server_ok v p s" and "serving k p s'" and "numbers_inv s'" and "length (ut_cdb (cl_task k)) = 16"
    and "length (ut_request_buffer (cl_task k)) = BUFFER_SIZE"
  shows "server_ok (v\<lparr>sv_client := k\<rparr>) p s'"
  using assms engine_cong(1) [of "engine_at 6 (v\<lparr>sv_client := k\<rparr>)" "engine_at 6 v"] by (simp add: server_ok_def)

lemma find_task:
  assumes "server_ok v p s" and "awaits s t" and "c = ss_cmnds s (tk_sc t)" and "whole_cdb c"
  shows "\<exists>k. read_header sig (sv_client v) = Inr (Some (k, 0)) \<and> server_ok (v\<lparr>sv_client := k\<rparr>) p s
    \<and> ut_cmd_number (cl_task k) = tk_cmd_number t \<and> ut_lun (cl_task k) = tk_lun t
    \<and> ut_direction (cl_task k) = (if sc_data_direction c = DMA_TO_DEVICE then chr_O else chr_I)
    \<and> ut_request_bufflen (cl_task k) = sc_request_bufflen c
    \<and> ut_cdb (cl_task k) ! 0 = sc_cmnd c ! 0 \<and> transfer_len (ut_cdb (cl_task k)) = transfer_len (sc_cmnd c)
    \<and> (sc_cmnd c ! 0 \<in> {0x28, 0x2a, 0xaa, 0x0a} \<longrightarrow> transfer_lba (ut_cdb (cl_task k)) = transfer_lba (sc_cmnd c))
    \<and> ut_request_buffer (cl_task k) = ut_request_buffer (cl_task (sv_client v))"
proof -
  let ?u = "cl_task (sv_client v)"
  have v: "serving (sv_client v) p s" "numbers_inv s" "length (ut_cdb ?u) = 16" "length (ut_request_buffer ?u) = BUFFER_SIZE"
    using assms(1) by (auto simp: server_ok_def)
  obtain earlier later where q: "ss_queue s = earlier @ t # later" "tk_flags t = SCSITAP_TASK_SUBMITTED"
      "\<forall>u\<in>set earlier. tk_flags u = SCSITAP_TASK_RECEIVED"
    using assms(2) by (auto simp: awaits_def)
  have wf: "wf_cmnd c" using v(1) q(1) assms(3) session_okD(6) [of s t] by (simp add: serving_def)
  let ?cdb = "patch 0 (take (unat (sc_cmd_len c)) (sc_cmnd c)) (ut_cdb ?u)"
  have n: "unat (sc_cmd_len c) \<le> 16" using assms(4) by (simp add: whole_cdb_def)
  note fields = whole_cdb_fields [OF assms(4) wf v(3) refl]
  have lcdb: "length ?cdb = 16" using n v(3) by simp
  obtain k where k: "read_header sig (sv_client v) = Inr (Some (k, 0))" "serving k p s"
      "cl_task k = ?u\<lparr>ut_type := tk_type t, ut_direction := (if sc_data_direction c = DMA_TO_DEVICE then chr_O else chr_I),
        ut_cmd_number := tk_cmd_number t, ut_lun := tk_lun t, ut_cdblen := sc_cmd_len c, ut_cdb := ?cdb,
        ut_request_bufflen := sc_request_bufflen c\<rparr>"
    using read_header_ok [OF v(1) q assms(3) n v(3), of sig] by auto
  have "server_ok (v\<lparr>sv_client := k\<rparr>) p s"
    by (rule server_ok_client [OF assms(1) k(2) v(2)]) (use k(3) v(4) lcdb in simp_all)
  with k(1,3) fields show ?thesis by simp
qed

lemma awaits_number:
  assumes "server_ok v p s" and "awaits s t"
  shows "task_of_cmd s (tk_cmd_number t) = Some t"
  using find_sorted_number [of "ss_queue s" t] assms
  by (auto simp: task_of_cmd_def server_ok_def numbers_inv_def awaits_def)

lemma take_task:
  assumes "server_ok v p s" and "awaits s t" and "c = ss_cmnds s (tk_sc t)" and "whole_cdb c"
  shows "\<exists>k. get_scsi_task sl sig (sv_client v) = Inr (Some (k, 0))
    \<and> server_ok (v\<lparr>sv_client := k\<rparr>) p (set_task_flags (tk_addr t) SCSITAP_TASK_RECEIVED s)
    \<and> ut_cmd_number (cl_task k) = tk_cmd_number t \<and> ut_lun (cl_task k) = tk_lun t
    \<and> ut_direction (cl_task k) = (if sc_data_direction c = DMA_TO_DEVICE then chr_O else chr_I)
    \<and> ut_request_bufflen (cl_task k) = sc_request_bufflen c
    \<and> ut_cdb (cl_task k) ! 0 = sc_cmnd c ! 0 \<and> transfer_len (ut_cdb (cl_task k)) = transfer_len (sc_cmnd c)
    \<and> (sc_cmnd c ! 0 \<in> {0x28, 0x2a, 0xaa, 0x0a} \<longrightarrow> transfer_lba (ut_cdb (cl_task k)) = transfer_lba (sc_cmnd c))
    \<and> ut_request_buffer (cl_task k) = ut_request_buffer (cl_task (sv_client v))"
proof -
  obtain k1 where k1: "read_header sig (sv_client v) = Inr (Some (k1, 0))" "server_ok (v\<lparr>sv_client := k1\<rparr>) p s"
      "ut_cmd_number (cl_task k1) = tk_cmd_number t" "ut_lun (cl_task k1) = tk_lun t"
      "ut_direction (cl_task k1) = (if sc_data_direction c = DMA_TO_DEVICE then chr_O else chr_I)"
      "ut_request_bufflen (cl_task k1) = sc_request_bufflen c"
      "ut_cdb (cl_task k1) ! 0 = sc_cmnd c ! 0" "transfer_len (ut_cdb (cl_task k1)) = transfer_len (sc_cmnd c)"
      "sc_cmnd c ! 0 \<in> {0x28, 0x2a, 0xaa, 0x0a} \<longrightarrow> transfer_lba (ut_cdb (cl_task k1)) = transfer_lba (sc_cmnd c)"
      "ut_request_buffer (cl_task k1) = ut_request_buffer (cl_task (sv_client v))"
    using find_task [OF assms, of sig] by blast
  have sv: "serving k1 p s" "numbers_inv s" "length (ut_cdb (cl_task k1)) = 16" "length (ut_request_buffer (cl_task k1)) = BUFFER_SIZE"
    using k1(2) by (simp_all add: server_ok_def)
  have "task_of_cmd s (ut_cmd_number (cl_task k1)) = Some t" using awaits_number [OF assms(1,2)] k1(3) by simp
  from claim_ok [OF sv(1) this, of sl] obtain k where k: "claim_task sl k1 = Inr (k, 0)"
      "serving k p (set_task_flags (tk_addr t) SCSITAP_TASK_RECEIVED s)" "cl_task k = cl_task k1" by blast
  have "server_ok (v\<lparr>sv_client := k\<rparr>) p (set_task_flags (tk_addr t) SCSITAP_TASK_RECEIVED s)"
    by (rule server_ok_client [OF assms(1) k(2)]) (use k(3) sv(2-4) in simp_all)
  with k k1 show ?thesis by (simp add: get_as_calls)
qed

text \<open>Whatever the engine's status is, the answer finishes the command.\<close>

lemma finish_any:
  assumes "session_ok s" and "ss_flags s = SCSITAP_CONNECTION_READY" and "slab_ok sl" and "task_of_cmd s n = Some t"
    and "d = [] \<or> length d = unat (sc_request_bufflen (ss_cmnds s (tk_sc t)))" and "14 \<le> length (d @ rest)"
  shows "\<exists>s'. ctl_write sl (6 + length d) (answer n st d @ rest) s = Inr (s', to_int (6 + length d)) \<and> finished s t s'
    \<and> (drop_bit 7 st = 0 \<longrightarrow> sc_result (ss_cmnds s' (tk_sc t)) = ucast st)
    \<and> (st = 0 \<and> d \<noteq> [] \<longrightarrow> cmnd_data (ss_cmnds s' (tk_sc t)) = d)
    \<and> (st \<noteq> 0 \<and> drop_bit 7 st = 0 \<longrightarrow> sc_sense_buffer (ss_cmnds s' (tk_sc t)) ! 0 = 0x70
        \<and> sc_sense_buffer (ss_cmnds s' (tk_sc t)) ! 2 = 0)"
proof -
  consider "st = 0" "d = []" | "st = 0" "d \<noteq> []" | "st \<noteq> 0" "drop_bit 7 st = 0" | "drop_bit 7 st \<noteq> 0" by blast
  then show ?thesis
  proof cases
    case 1
    with write_good_no_data_fact [OF assms(1-4), of rest] show ?thesis by auto
  next
    case 2
    with write_good_data_fact [OF assms(1-4), of d rest] assms(5) show ?thesis by auto
  next
    case 3
    with write_status_only_fact [OF assms(1-4), of st "6 + length d" d rest] show ?thesis by auto
  next
    case 4
    have "answer n st d @ rest = answer n st (take 14 (d @ rest)) @ drop 14 (d @ rest)"
      by (simp add: answer_def del: take_append drop_append)
    with write_sense_data_fact [OF assms(1-4) 4, of "take 14 (d @ rest)" "6 + length d" "drop 14 (d @ rest)"] assms(6) 4 show ?thesis
      by (auto simp del: take_append drop_append)
  qed
qed

section \<open>A whole turn\<close>

text \<open>Answering with what the engine left in the task: \<open>n\<close> bytes of data go with the status.\<close>

lemma complete_turn:
  assumes "server_ok v p s" and "slab_ok sl" and "u = cl_task (sv_client v)" and "task_of_cmd s (ut_cmd_number u) = Some t"
    and "n = unat (ut_request_bufflen u)" and "n + 6 < BUFFER_SIZE" and "ut_status u = uint (st :: u8)"
    and "n = 0 \<or> n = unat (sc_request_bufflen (ss_cmnds s (tk_sc t)))" and "d = segment 6 n (ut_request_buffer u)"
  shows "\<exists>v' s'. complete_or_exit sl v = Inr v' \<and> server_ok v' p s' \<and> sv_fs v' = sv_fs v \<and> sv_target v' = sv_target v \<and> finished s t s'
    \<and> ut_direction (cl_task (sv_client v')) = ut_direction u
    \<and> (drop_bit 7 st = 0 \<longrightarrow> sc_result (ss_cmnds s' (tk_sc t)) = ucast st)
    \<and> (st = 0 \<and> d \<noteq> [] \<longrightarrow> cmnd_data (ss_cmnds s' (tk_sc t)) = d)
    \<and> (st \<noteq> 0 \<and> drop_bit 7 st = 0 \<longrightarrow> sc_sense_buffer (ss_cmnds s' (tk_sc t)) ! 0 = 0x70
        \<and> sc_sense_buffer (ss_cmnds s' (tk_sc t)) ! 2 = 0)"
proof -
  have v: "serving (sv_client v) p s" "numbers_inv s" "length (ut_cdb u) = 16" "length (ut_request_buffer u) = BUFFER_SIZE"
      "disk_target (engine_at 6 v)"
    using assms(1,3) by (auto simp: server_ok_def)
  have s: "session_ok s" "ss_flags s = SCSITAP_CONNECTION_READY" using v(1) by (auto simp: serving_def)
  let ?rest = "drop (6 + n) (ut_request_buffer u)"
  have len: "length d = n" "14 \<le> length (d @ ?rest)" using v(4) assms(6,9) by (simp_all add: BUFFER_SIZE_def)
  obtain s' where s': "ctl_write sl (6 + n) (answer (ut_cmd_number u) st d @ ?rest) s = Inr (s', int (6 + n))" "finished s t s'"
      "drop_bit 7 st = 0 \<longrightarrow> sc_result (ss_cmnds s' (tk_sc t)) = ucast st"
      "st = 0 \<and> d \<noteq> [] \<longrightarrow> cmnd_data (ss_cmnds s' (tk_sc t)) = d"
      "st \<noteq> 0 \<and> drop_bit 7 st = 0 \<longrightarrow> sc_sense_buffer (ss_cmnds s' (tk_sc t)) ! 0 = 0x70 \<and> sc_sense_buffer (ss_cmnds s' (tk_sc t)) ! 2 = 0"
    using finish_any [OF s assms(2,4), of d ?rest st] len assms(6,8) by (auto simp: BUFFER_SIZE_def)
  have ok': "session_ok s'" using s'(2) by (simp add: finished_def)
  have st: "of_int (ut_status u) = st" using assms(7) by simp
  obtain k where k: "complete_scsi_task sl (sv_client v) = Inr (k, 0)" "serving k p s'"
      "\<exists>b. cl_task k = u\<lparr>ut_request_buffer := b\<rparr> \<and> length b = length (ut_request_buffer u)"
    using complete_ok [OF v(1), of n sl s'] s'(1) ok' st assms(3,5,6,9) v(4) by (auto simp: BUFFER_SIZE_def)
  let ?v = "v\<lparr>sv_client := k\<rparr>"
  have "server_ok ?v p s'"
    using k(2,3) finished_numbers [OF s'(2) v(2)] v(3-5) engine_cong(1) [of "engine_at 6 ?v" "engine_at 6 v"]
    by (auto simp: server_ok_def)
  moreover have "ut_direction (cl_task k) = ut_direction u" using k(3) by auto
  ultimately show ?thesis
    using k(1) s'(2-5) by (intro exI [of _ ?v] exI [of _ s']) (simp add: complete_or_exit_def)
qed

text \<open>Running the command of the task in the buffer.\<close>

lemma run_turn:
  assumes "server_ok v p s" and "u = cl_task (sv_client v)" and "off \<le> 31"
    and "run_scsi_command stamp (ucast (ut_lun u)) (ut_cdb u) (sint (ut_request_bufflen u)) (engine_at off v) = Inr (e, st)"
    and "disk_target e" and "length (en_data e) = length (en_data (engine_at off v))"
  shows "\<exists>v'. run_at stamp off v = Inr v' \<and> server_ok v' p s \<and> sv_fs v' = en_fs e \<and> sv_target v' = en_target e
    \<and> cl_task (sv_client v') = u\<lparr>ut_request_buffer := take off (ut_request_buffer u) @ en_data e, ut_status := uint st\<rparr>"
proof -
  let ?v = "\<lparr>sv_client = (sv_client v)\<lparr>cl_task := u\<lparr>ut_request_buffer := take off (ut_request_buffer u) @ en_data e, ut_status := uint st\<rparr>\<rparr>,
      sv_fs = en_fs e, sv_target = en_target e\<rparr>"
  have v: "serving (sv_client v) p s" "numbers_inv s" "length (ut_cdb u) = 16" "length (ut_request_buffer u) = BUFFER_SIZE"
    using assms(1,2) by (auto simp: server_ok_def)
  have "server_ok ?v p s"
    using v assms(2,3,5,6) engine_cong(1) [of "engine_at 6 ?v" e]
    by (simp add: server_ok_def serving_def BUFFER_SIZE_def)
  then show ?thesis using assms(2,4) by (intro exI [of _ ?v]) (simp add: run_at_def Let_def)
qed

text \<open>
  A turn that serves a command: what it leaves is the engine's files and target, and the session with
  the command finished; the result is the engine's status.
\<close>

definition served :: "server \<Rightarrow> nat \<Rightarrow> scsitap_session \<Rightarrow> scsitap_task \<Rightarrow> engine \<Rightarrow> u8 \<Rightarrow> server \<Rightarrow> scsitap_session \<Rightarrow> bool" where
  "served v p s t e st v' s' \<longleftrightarrow> server_ok v' p s' \<and> sv_fs v' = en_fs e \<and> sv_target v' = en_target e \<and> finished s t s'
     \<and> (drop_bit 7 st = 0 \<longrightarrow> sc_result (ss_cmnds s' (tk_sc t)) = ucast st)
     \<and> (st \<noteq> 0 \<and> drop_bit 7 st = 0 \<longrightarrow> sc_sense_buffer (ss_cmnds s' (tk_sc t)) ! 0 = 0x70
         \<and> sc_sense_buffer (ss_cmnds s' (tk_sc t)) ! 2 = 0)"

text \<open>What the engine is given: the command block as far as it matters, and a buffer.\<close>

definition engine_runs :: "string \<Rightarrow> server \<Rightarrow> scsitap_task \<Rightarrow> scsi_cmnd \<Rightarrow> nat \<Rightarrow> bytes \<Rightarrow> (engine \<Rightarrow> u8 \<Rightarrow> bool) \<Rightarrow> bool" where
  "engine_runs stamp v t c off d Q \<longleftrightarrow>
     (\<forall>cdb. cdb ! 0 = sc_cmnd c ! 0 \<longrightarrow> transfer_len cdb = transfer_len (sc_cmnd c) \<longrightarrow>
        (sc_cmnd c ! 0 \<in> {0x28, 0x2a, 0xaa, 0x0a} \<longrightarrow> transfer_lba cdb = transfer_lba (sc_cmnd c)) \<longrightarrow>
        (\<exists>e st. run_scsi_command stamp (ucast (tk_lun t)) cdb (int (unat (sc_request_bufflen c))) ((engine_at off v)\<lparr>en_data := d\<rparr>) = Inr (e, st)
           \<and> disk_target e \<and> length (en_data e) = length d \<and> Q e st))"

lemma turn_in:
  assumes "server_ok v p s" and "awaits s t" and "c = ss_cmnds s (tk_sc t)" and "whole_cdb c" and "slab_ok sl"
    and "sc_data_direction c \<noteq> DMA_TO_DEVICE" and "unat (sc_request_bufflen c) + 6 < BUFFER_SIZE"
    and "engine_runs stamp v t c 6 (en_data (engine_at 6 v)) Q"
  shows "\<exists>v' s' e st. server_step sl sig stamp v = Inr (Some v') \<and> served v p s t e st v' s' \<and> Q e st
    \<and> (st = 0 \<and> 0 < unat (sc_request_bufflen c) \<longrightarrow> cmnd_data (ss_cmnds s' (tk_sc t)) = segment 0 (unat (sc_request_bufflen c)) (en_data e))"
proof -
  let ?n = "unat (sc_request_bufflen c)" and ?s = "set_task_flags (tk_addr t) SCSITAP_TASK_RECEIVED s" and ?t = "t\<lparr>tk_flags := SCSITAP_TASK_RECEIVED\<rparr>"
  obtain k where k: "get_scsi_task sl sig (sv_client v) = Inr (Some (k, 0))" and ok: "server_ok (v\<lparr>sv_client := k\<rparr>) p ?s"
    and u: "ut_cmd_number (cl_task k) = tk_cmd_number t" "ut_lun (cl_task k) = tk_lun t" "ut_direction (cl_task k) = chr_I"
      "ut_request_bufflen (cl_task k) = sc_request_bufflen c" "ut_request_buffer (cl_task k) = ut_request_buffer (cl_task (sv_client v))"
    and cdb: "ut_cdb (cl_task k) ! 0 = sc_cmnd c ! 0" "transfer_len (ut_cdb (cl_task k)) = transfer_len (sc_cmnd c)"
      "sc_cmnd c ! 0 \<in> {0x28, 0x2a, 0xaa, 0x0a} \<longrightarrow> transfer_lba (ut_cdb (cl_task k)) = transfer_lba (sc_cmnd c)"
    using take_task [OF assms(1-4), of sl sig] assms(6) by auto
  let ?v = "v\<lparr>sv_client := k\<rparr>"
  have n: "sint (sc_request_bufflen c) = int ?n" by (rule sint_small) (use assms(7) in \<open>simp add: BUFFER_SIZE_def\<close>)
  have eq: "engine_at 6 ?v = (engine_at 6 v)\<lparr>en_data := en_data (engine_at 6 v)\<rparr>" using u(5) by (simp add: engine_at_def)
  obtain e st where e: "run_scsi_command stamp (ucast (tk_lun t)) (ut_cdb (cl_task k)) (int ?n) (engine_at 6 ?v) = Inr (e, st)"
      "disk_target e" "length (en_data e) = length (en_data (engine_at 6 ?v))" "Q e st"
    using assms(8) cdb unfolding engine_runs_def eq by fastforce
  obtain v1 where v1: "run_at stamp 6 ?v = Inr v1" "server_ok v1 p ?s" "sv_fs v1 = en_fs e" "sv_target v1 = en_target e"
      "cl_task (sv_client v1) = (cl_task k)\<lparr>ut_request_buffer := take 6 (ut_request_buffer (cl_task k)) @ en_data e, ut_status := uint st\<rparr>"
    using run_turn [OF ok refl, of 6 stamp e st] e(1-3) u(2,4) n by auto
  have num: "task_of_cmd ?s (tk_cmd_number t) = Some ?t"
    using find_sorted_number [of "ss_queue s" t] assms(1,2) unfolding task_of_cmd_flags
    by (auto simp: task_of_cmd_def server_ok_def numbers_inv_def awaits_def)
  let ?d = "segment 6 ?n (ut_request_buffer (cl_task (sv_client v1)))"
  have len: "length (ut_request_buffer (cl_task k)) = BUFFER_SIZE" using ok by (simp add: server_ok_def)
  have d: "?d = segment 0 ?n (en_data e)" using v1(5) len by (simp add: segment_def BUFFER_SIZE_def)
  have ld: "length (segment 0 ?n (en_data e)) = ?n" using e(3) u(5) len assms(7) by simp
  obtain v' s' where f: "complete_or_exit sl v1 = Inr v'" "server_ok v' p s'" "sv_fs v' = sv_fs v1" "sv_target v' = sv_target v1" "finished ?s ?t s'"
      "drop_bit 7 st = 0 \<longrightarrow> sc_result (ss_cmnds s' (tk_sc t)) = ucast st"
      "st = 0 \<and> ?d \<noteq> [] \<longrightarrow> cmnd_data (ss_cmnds s' (tk_sc t)) = ?d"
      "st \<noteq> 0 \<and> drop_bit 7 st = 0 \<longrightarrow> sc_sense_buffer (ss_cmnds s' (tk_sc t)) ! 0 = 0x70 \<and> sc_sense_buffer (ss_cmnds s' (tk_sc t)) ! 2 = 0"
      and dir: "ut_direction (cl_task (sv_client v')) = chr_I"
    using complete_turn [OF v1(2) assms(5) refl, of ?t ?n st ?d] num v1(5) u(1,3,4) assms(3,7) by auto
  have "server_step sl sig stamp v = Inr (Some v')"
    using k v1(1) u(3) f(1) dir by (simp add: server_step_def serve_in_def serve_out_def c_consts)
  moreover have "served v p s t e st v' s'"
    using f(2-4,6,8) v1(3,4) finished_claimed [OF f(5)] by (simp add: served_def)
  moreover have "cmnd_data (ss_cmnds s' (tk_sc t)) = segment 0 ?n (en_data e)" if "st = 0" "0 < ?n"
  proof -
    have "?d \<noteq> []" using ld that(2) unfolding d by auto
    with f(7) that(1) show ?thesis unfolding d by simp
  qed
  ultimately show ?thesis using e(4) by (intro exI [of _ v'] exI [of _ s'] exI [of _ e] exI [of _ st] conjI) simp_all
qed

lemma turn_out:
  assumes "server_ok v p s" and "awaits s t" and "c = ss_cmnds s (tk_sc t)" and "whole_cdb c" and "slab_ok sl"
    and "sc_data_direction c = DMA_TO_DEVICE" and "0 < unat (sc_request_bufflen c)" and "unat (sc_request_bufflen c) + 31 < BUFFER_SIZE"
    and "\<And>d. length d = BUFFER_SIZE - 31 \<Longrightarrow> segment 0 (unat (sc_request_bufflen c)) d = cmnd_data c \<Longrightarrow> engine_runs stamp v t c 31 d Q"
  shows "\<exists>v' s' e st. server_step sl sig stamp v = Inr (Some v') \<and> served v p s t e st v' s' \<and> Q e st"
proof -
  let ?n = "unat (sc_request_bufflen c)" and ?s = "set_task_flags (tk_addr t) SCSITAP_TASK_RECEIVED s" and ?t = "t\<lparr>tk_flags := SCSITAP_TASK_RECEIVED\<rparr>"
  obtain k where k: "get_scsi_task sl sig (sv_client v) = Inr (Some (k, 0))" and ok: "server_ok (v\<lparr>sv_client := k\<rparr>) p ?s"
    and u: "ut_cmd_number (cl_task k) = tk_cmd_number t" "ut_lun (cl_task k) = tk_lun t" "ut_direction (cl_task k) = chr_O"
      "ut_request_bufflen (cl_task k) = sc_request_bufflen c"
    and cdb: "ut_cdb (cl_task k) ! 0 = sc_cmnd c ! 0" "transfer_len (ut_cdb (cl_task k)) = transfer_len (sc_cmnd c)"
      "sc_cmnd c ! 0 \<in> {0x28, 0x2a, 0xaa, 0x0a} \<longrightarrow> transfer_lba (ut_cdb (cl_task k)) = transfer_lba (sc_cmnd c)"
    using take_task [OF assms(1-4), of sl sig] assms(6) by auto
  have num: "task_of_cmd ?s (tk_cmd_number t) = Some ?t"
    using find_sorted_number [of "ss_queue s" t] assms(1,2) unfolding task_of_cmd_flags
    by (auto simp: task_of_cmd_def server_ok_def numbers_inv_def awaits_def)
  let ?buf = "patch 0 (task_header c ?t chr_D @ cmnd_data c) (ut_request_buffer (cl_task k))" and ?v = "v\<lparr>sv_client := k\<rparr>"
  have sv: "serving k p ?s" and len: "length (ut_request_buffer (cl_task k)) = BUFFER_SIZE" using ok by (simp_all add: server_ok_def)
  have wf: "wf_cmnd c" using assms(2,3) sv session_okD(6) [of ?s ?t] num task_of_cmdD [OF num] by (simp add: serving_def)
  have hd: "length (task_header c ?t chr_D) = 31" and dl: "length (cmnd_data c) = ?n"
    using wf length_task_header by (simp_all add: wf_cmnd_def)
  obtain k' where k': "receive_scsi_data sl sig k = Inr (Some (k', 0))" "serving k' p ?s" "cl_task k' = (cl_task k)\<lparr>ut_request_buffer := ?buf\<rparr>"
    using receive_data_ok [OF sv, of ?t c sl sig] num u(1,3,4) assms(3,7,8) len by (auto simp: BUFFER_SIZE_def)
  let ?w = "v\<lparr>sv_client := k'\<rparr>" and ?d = "drop 31 ?buf"
  have lbuf: "length ?buf = BUFFER_SIZE" using len hd dl assms(8) by simp
  have okw: "server_ok ?w p ?s"
    using ok k'(2,3) lbuf engine_cong(1) [of "engine_at 6 ?w" "engine_at 6 ?v"] by (simp add: server_ok_def)
  have d: "length ?d = BUFFER_SIZE - 31" "segment 0 ?n ?d = cmnd_data c"
    using len hd dl assms(8) by (simp_all add: patch_def segment_def)
  have n: "sint (sc_request_bufflen c) = int ?n" by (rule sint_small) (use assms(8) in \<open>simp add: BUFFER_SIZE_def\<close>)
  have eq: "engine_at 31 ?w = (engine_at 31 v)\<lparr>en_data := ?d\<rparr>" using k'(3) by (simp add: engine_at_def)
  obtain e st where e: "run_scsi_command stamp (ucast (tk_lun t)) (ut_cdb (cl_task k)) (int ?n) (engine_at 31 ?w) = Inr (e, st)"
      "disk_target e" "length (en_data e) = length ?d" "Q e st"
    using assms(9) [OF d] cdb unfolding engine_runs_def eq by blast
  obtain v1 where v1: "run_at stamp 31 ?w = Inr v1" "server_ok v1 p ?s" "sv_fs v1 = en_fs e" "sv_target v1 = en_target e"
      "cl_task (sv_client v1) = (cl_task k')\<lparr>ut_request_buffer := take 31 ?buf @ en_data e, ut_status := uint st\<rparr>"
    using run_turn [OF okw refl, of 31 stamp e st] e(1-3) u(2,4) n k'(3) unfolding eq by auto
  let ?v1 = "v1\<lparr>sv_client := (sv_client v1)\<lparr>cl_task := (cl_task (sv_client v1))\<lparr>ut_request_bufflen := 0\<rparr>\<rparr>\<rparr>"
  have ok1: "server_ok ?v1 p ?s"
    using v1(2) engine_cong(1) [of "engine_at 6 ?v1" "engine_at 6 v1"] by (simp add: server_ok_def serving_def)
  obtain v' s' where f: "complete_or_exit sl ?v1 = Inr v'" "server_ok v' p s'" "sv_fs v' = sv_fs v1" "sv_target v' = sv_target v1" "finished ?s ?t s'"
      "drop_bit 7 st = 0 \<longrightarrow> sc_result (ss_cmnds s' (tk_sc t)) = ucast st"
      "st \<noteq> 0 \<and> drop_bit 7 st = 0 \<longrightarrow> sc_sense_buffer (ss_cmnds s' (tk_sc t)) ! 0 = 0x70 \<and> sc_sense_buffer (ss_cmnds s' (tk_sc t)) ! 2 = 0"
    using complete_turn [OF ok1 assms(5) refl, of ?t 0 st "[]"] num v1(5) u(1) k'(3) by (auto simp: BUFFER_SIZE_def segment_def)
  have "server_step sl sig stamp v = Inr (Some v')"
    using k k'(1) v1(1) u(3) f(1) by (simp add: server_step_def serve_in_def serve_out_def c_consts)
  moreover have "served v p s t e st v' s'"
    using f(2-4,6,7) v1(3,4) finished_claimed [OF f(5)] by (simp add: served_def)
  ultimately show ?thesis using e(4) by (intro exI [of _ v'] exI [of _ s'] exI [of _ e] exI [of _ st] conjI)
qed

lemma served_engine:
  assumes "served v p s t e st v' s'"
  shows "unit_of (engine_at n v') = unit_of e" and "lun_image (engine_at n v') = lun_image e"
  using assms engine_cong(2,3) [of "engine_at n v'" e] by (simp_all add: served_def)

lemma engine_at_data [simp]:
  "unit_of ((engine_at n v)\<lparr>en_data := d\<rparr>) = unit_of (engine_at 6 v)"
  "lun_image ((engine_at n v)\<lparr>en_data := d\<rparr>) = lun_image (engine_at 6 v)"
  "disk_target ((engine_at n v)\<lparr>en_data := d\<rparr>) = disk_target (engine_at 6 v)"
  using engine_cong [of "(engine_at n v)\<lparr>en_data := d\<rparr>" "engine_at 6 v"] by simp_all

section \<open>From the mid layer to the disk and back\<close>

text \<open>
  C5.  A READ(10) from end to end.  When it is the oldest command no target has claimed, one turn of
  the target's loop finishes it: the mid layer's buffer holds the bytes of the image that the command
  addresses, the result is 0, the callback is called once, with this command, which leaves the queue,
  and every image is as it was.
\<close>

theorem read_command:
  assumes "server_ok v p s" and "awaits s t" and "c = ss_cmnds s (tk_sc t)" and "whole_cdb c" and "slab_ok sl"
    and "sc_data_direction c \<noteq> DMA_TO_DEVICE" and "sc_cmnd c ! 0 = 0x28" and "lun = ucast (tk_lun t)" and "unit_of (engine_at 6 v) lun \<noteq> None"
    and "lba = transfer_lba (sc_cmnd c)" and "n = transfer_len (sc_cmnd c)" and "lba + n \<le> length (lun_image (engine_at 6 v) lun)"
    and "unat (sc_request_bufflen c) = n" and "0 < n" and "n + 6 < BUFFER_SIZE"
  shows "\<exists>v' s'. server_step sl sig stamp v = Inr (Some v') \<and> server_ok v' p s'
    \<and> cmnd_data (ss_cmnds s' (tk_sc t)) = segment lba n (lun_image (engine_at 6 v) lun) \<and> sc_result (ss_cmnds s' (tk_sc t)) = 0
    \<and> pending s' = remove1 (tk_sc t) (pending s) \<and> ss_done s' = ss_done s @ [(the (sc_scsi_done c), tk_sc t)]
    \<and> lun_image (engine_at 6 v') = lun_image (engine_at 6 v)"
proof -
  let ?d = "en_data (engine_at 6 v)"
  let ?Q = "\<lambda>e st. st = 0 \<and> segment 0 n (en_data e) = segment lba n (lun_image (engine_at 6 v) lun) \<and> lun_image e = lun_image (engine_at 6 v)"
  have dt: "disk_target (engine_at 6 v)" and len: "length ?d = BUFFER_SIZE - 6" using assms(1) by (simp_all add: server_ok_def)
  obtain l where l: "unit_of (engine_at 6 v) lun = Some l" using assms(9) by auto
  have "engine_runs stamp v t c 6 ?d ?Q"
    unfolding engine_runs_def
  proof (intro allI impI)
    fix cdb
    assume cdb: "cdb ! 0 = sc_cmnd c ! 0" "transfer_len cdb = transfer_len (sc_cmnd c)"
      "sc_cmnd c ! 0 \<in> {0x28, 0x2a, 0xaa, 0x0a} \<longrightarrow> transfer_lba cdb = transfer_lba (sc_cmnd c)"
    let ?e = "(engine_at 6 v)\<lparr>en_data := ?d\<rparr>"
    have fit: "disk_target ?e" "unit_of ?e lun = Some l" "cdb ! 0 = 0x28" "transfer_lba cdb = lba" "transfer_len cdb = n"
        "lba + n \<le> length (lun_image ?e lun)" "n \<le> length (en_data ?e)"
      using dt l cdb assms(7,10-12,15) len by simp_all
    obtain e where e: "run_scsi_command stamp lun cdb (int (unat (sc_request_bufflen c))) ?e = Inr (e, 0)" "disk_target e"
        "en_data e = patch 0 (segment lba n (lun_image ?e lun)) (en_data ?e)" "\<forall>m. lun_image e m = lun_image ?e m"
      using run_read [OF fit(1-3), of stamp "int (unat (sc_request_bufflen c))"] fit(4-7) by auto
    have "length (segment lba n (lun_image ?e lun)) = n" using fit(6) by simp
    with e(3) fit(7) have "segment 0 n (en_data e) = segment lba n (lun_image ?e lun)" "length (en_data e) = length ?d"
      by (simp_all add: segment_patch_same)
    with e show "\<exists>e st. run_scsi_command stamp (ucast (tk_lun t)) cdb (int (unat (sc_request_bufflen c))) ?e = Inr (e, st)
        \<and> disk_target e \<and> length (en_data e) = length ?d \<and> ?Q e st"
      unfolding assms(8) by (intro exI [of _ e] exI [of _ 0]) (simp add: fun_eq_iff)
  qed
  from turn_in [OF assms(1-6) _ this, of sig] assms(13,15) obtain v' s' e where r:
      "server_step sl sig stamp v = Inr (Some v')" "served v p s t e 0 v' s'" "?Q e 0" "cmnd_data (ss_cmnds s' (tk_sc t)) = segment 0 n (en_data e)"
    using assms(14) by auto
  from served_engine(2) [OF r(2), of 6] r(2,3,4) have "lun_image (engine_at 6 v') = lun_image (engine_at 6 v)"
      "server_ok v' p s'" "finished s t s'" "sc_result (ss_cmnds s' (tk_sc t)) = 0"
      "cmnd_data (ss_cmnds s' (tk_sc t)) = segment lba n (lun_image (engine_at 6 v) lun)"
    by (simp_all add: served_def)
  with r(1) assms(3) show ?thesis unfolding finished_def by blast
qed

text \<open>A command waiting at a target with one disk of 1 MB.\<close>

definition demo_transfer :: "bytes \<Rightarrow> nat \<Rightarrow> dma_data_direction \<Rightarrow> scsi_cmnd" where
  "demo_transfer cdb n dir = (demo_cmnd (Some 7))\<lparr>sc_cmd_len := 16, sc_cmnd := cdb, sc_data_direction := dir,
     sc_request_bufflen := of_nat n, sc_request_buffer := Flat (replicate n 9)\<rparr>"

definition demo_waiting :: "scsi_cmnd \<Rightarrow> scsitap_session" where
  "demo_waiting c = upd_cmnd 5 (\<lambda>_. c) (demo_session 1 (Some SCSITAP_TASK_SUBMITTED))"

definition demo_server :: "scsi_cmnd \<Rightarrow> server" where
  "demo_server c =
     \<lparr>sv_client = (demo_client SCSITAP_TASK_SUBMITTED (demo_user (replicate BUFFER_SIZE 0)))\<lparr>cl_sessions := no_sessions\<lparr>sl_queue := [demo_waiting c]\<rparr>\<rparr>,
      sv_fs = en_fs (demo_engine demo_lun 1048576), sv_target = en_target (demo_engine demo_lun 1048576)\<rparr>"

lemma demo_waiting_sel [simp]:
  "ss_queue (demo_waiting c) = [demo_task SCSITAP_TASK_SUBMITTED]" "ss_cmnds (demo_waiting c) 5 = c"
  "ss_done (demo_waiting c) = []" "ucast (tk_lun (demo_task f)) = (0 :: u8)"
  by (simp_all add: demo_waiting_def upd_cmnd_def) (simp_all add: demo_defs)

lemma demo_awaits: "awaits (demo_waiting c) (demo_task SCSITAP_TASK_SUBMITTED)"
  unfolding awaits_def by (intro exI [of _ "[]"]) simp

lemma demo_server_engine:
  "disk_target (engine_at n (demo_server c))" "unit_of (engine_at n (demo_server c)) 0 = Some demo_lun"
  "length (lun_image (engine_at n (demo_server c)) 0) = 1048576"
  using demo_disk engine_cong [of "engine_at n (demo_server c)" "demo_engine demo_lun 1048576"] by (simp_all add: demo_server_def)

lemma demo_server_ok:
  assumes "wf_cmnd c" and "sc_SCp_ptr c = Some 7" and "sc_scsi_done c \<noteq> None"
  shows "server_ok (demo_server c) 1 (demo_waiting c)"
proof -
  have "queue_inv (demo_waiting c) \<and> \<not> ss_queue_lock (demo_waiting c)"
    using assms(2,3)
    by (auto simp: queue_inv_def queue_links_def live_flags_def demo_waiting_def upd_cmnd_def demo_defs c_consts split: if_splits)
  then have "session_ok (demo_waiting c)" using assms(1) by (simp add: session_ok_def session_idle_def)
  moreover have "ss_flags (demo_waiting c) = 1" "ss_addr (demo_waiting c) = 1" "numbers_inv (demo_waiting c)"
    using demo_numbers by (simp_all add: demo_waiting_def upd_cmnd_def numbers_inv_def) (simp add: demo_defs)
  ultimately show ?thesis
    using demo_server_engine(1)
    by (simp add: server_ok_def serving_def session_at_def) (simp add: demo_server_def demo_client_def demo_user_def no_sessions_def c_consts)
qed

lemma demo_transfer_ok:
  assumes "length cdb = 16" and "n < 2 ^ 32"
  shows "wf_cmnd (demo_transfer cdb n dir)" and "whole_cdb (demo_transfer cdb n dir)"
    and "unat (sc_request_bufflen (demo_transfer cdb n dir)) = n"
  using assms
  by (auto simp: wf_cmnd_def demo_transfer_def cmnd_data_def demo_cmnd_def whole_cdb_def command_size_def c_consts
      unat_of_nat take_bit_nat_eq_self)

lemma demo_transfer_sel [simp]:
  "sc_SCp_ptr (demo_transfer cdb n dir) = Some 7" "sc_scsi_done (demo_transfer cdb n dir) = Some 3"
  "sc_data_direction (demo_transfer cdb n dir) = dir" "sc_cmnd (demo_transfer cdb n dir) = cdb"
  "cmnd_data (demo_transfer cdb n dir) = replicate n 9"
  by (simp_all add: demo_transfer_def demo_cmnd_def cmnd_data_def)

lemma length_demo_cdb [simp]: "length (demo_cdb op block blocks) = 16"
  by (simp add: demo_cdb_def)

theorem read_command_witness:
  "\<exists>v' s'. server_step (demo_slab (\<lambda>f. f)) False ''t'' (demo_server (demo_transfer (demo_cdb 0x28 2 1) 512 DMA_FROM_DEVICE)) = Inr (Some v')
     \<and> server_ok v' 1 s' \<and> cmnd_data (ss_cmnds s' 5) = replicate 512 0 \<and> pending s' = [] \<and> ss_done s' = [(3, 5)]"
proof -
  let ?c = "demo_transfer (demo_cdb 0x28 2 1) 512 DMA_FROM_DEVICE"
  have img: "lun_image (engine_at 6 (demo_server ?c)) 0 = replicate 1048576 0"
    using engine_cong(3) [of "engine_at 6 (demo_server ?c)" "demo_engine demo_lun 1048576"]
    by (simp add: demo_server_def) (simp add: lun_image_def unit_of_def demo_engine_def demo_lun_def unit_image_def)
  have "segment 1024 512 (replicate 1048576 (0 :: u8)) = replicate 512 0" by (simp add: segment_def)
  with read_command [OF demo_server_ok demo_awaits refl _ demo_slab_ok, of ?c 0 1024 512 False "''t''"] show ?thesis
    by (auto simp: demo_transfer_ok demo_server_engine demo_cdb_fields img BUFFER_SIZE_def)
qed

text \<open>
  C6.  A WRITE(10) from end to end.  One turn of the target's loop fetches the command's data and puts
  it into the image at the bytes the command addresses; the rest of the image and every other image
  stay, the result is 0, and the command leaves the queue with one call of its callback.
\<close>

theorem write_command:
  assumes "server_ok v p s" and "awaits s t" and "c = ss_cmnds s (tk_sc t)" and "whole_cdb c" and "slab_ok sl"
    and "sc_data_direction c = DMA_TO_DEVICE" and "sc_cmnd c ! 0 = 0x2a" and "lun = ucast (tk_lun t)" and "unit_of (engine_at 6 v) lun \<noteq> None"
    and "lba = transfer_lba (sc_cmnd c)" and "n = transfer_len (sc_cmnd c)" and "lba + n \<le> length (lun_image (engine_at 6 v) lun)"
    and "unat (sc_request_bufflen c) = n" and "0 < n" and "n + 31 < BUFFER_SIZE"
  shows "\<exists>v' s'. server_step sl sig stamp v = Inr (Some v') \<and> server_ok v' p s'
    \<and> lun_image (engine_at 6 v') = (lun_image (engine_at 6 v))(lun := patch lba (cmnd_data c) (lun_image (engine_at 6 v) lun))
    \<and> sc_result (ss_cmnds s' (tk_sc t)) = 0
    \<and> pending s' = remove1 (tk_sc t) (pending s) \<and> ss_done s' = ss_done s @ [(the (sc_scsi_done c), tk_sc t)]"
proof -
  let ?Q = "\<lambda>e st. st = 0 \<and> lun_image e = (lun_image (engine_at 6 v))(lun := patch lba (cmnd_data c) (lun_image (engine_at 6 v) lun))"
  have dt: "disk_target (engine_at 6 v)" using assms(1) by (simp add: server_ok_def)
  have wf: "wf_cmnd c" using assms(1-3) session_okD(6) [of s t] by (auto simp: server_ok_def serving_def awaits_def)
  obtain l where l: "unit_of (engine_at 6 v) lun = Some l" using assms(9) by auto
  have "engine_runs stamp v t c 31 d ?Q" if d: "length d = BUFFER_SIZE - 31" "segment 0 (unat (sc_request_bufflen c)) d = cmnd_data c" for d
    unfolding engine_runs_def
  proof (intro allI impI)
    fix cdb
    assume cdb: "cdb ! 0 = sc_cmnd c ! 0" "transfer_len cdb = transfer_len (sc_cmnd c)"
      "sc_cmnd c ! 0 \<in> {0x28, 0x2a, 0xaa, 0x0a} \<longrightarrow> transfer_lba cdb = transfer_lba (sc_cmnd c)"
    let ?e = "(engine_at 31 v)\<lparr>en_data := d\<rparr>"
    have fit: "disk_target ?e" "unit_of ?e lun = Some l" "cdb ! 0 \<in> {0x2a, 0xaa, 0x0a}" "transfer_lba cdb = lba" "transfer_len cdb = n"
        "lba + n \<le> length (lun_image ?e lun)" "n \<le> length (en_data ?e)"
      using dt l cdb assms(7,10-12,15) d(1) by simp_all
    have "length (cmnd_data c) = n" using wf assms(13) by (simp add: wf_cmnd_def)
    then have w: "write_at lba (segment 0 n d) (lun_image ?e lun) = patch lba (cmnd_data c) (lun_image ?e lun)"
      using d(2) fit(6) assms(13) by (simp add: write_at_inside)
    obtain e where e: "run_scsi_command stamp lun cdb (int (unat (sc_request_bufflen c))) ?e = Inr (e, 0)" "disk_target e"
        "en_data e = d" "lun_image e lun = write_at lba (segment 0 n d) (lun_image ?e lun)" "\<forall>m. m \<noteq> lun \<longrightarrow> lun_image e m = lun_image ?e m"
      using run_write [OF fit(1-3), of stamp "int (unat (sc_request_bufflen c))"] fit(4-7) by auto
    then have "?Q e 0" unfolding w by (auto simp: fun_eq_iff)
    with e(1-3) show "\<exists>e st. run_scsi_command stamp (ucast (tk_lun t)) cdb (int (unat (sc_request_bufflen c))) ?e = Inr (e, st)
        \<and> disk_target e \<and> length (en_data e) = length d \<and> ?Q e st"
      unfolding assms(8) by blast
  qed
  from turn_out [OF assms(1-6) _ _ this, of sig] assms(13-15) obtain v' s' e where r:
      "server_step sl sig stamp v = Inr (Some v')" "served v p s t e 0 v' s'" "?Q e 0"
    by auto
  from served_engine(2) [OF r(2), of 6] r(2,3)
  have "lun_image (engine_at 6 v') = (lun_image (engine_at 6 v))(lun := patch lba (cmnd_data c) (lun_image (engine_at 6 v) lun))"
      "server_ok v' p s'" "finished s t s'" "sc_result (ss_cmnds s' (tk_sc t)) = 0"
    by (simp_all add: served_def)
  with r(1) assms(3) show ?thesis unfolding finished_def by blast
qed

theorem write_command_witness:
  "\<exists>v' s'. server_step (demo_slab (\<lambda>f. f)) False ''t'' (demo_server (demo_transfer (demo_cdb 0x2a 2 1) 512 DMA_TO_DEVICE)) = Inr (Some v')
     \<and> server_ok v' 1 s' \<and> segment 1024 512 (lun_image (engine_at 6 v') 0) = replicate 512 9 \<and> sc_result (ss_cmnds s' 5) = 0 \<and> ss_done s' = [(3, 5)]"
proof -
  let ?c = "demo_transfer (demo_cdb 0x2a 2 1) 512 DMA_TO_DEVICE"
  show ?thesis
    using write_command [OF demo_server_ok demo_awaits refl _ demo_slab_ok, of ?c 0 1024 512 False "''t''"]
    by (auto simp: demo_transfer_ok demo_server_engine demo_cdb_fields BUFFER_SIZE_def segment_patch_same)
qed

text \<open>
  The sense data of a command that the engine refuses does not reach the initiator.  A READ(10)
  past the end of the disk is finished with result 2, check condition, and sense data of key 0, no
  sense, that the driver made up; the disk is as it was.
\<close>

lemma refused_read_has_no_sense:
  assumes "server_ok v p s" and "awaits s t" and "c = ss_cmnds s (tk_sc t)" and "whole_cdb c" and "slab_ok sl"
    and "sc_data_direction c \<noteq> DMA_TO_DEVICE" and "sc_cmnd c ! 0 = 0x28" and "lun = ucast (tk_lun t)" and "unit_of (engine_at 6 v) lun \<noteq> None"
    and "transfer_lba (sc_cmnd c) + transfer_len (sc_cmnd c) > length (lun_image (engine_at 6 v) lun)"
    and "unat (sc_request_bufflen c) + 6 < BUFFER_SIZE"
  shows "\<exists>v' s'. server_step sl sig stamp v = Inr (Some v') \<and> server_ok v' p s' \<and> lun_image (engine_at 6 v') = lun_image (engine_at 6 v)
    \<and> sc_result (ss_cmnds s' (tk_sc t)) = 2 \<and> sc_sense_buffer (ss_cmnds s' (tk_sc t)) ! 0 = 0x70
    \<and> sc_sense_buffer (ss_cmnds s' (tk_sc t)) ! 2 = 0 \<and> pending s' = remove1 (tk_sc t) (pending s)"
proof -
  let ?d = "en_data (engine_at 6 v)" and ?Q = "\<lambda>e st. st = 2 \<and> lun_image e = lun_image (engine_at 6 v)"
  have dt: "disk_target (engine_at 6 v)" using assms(1) by (simp add: server_ok_def)
  obtain l where l: "unit_of (engine_at 6 v) lun = Some l" using assms(9) by auto
  have "engine_runs stamp v t c 6 ?d ?Q"
    unfolding engine_runs_def
  proof (intro allI impI)
    fix cdb
    assume cdb: "cdb ! 0 = sc_cmnd c ! 0" "transfer_len cdb = transfer_len (sc_cmnd c)"
      "sc_cmnd c ! 0 \<in> {0x28, 0x2a, 0xaa, 0x0a} \<longrightarrow> transfer_lba cdb = transfer_lba (sc_cmnd c)"
    let ?e = "(engine_at 6 v)\<lparr>en_data := ?d\<rparr>"
    have "run_scsi_command stamp lun cdb (int (unat (sc_request_bufflen c))) ?e = Inr (?e, 2)"
      by (rule run_beyond) (use dt l cdb assms(7,10) in simp_all)
    then show "\<exists>e st. run_scsi_command stamp (ucast (tk_lun t)) cdb (int (unat (sc_request_bufflen c))) ?e = Inr (e, st)
        \<and> disk_target e \<and> length (en_data e) = length ?d \<and> ?Q e st"
      using dt unfolding assms(8) by (intro exI [of _ ?e] exI [of _ 2]) simp
  qed
  from turn_in [OF assms(1-6,11) this, of sig] obtain v' s' e where r:
      "server_step sl sig stamp v = Inr (Some v')" "served v p s t e 2 v' s'" "?Q e 2"
    by auto
  have two: "drop_bit 7 (2 :: u8) = 0" by (simp add: drop_bit_eq_div)
  from served_engine(2) [OF r(2), of 6] r(2,3) two have "lun_image (engine_at 6 v') = lun_image (engine_at 6 v)" "server_ok v' p s'"
      "finished s t s'" "sc_result (ss_cmnds s' (tk_sc t)) = 2" "sc_sense_buffer (ss_cmnds s' (tk_sc t)) ! 0 = 0x70"
      "sc_sense_buffer (ss_cmnds s' (tk_sc t)) ! 2 = 0"
    by (simp_all add: served_def)
  with r(1) show ?thesis unfolding finished_def by blast
qed

lemma refused_read_has_no_sense_witness:
  "\<exists>v' s'. server_step (demo_slab (\<lambda>f. f)) False ''t''
       (demo_server (demo_transfer [0x28, 0, 0, 0xff, 0xff, 0xff, 0, 0, 1, 0, 0, 0, 0, 0, 0, 0] 512 DMA_FROM_DEVICE)) = Inr (Some v')
     \<and> server_ok v' 1 s' \<and> sc_result (ss_cmnds s' 5) = 2 \<and> sc_sense_buffer (ss_cmnds s' 5) ! 2 = 0"
proof -
  let ?cdb = "[0x28, 0, 0, 0xff, 0xff, 0xff, 0, 0, 1, 0, 0, 0, 0, 0, 0, 0] :: bytes"
  have t: "transfer_lba ?cdb = 16777215 * 512"
    by (simp add: transfer_lba_def cdb_be32_def segment_def be32_def le32_def)
  show ?thesis
    using refused_read_has_no_sense [OF demo_server_ok demo_awaits refl _ demo_slab_ok, of "demo_transfer ?cdb 512 DMA_FROM_DEVICE",
        where lun = 0 and sig = False and stamp = "''t''"] t
    by (auto simp: demo_transfer_ok demo_server_engine BUFFER_SIZE_def)
qed

text \<open>
  A request for data out of length 0 kills the target.  Its data phase reads 31 bytes, which is how
  a target asks for the next command, and when every other command is claimed the driver answers 0:
  \<open>receive_scsi_data\<close> reports a failure and \<open>main\<close> exits, whatever the command is.
\<close>

lemma empty_data_out_ends_target:
  assumes "server_ok v p s" and "awaits s t" and "c = ss_cmnds s (tk_sc t)" and "whole_cdb c"
    and "\<forall>u\<in>set (ss_queue s). u \<noteq> t \<longrightarrow> tk_flags u = SCSITAP_TASK_RECEIVED"
    and "sc_data_direction c = DMA_TO_DEVICE" and "sc_request_bufflen c = 0"
  shows "server_step sl sig stamp v = Inl (Exit 1)"
proof -
  let ?s = "set_task_flags (tk_addr t) SCSITAP_TASK_RECEIVED s"
  obtain k where k: "get_scsi_task sl sig (sv_client v) = Inr (Some (k, 0))" "server_ok (v\<lparr>sv_client := k\<rparr>) p ?s"
      "ut_direction (cl_task k) = chr_O" "ut_request_bufflen (cl_task k) = 0"
    using take_task [OF assms(1-4), of sl sig] assms(6,7) by auto
  have "tk_flags u = SCSITAP_TASK_RECEIVED" if "u \<in> set (ss_queue ?s)" for u
    using that assms(5) unfolding set_task_flags_queue by auto
  moreover have "ss_queue ?s \<noteq> []" using assms(2) by (auto simp: awaits_def set_task_flags_def)
  ultimately obtain k' where "receive_scsi_data sl sig k = Inr (Some (k', - 1))"
    using receive_empty_fact [of k p ?s sl sig] k(2-4) unfolding server_ok_def by auto
  with k(1,3) show ?thesis by (simp add: server_step_def serve_in_def serve_out_def c_consts)
qed

lemma empty_data_out_ends_target_witness:
  "server_step (demo_slab (\<lambda>f. f)) False ''t'' (demo_server (demo_transfer (demo_cdb 0x2a 2 0) 0 DMA_TO_DEVICE)) = Inl (Exit 1)"
  by (rule empty_data_out_ends_target [OF demo_server_ok demo_awaits refl])
    (simp_all add: demo_transfer_ok, simp_all add: demo_transfer_def demo_task_def)

section \<open>Every command is answered\<close>

text \<open>
  A command the target can serve: a whole command block, a buffer that fits, data if it says it has
  some to send, a unit that exists.
\<close>

definition serviceable :: "server \<Rightarrow> scsitap_task \<Rightarrow> scsi_cmnd \<Rightarrow> bool" where
  "serviceable v t c \<longleftrightarrow> whole_cdb c \<and> unat (sc_request_bufflen c) + 31 < BUFFER_SIZE \<and> transfer_len (sc_cmnd c) + 31 \<le> BUFFER_SIZE
     \<and> (sc_data_direction c = DMA_TO_DEVICE \<longrightarrow> sc_request_bufflen c \<noteq> 0) \<and> unit_of (engine_at 6 v) (ucast (tk_lun t)) \<noteq> None"

lemma serviceable_runs:
  assumes "disk_target (engine_at 6 v)" and "serviceable v t c" and "off \<le> 31" and "length d = BUFFER_SIZE - off"
  shows "engine_runs stamp v t c off d (\<lambda>e st. map ld_lun (td_luns (en_target e)) = map ld_lun (td_luns (sv_target v)) \<and> (st = 0 \<or> st = 2))"
  unfolding engine_runs_def
proof (intro allI impI)
  fix cdb
  assume cdb: "cdb ! 0 = sc_cmnd c ! 0" "transfer_len cdb = transfer_len (sc_cmnd c)"
  let ?e = "(engine_at off v)\<lparr>en_data := d\<rparr>" and ?n = "int (unat (sc_request_bufflen c))"
  have "unat (sc_request_bufflen c) < length d" using assms(2-4) unfolding serviceable_def by linarith
  then have "?n < int (length d)" by (simp only: of_nat_less_iff)
  then have "request_fits ?e (ucast (tk_lun t)) cdb ?n"
    using assms(2-4) cdb(2) by (auto simp: request_fits_def serviceable_def BUFFER_SIZE_def simp del: of_nat_unat)
  from disk_request [OF _ this, of stamp] assms(1) show "\<exists>e st. run_scsi_command stamp (ucast (tk_lun t)) cdb ?n ?e = Inr (e, st)
      \<and> disk_target e \<and> length (en_data e) = length d
      \<and> map ld_lun (td_luns (en_target e)) = map ld_lun (td_luns (sv_target v)) \<and> (st = 0 \<or> st = 2)"
    using run_two_statuses by (fastforce simp del: of_nat_unat)
qed

lemma turn_serviceable:
  assumes "server_ok v p s" and "awaits s t" and "serviceable v t (ss_cmnds s (tk_sc t))" and "slab_ok sl"
  shows "\<exists>v' s'. server_step sl sig stamp v = Inr (Some v') \<and> server_ok v' p s' \<and> finished s t s'
    \<and> map ld_lun (td_luns (sv_target v')) = map ld_lun (td_luns (sv_target v))
    \<and> (sc_result (ss_cmnds s' (tk_sc t)) = 0 \<or> sc_result (ss_cmnds s' (tk_sc t)) = 2
        \<and> sc_sense_buffer (ss_cmnds s' (tk_sc t)) ! 0 = 0x70 \<and> sc_sense_buffer (ss_cmnds s' (tk_sc t)) ! 2 = 0)"
proof -
  let ?c = "ss_cmnds s (tk_sc t)"
  let ?Q = "\<lambda>e st. map ld_lun (td_luns (en_target e)) = map ld_lun (td_luns (sv_target v)) \<and> (st = 0 \<or> st = (2 :: u8))"
  have dt: "disk_target (engine_at 6 v)" and len: "length (en_data (engine_at 6 v)) = BUFFER_SIZE - 6"
    using assms(1) by (simp_all add: server_ok_def)
  have c: "whole_cdb ?c" "unat (sc_request_bufflen ?c) + 31 < BUFFER_SIZE" using assms(3) by (simp_all add: serviceable_def)
  have "\<exists>v' s' e st. server_step sl sig stamp v = Inr (Some v') \<and> served v p s t e st v' s' \<and> ?Q e st"
  proof (cases "sc_data_direction ?c = DMA_TO_DEVICE")
    case True
    then have "0 < unat (sc_request_bufflen ?c)" using assms(3) by (simp add: serviceable_def unat_gt_0)
    with turn_out [OF assms(1,2) refl c(1) assms(4) True _ c(2), of stamp ?Q sig] serviceable_runs [OF dt assms(3), of 31]
    show ?thesis by simp
  next
    case False
    have "unat (sc_request_bufflen ?c) + 6 < BUFFER_SIZE" using c(2) by simp
    from turn_in [OF assms(1,2) refl c(1) assms(4) False this serviceable_runs [OF dt assms(3) _ len, of stamp], of sig]
    show ?thesis by auto
  qed
  then show ?thesis by (auto simp: served_def)
qed

text \<open>A finished command's successors are as they were, and so is every command that was not queued.\<close>

lemma finished_first:
  assumes "finished s t s'" and "session_ok s" and "ss_queue s = t # q"
  shows "ss_queue s' = q" and "tk_sc t \<notin> tk_sc ` set q" and "\<And>d. d \<noteq> tk_sc t \<Longrightarrow> ss_cmnds s' d = ss_cmnds s d"
    and "map snd (ss_done s') = map snd (ss_done s) @ [tk_sc t]"
proof -
  have "queue_links s" using assms(2) session_okD(2) by blast
  then have new: "tk_addr t \<notin> tk_addr ` set q" "tk_sc t \<notin> tk_sc ` set q" using assms(3) by (simp_all add: queue_links_def)
  then have "filter (\<lambda>u. tk_addr u \<noteq> tk_addr t) q = q" by (intro filter_True ballI) (metis imageI)
  then show "ss_queue s' = q" using assms(1,3) by (simp add: finished_def)
  show "tk_sc t \<notin> tk_sc ` set q" by (fact new(2))
  show "ss_cmnds s' d = ss_cmnds s d" if "d \<noteq> tk_sc t" for d using assms(1) that by (simp add: finished_def)
  show "map snd (ss_done s') = map snd (ss_done s) @ [tk_sc t]" using assms(1) by (simp add: finished_def)
qed

text \<open>
  Every command gets its answer.  When the commands that wait are serviceable, as many turns of
  the loop as there are commands empty the queue: no turn fails or sleeps, and the callbacks of the
  waiting commands are called in the order they were queued, each once.
\<close>

lemma queue_served_in_order:
  assumes "server_ok v p s" and "slab_ok sl"
    and "\<forall>t\<in>set (ss_queue s). tk_flags t = SCSITAP_TASK_SUBMITTED \<and> serviceable v t (ss_cmnds s (tk_sc t))"
  shows "\<exists>v' s'. server_loop sl sig stamp (length (ss_queue s)) v = Inr (Some v') \<and> server_ok v' p s' \<and> ss_queue s' = []
    \<and> map snd (ss_done s') = map snd (ss_done s) @ pending s"
  using assms(1,3)
proof (induction "ss_queue s" arbitrary: s v)
  case Nil
  then show ?case by (intro exI [of _ v] exI [of _ s]) (simp flip: Nil.hyps)
next
  case (Cons t q)
  have qs: "ss_queue s = t # q" using Cons.hyps(2) by simp
  have t: "awaits s t" "serviceable v t (ss_cmnds s (tk_sc t))"
    using Cons.prems(2) qs unfolding awaits_def by (simp_all add: exI [of _ "[]"])
  obtain v1 s1 where r: "server_step sl sig stamp v = Inr (Some v1)" "server_ok v1 p s1" "finished s t s1"
      "map ld_lun (td_luns (sv_target v1)) = map ld_lun (td_luns (sv_target v))"
    using turn_serviceable [OF Cons.prems(1) t assms(2)] by blast
  have "session_ok s" using Cons.prems(1) by (simp add: server_ok_def serving_def)
  note f = finished_first [OF r(3) this qs]
  have rest: "tk_flags u = SCSITAP_TASK_SUBMITTED \<and> serviceable v1 u (ss_cmnds s1 (tk_sc u))" if u: "u \<in> set (ss_queue s1)" for u
  proof -
    have u': "u \<in> set (ss_queue s)" "tk_sc u \<noteq> tk_sc t"
      using u f(1,2) qs by (simp, metis imageI)
    have "unit_of (engine_at 6 v1) m \<noteq> None \<longleftrightarrow> unit_of (engine_at 6 v) m \<noteq> None" for m
      using r(4) unit_exists [of "engine_at 6 v1" m] unit_exists [of "engine_at 6 v" m] by simp
    then have "serviceable v1 u c = serviceable v u c" for c by (simp add: serviceable_def)
    moreover have "ss_cmnds s1 (tk_sc u) = ss_cmnds s (tk_sc u)" by (rule f(3) [OF u'(2)])
    ultimately show ?thesis using Cons.prems(2) u'(1) by simp
  qed
  obtain v' s' where l: "server_loop sl sig stamp (length q) v1 = Inr (Some v')" "server_ok v' p s'" "ss_queue s' = []"
      "map snd (ss_done s') = map snd (ss_done s1) @ pending s1"
    using Cons.hyps(1) [OF f(1) [symmetric] r(2)] rest f(1) by auto
  with l r(1) f(1,4) qs show ?case by (intro exI [of _ v'] exI [of _ s']) simp
qed

lemma queue_served_in_order_witness:
  "\<exists>v' s'. server_loop (demo_slab (\<lambda>f. f)) False ''t'' 1 (demo_server (demo_transfer (demo_cdb 0xff 0 0) 0 DMA_NONE)) = Inr (Some v')
     \<and> server_ok v' 1 s' \<and> ss_queue s' = [] \<and> map snd (ss_done s') = [5]"
proof -
  have "transfer_len (demo_cdb 0xff 0 0) = 0" by (simp add: transfer_len_def demo_cdb_def)
  then show ?thesis
    using queue_served_in_order [OF demo_server_ok demo_slab_ok, of "demo_transfer (demo_cdb 0xff 0 0) 0 DMA_NONE" False "''t''"]
    by (auto simp: demo_transfer_ok demo_server_engine serviceable_def BUFFER_SIZE_def)
qed

section \<open>Starting\<close>

text \<open>
  The beginning of \<open>main\<close>: the set-up, then the registration with the driver.  \<open>minor_of\<close> is the
  minor of the device node with that name, if there is one.
\<close>

definition server_start ::
  "string \<Rightarrow> (nat \<Rightarrow> lun_data) \<Rightarrow> nat \<Rightarrow> string list \<Rightarrow> fs \<Rightarrow> (string \<Rightarrow> u32 option) \<Rightarrow> slab \<Rightarrow> nat option \<Rightarrow> int \<Rightarrow> (nat \<Rightarrow> scsi_cmnd)
     \<Rightarrow> u64 \<Rightarrow> bool \<Rightarrow> user_scsitap_task \<Rightarrow> scsitap_sessions \<Rightarrow> server res" where
  "server_start stamp mem size0 argv fs minor_of sl host rc cb pid memok tsk D =
     and_then (configure_scsi_target stamp mem size0 argv [] fs) (\<lambda>su.
       and_then (register_scsi_host sl host rc cb pid (minor_of (su_devname su)) memok tsk D) (\<lambda>r. case r of
           None \<Rightarrow> Inl (Exit 1)
         | Some k \<Rightarrow> Inr \<lparr>sv_client = k, sv_fs = su_fs su, sv_target = su_target su\<rparr>))"

lemma find_append_new: "find P xs = None \<Longrightarrow> find P (xs @ [x]) = (if P x then Some x else None)"
  by (induction xs) (auto split: if_splits)

lemma register_new_session:
  assumes "\<not> sl_lock D" and "scsitap_get_session D m = None" and "session_at D p = None" and "\<forall>c. sc_SCp_ptr (cb c) = None"
  shows "\<exists>k. register_scsi_host sl (Some p) 0 cb pid (Some m) True tsk D = Inr (Some k)
    \<and> serving k p (attach_client p pid (new_session p m cb)) \<and> cl_task k = tsk\<lparr>ut_request_buffer := replicate BUFFER_SIZE 0, ut_status := 0\<rparr>"
proof -
  let ?s = "new_session p m cb" and ?D = "D\<lparr>sl_lock := True\<rparr>"
  have new: "scsitap_get_session ?D m = None" "scsitap_create_session (Some p) 0 cb m ?D = (?D\<lparr>sl_queue := sl_queue D @ [?s], sl_last_id := sl_last_id D + 1\<rparr>, Some p)"
    using assms(2) by (simp_all add: scsitap_get_session_def scsitap_create_session_def)
  have at: "session_at (?D\<lparr>sl_queue := sl_queue D @ [?s], sl_last_id := sl_last_id D + 1\<rparr>) p = Some ?s"
    using assms(3) by (simp add: session_at_def find_append_new new_session_def)
  let ?D3 = "D\<lparr>sl_lock := True, sl_queue := sl_queue D @ [?s], sl_last_id := sl_last_id D + 1, sl_work := Some p, sl_work_pending := True\<rparr>"
  have at3: "session_at ?D3 p = Some ?s" using at by (simp add: session_at_def)
  have "queue_inv ?s" using assms(4) by (simp add: queue_inv_def queue_links_def live_flags_def new_session_def)
  then have ok: "session_ok (attach_client p pid ?s)"
    by (simp add: session_ok_def session_idle_def queue_inv_def queue_links_def live_flags_def attach_client_def new_session_def)
  have "session_at (spin_unlock_sessions (put_session (attach_client p pid ?s) ?D3)) p = Some (attach_client p pid ?s)"
    using session_at_put [OF at3, of "attach_client p pid ?s"]
    by (simp add: session_at_def spin_unlock_sessions_def attach_client_def new_session_def)
  with ok new at assms(1) show ?thesis
    by (auto simp: register_scsi_host_def client_ioctl_def scsitap_ctl_ioctl_def ioctl_register_def spin_lock_sessions_def Let_def
        serving_def scsitap_ctl_open_def c_consts) (simp_all add: attach_client_def new_session_def c_consts)
qed

text \<open>
  A target that starts, with good names of image files and a minor no session has, is at work: the
  driver has a new session that is ready, with an empty queue, which the target serves; disk \<open>k\<close> is
  the \<open>k\<close>-th name of the list.  Every image gets the size of the last one.
\<close>

lemma target_starts:
  assumes "files_ok fs names" and "names \<noteq> []" and "length names \<le> 256"
    and "\<forall>f\<in>set names. name_ok f \<and> stat_size f fs = Some (sz f) \<and> sz f mod MEGABYTE = 0"
    and "sz (last names) < 2048 * MEGABYTE" and "minor_of dev = Some m"
    and "\<not> sl_lock D" and "scsitap_get_session D m = None" and "session_at D p = None" and "\<forall>c. sc_SCp_ptr (cb c) = None"
    and "length (ut_cdb tsk) = 16"
  shows "\<exists>v s. server_start stamp mem size0 [''-dev'', dev, ''-files'', comma_list names] fs minor_of sl (Some p) 0 cb pid True tsk D = Inr v
    \<and> server_ok v p s \<and> ss_queue s = [] \<and> ss_flags s = SCSITAP_CONNECTION_READY \<and> ss_Device_Open s = 1
    \<and> (\<forall>k<length names. \<exists>i. fs_dir fs (names ! k) = Some i
        \<and> lun_image (engine_at 6 v) (of_nat k) = set_length (sz (last names)) (fs_data fs i))
    \<and> (\<forall>m. unit_of (engine_at 6 v) m \<noteq> None \<longleftrightarrow> unat m < length names) \<and> ss_next_cmdnumber s = 1"
proof -
  let ?e = "\<lambda>su. \<lparr>en_fs = su_fs su, en_target = su_target su, en_data = []\<rparr>"
  obtain su where su: "configure_scsi_target stamp mem size0 [''-dev'', dev, ''-files'', comma_list names] [] fs = Inr su"
      "disk_target (?e su)" "su_devname su = dev"
      "\<forall>k<length names. \<exists>i. fs_dir fs (names ! k) = Some i \<and> lun_image (?e su) (of_nat k) = set_length (sz (last names)) (fs_data fs i)"
      "\<forall>m. unit_of (?e su) m \<noteq> None \<longleftrightarrow> unat m < length names"
    using configured_disks [OF assms(1-5), of stamp mem size0 dev "[]"] by blast
  let ?s = "attach_client p pid (new_session p m cb)"
  obtain k where k: "register_scsi_host sl (Some p) 0 cb pid (Some m) True tsk D = Inr (Some k)" "serving k p ?s"
      "cl_task k = tsk\<lparr>ut_request_buffer := replicate BUFFER_SIZE 0, ut_status := 0\<rparr>"
    using register_new_session [OF assms(7-10), of sl pid tsk] by blast
  let ?v = "\<lparr>sv_client = k, sv_fs = su_fs su, sv_target = su_target su\<rparr>"
  note same = engine_cong [of "engine_at 6 ?v" "?e su", simplified]
  have "server_ok ?v p ?s"
    using k(2,3) su(2) same(1) assms(11) by (simp add: server_ok_def numbers_inv_def attach_client_def new_session_def)
  moreover have "ss_queue ?s = [] \<and> ss_flags ?s = SCSITAP_CONNECTION_READY \<and> ss_Device_Open ?s = 1"
    by (simp add: attach_client_def new_session_def)
  moreover have "server_start stamp mem size0 [''-dev'', dev, ''-files'', comma_list names] fs minor_of sl (Some p) 0 cb pid True tsk D = Inr ?v"
    using su(1,3) k(1) assms(6) by (simp add: server_start_def)
  moreover have "ss_next_cmdnumber ?s = 1" by (simp add: attach_client_def new_session_def)
  moreover note su(4) [folded same(3)] su(5) [folded same(2)]
  ultimately show ?thesis by (intro exI [of _ ?v] exI [of _ ?s] conjI) blast+
qed

end
