(* ===== verification/Block_Device.thy ===== *)
theory Block_Device
  imports Engine
begin

text \<open>
  What a disk promises: a block device, an array of bytes per logical unit that READ and WRITE
  requests look at and change and whose size READ CAPACITY tells.  The engine on a target of disks refines it.
\<close>

section \<open>The specification\<close>

text \<open>
  A request is a unit, a command block and a data buffer; the answer is the status and the bytes
  read.  A command sends data (WRITE), asks for data (READ, READ CAPACITY) or has none.
\<close>

type_synonym block_request = "u8 \<times> bytes \<times> bytes"

definition sends :: "bytes \<Rightarrow> bool" where
  "sends cdb \<longleftrightarrow> cdb ! 0 \<in> {0x2a, 0xaa, 0x0a}"

definition data_len :: "bytes \<Rightarrow> nat" where
  "data_len cdb = (if cdb ! 0 = 0x25 then 8 else transfer_len cdb)"

definition block_device :: "block_request \<Rightarrow> (u8 \<Rightarrow> bytes) \<Rightarrow> (u8 \<Rightarrow> bytes) \<times> u8 \<times> bytes" where
  "block_device r disks = (case r of (lun, cdb, buf) \<Rightarrow>
     let off = transfer_lba cdb; n = transfer_len cdb
     in if cdb ! 0 = 0x28 \<or> sends cdb then
          (if off + n > length (disks lun) then (disks, 2, [])
           else if sends cdb then (disks(lun := patch off (segment 0 n buf) (disks lun)), 0, [])
           else (disks, 0, segment off n (disks lun)))
        else if cdb ! 0 = 0x25 then (disks, 0, capacity_data (disks lun))
        else (disks, if quiet_op (cdb ! 0) then 0 else 2, []))"

text \<open>
  The operations of the specification: READ(10), WRITE (6, 10, 12), READ CAPACITY(10), the commands
  without data that always succeed, and whatever a disk does not know.
\<close>

definition block_op :: "u8 \<Rightarrow> bool" where
  "block_op op \<longleftrightarrow> op \<in> {0x28, 0x2a, 0xaa, 0x0a, 0x25} \<or> quiet_op op \<or> table_func scsi_sbc_commands op = None"

lemma data_len_moves: "cdb ! 0 = 0x28 \<or> sends cdb \<Longrightarrow> data_len cdb = transfer_len cdb"
  by (auto simp: data_len_def sends_def)

lemma transfer_len_other: "\<not> (cdb ! 0 = 0x28 \<or> sends cdb) \<Longrightarrow> transfer_len cdb = 0"
  by (simp add: sends_def transfer_len_def)

lemma transfer_le_data: "transfer_len cdb \<le> data_len cdb"
  using transfer_len_other [of cdb] data_len_moves [of cdb] by (cases "cdb ! 0 = 0x28 \<or> sends cdb") auto

section \<open>The engine as a block device\<close>

definition serve_block :: "string \<Rightarrow> block_request \<Rightarrow> engine \<Rightarrow> (engine \<times> u8 \<times> bytes) res" where
  "serve_block stamp r e = (case r of (lun, cdb, buf) \<Rightarrow>
     and_then (run_scsi_command stamp lun cdb (int (data_len cdb)) (e\<lparr>en_data := buf\<rparr>)) (\<lambda>(e', st).
       Inr (e', st, if st = 0 \<and> \<not> sends cdb then segment 0 (data_len cdb) (en_data e') else [])))"

definition block_request_ok :: "engine \<Rightarrow> block_request \<Rightarrow> bool" where
  "block_request_ok e r \<longleftrightarrow> (case r of (lun, cdb, buf) \<Rightarrow>
     block_op (cdb ! 0) \<and> unit_of e lun \<noteq> None \<and> transfer_len cdb \<le> length buf \<and> 12 \<le> length buf)"

lemma serve_block_refines:
  assumes "disk_target e" and "block_request_ok e (lun, cdb, buf)"
  shows "\<exists>e' st d. serve_block stamp (lun, cdb, buf) e = Inr (e', st, d) \<and> disk_target e'
    \<and> block_device (lun, cdb, buf) (lun_image e) = (lun_image e', st, d) \<and> (\<forall>m. unit_of e' m \<noteq> None \<longleftrightarrow> unit_of e m \<noteq> None)"
proof -
  let ?e = "e\<lparr>en_data := buf\<rparr>" and ?sz = "int (data_len cdb)"
  have same: "disk_target ?e" "unit_of ?e = unit_of e" "lun_image ?e = lun_image e"
    using assms(1) engine_cong [of ?e e] by simp_all
  obtain l where l: "unit_of ?e lun = Some l" using assms(2) same by (auto simp: block_request_ok_def)
  have op: "block_op (cdb ! 0)" and buf: "transfer_len cdb \<le> length (en_data ?e)" "12 \<le> length (en_data ?e)"
    using assms(2) by (simp_all add: block_request_ok_def)
  have units: "unit_of e' m \<noteq> None \<longleftrightarrow> unit_of e m \<noteq> None"
    if "run_scsi_command stamp lun cdb ?sz ?e = Inr (e', st)" for e' st m
  proof -
    have "map ld_lun (td_luns (en_target e')) = map ld_lun (td_luns (en_target e))"
      using run_keeps_units [OF same(1) l that] by simp
    then show ?thesis using unit_exists [of e' m] unit_exists [of e m] by simp
  qed
  have moves: "sends cdb \<longleftrightarrow> cdb ! 0 \<in> {0x2a, 0xaa, 0x0a}" by (simp add: sends_def)
  consider (beyond) "cdb ! 0 \<in> {0x28, 0x2a, 0xaa, 0x0a}" "transfer_lba cdb + transfer_len cdb > length (lun_image e lun)"
    | (read) "transfer_lba cdb + transfer_len cdb \<le> length (lun_image ?e lun)" "cdb ! 0 = 0x28"
    | (stores) "transfer_lba cdb + transfer_len cdb \<le> length (lun_image ?e lun)" "cdb ! 0 \<in> {0x2a, 0xaa, 0x0a}"
    | (capacity) "cdb ! 0 = 0x25"
    | (quiet) "quiet_op (cdb ! 0)"
    | (unknown) "cdb ! 0 \<notin> {0x28, 0x2a, 0xaa, 0x0a, 0x25}" "\<not> quiet_op (cdb ! 0)" "table_func scsi_sbc_commands (cdb ! 0) = None"
    using op same(3) unfolding block_op_def by fastforce
  then show ?thesis
  proof cases
    case beyond
    then have "run_scsi_command stamp lun cdb ?sz ?e = Inr (?e, 2)"
      using run_beyond [OF same(1) l beyond(1)] same(3) by simp
    with beyond same moves show ?thesis by (auto simp: serve_block_def block_device_def Let_def)
  next
    case read
    obtain e' where e': "run_scsi_command stamp lun cdb ?sz ?e = Inr (e', 0)" "disk_target e'"
        "en_data e' = patch 0 (segment (transfer_lba cdb) (transfer_len cdb) (lun_image e lun)) buf" "\<forall>m. lun_image e' m = lun_image e m"
      using run_read [OF same(1) l read(2,1) buf(1), of stamp ?sz] same(3) by auto
    have "segment 0 (transfer_len cdb) (en_data e') = segment (transfer_lba cdb) (transfer_len cdb) (lun_image e lun)"
      using read(1) same(3) buf(1) unfolding e'(3) by (simp add: segment_patch_same)
    with e' read same(3) moves units [OF e'(1)] show ?thesis
      by (auto simp: serve_block_def block_device_def data_len_moves Let_def fun_eq_iff)
  next
    case stores
    obtain e' where e': "run_scsi_command stamp lun cdb ?sz ?e = Inr (e', 0)" "disk_target e'"
        "lun_image e' lun = write_at (transfer_lba cdb) (segment 0 (transfer_len cdb) buf) (lun_image e lun)"
        "\<forall>m. m \<noteq> lun \<longrightarrow> lun_image e' m = lun_image e m"
      using run_write [OF same(1) l stores(2,1) buf(1), of stamp ?sz] same(3) by auto
    have "lun_image e' = (lun_image e)(lun := patch (transfer_lba cdb) (segment 0 (transfer_len cdb) buf) (lun_image e lun))"
      using e'(3,4) stores(1) same(3) buf by (auto simp: fun_eq_iff write_at_inside)
    with e'(1,2) stores same(3) moves units [OF e'(1)] show ?thesis by (auto simp: serve_block_def block_device_def Let_def)
  next
    case capacity
    obtain e' where e': "run_scsi_command stamp lun cdb ?sz ?e = Inr (e', 0)" "disk_target e'" "lun_image e' = lun_image e"
        "segment 0 8 (en_data e') = capacity_data (lun_image e lun)"
      using run_capacity [OF same(1) l capacity buf(2), of stamp ?sz] same(3) by auto
    with capacity moves units [OF e'(1)] show ?thesis by (auto simp: serve_block_def block_device_def data_len_def)
  next
    case quiet
    then have "cdb ! 0 \<notin> {0x28, 0x2a, 0xaa, 0x0a, 0x25}" by (auto simp: quiet_op_def)
    with quiet run_quiet [OF same(1) l quiet, of stamp ?sz] same moves transfer_len_other [of cdb] show ?thesis
      by (simp add: serve_block_def block_device_def data_len_def segment_def)
  next
    case unknown
    with run_unknown [OF same(1) l unknown(3), of stamp ?sz] same moves show ?thesis
      by (simp add: serve_block_def block_device_def)
  qed
qed

interpretation disk_device: stable_refinement "serve_block stamp" block_device lun_image disk_target block_request_ok for stamp
proof
  show "\<exists>e'. serve_block stamp r e = Inr (e', snd (block_device r (lun_image e)))
      \<and> lun_image e' = fst (block_device r (lun_image e)) \<and> disk_target e'"
    if "disk_target e" "block_request_ok e r" for e r
    using serve_block_refines [of e "fst r" "fst (snd r)" "snd (snd r)" stamp] that by auto
  show "block_request_ok e' q"
    if "disk_target e" "block_request_ok e r" "serve_block stamp r e = Inr (e', x)" "block_request_ok e q" for e r e' x q
    using serve_block_refines [of e "fst r" "fst (snd r)" "snd (snd r)" stamp] that
    by (auto simp: block_request_ok_def split: prod.splits)
qed

text \<open>
  C8.  The engine refines a block device.  Any sequence of READ(10), WRITE (6, 10, 12), READ
  CAPACITY(10), TEST UNIT READY, PREVENT ALLOW MEDIUM REMOVAL, VERIFY and unknown requests to disks that
  exist gets, request by request, the status and the bytes that the specification gives, and leaves the
  images the specification leaves: out of range is refused without effect, a read returns what was last
  written, a write changes its bytes of its disk only, and nothing else changes anything.
\<close>

theorem engine_refines_block_device:
  assumes "disk_target e" and "\<forall>r\<in>set rs. block_request_ok e r"
  shows "\<exists>e'. run_outputs (serve_block stamp) rs e = Inr (e', snd (spec_outputs block_device rs (lun_image e)))
    \<and> lun_image e' = fst (spec_outputs block_device rs (lun_image e)) \<and> disk_target e'"
  using disk_device.run_refines [OF assms(1) disk_device.all_acceptable [OF assms]] by blast

lemma demo_block:
  "sends (demo_cdb 0x2a b n)" "\<not> sends (demo_cdb 0x28 b n)" "data_len (demo_cdb 0x2a b n) = transfer_len (demo_cdb 0x2a b n)"
  "data_len (demo_cdb 0x28 b n) = transfer_len (demo_cdb 0x28 b n)" "block_op 0x2a" "block_op 0x28"
  by (simp_all add: sends_def data_len_def demo_cdb_def block_op_def)

theorem engine_refines_block_device_witness:
  "\<exists>e'. run_outputs (serve_block ''t'') [(0, demo_cdb 0x2a 2 1, replicate 512 9), (0, demo_cdb 0x28 2 1, replicate 512 0)]
     (demo_engine demo_lun 1048576) = Inr (e', [(0, []), (0, replicate 512 9)])"
proof -
  let ?e = "demo_engine demo_lun 1048576"
  let ?rs = "[(0, demo_cdb 0x2a 2 1, replicate 512 9), (0, demo_cdb 0x28 2 1, replicate 512 0)] :: block_request list"
  have "\<forall>r\<in>set ?rs. block_request_ok ?e r" by (simp add: block_request_ok_def block_op_def demo_disk demo_cdb_fields)
  from engine_refines_block_device [OF demo_disk(1) this, of "''t''"]
  have "\<exists>e'. run_outputs (serve_block ''t'') ?rs ?e = Inr (e', snd (spec_outputs block_device ?rs (lun_image ?e)))" by blast
  moreover have "segment 0 512 (replicate 512 (9 :: u8)) = replicate 512 9" by (simp add: segment_def)
  then have "snd (spec_outputs block_device ?rs (lun_image ?e)) = [(0, []), (0, replicate 512 9)]"
    by (simp add: block_device_def sends_def Let_def demo_disk demo_cdb_fields segment_patch_same)
  ultimately show ?thesis by simp
qed

end
