(* ===== verification/System.thy ===== *)
theory System
  imports Server Block_Device
begin

text \<open>
  The whole system as a block device: the queue in the kernel, the user API, the loop of \<open>main\<close> and
  the SCSI engine together do to the mid layer's commands what the specification of the
  theory \<open>Block_Device\<close> does to its requests.
\<close>

section \<open>Commands as requests\<close>

text \<open>
  A command of the specification as the mid layer makes it for a disk: a whole command block, data in
  the direction of the operation and as long as the command calls for, which fits the target's buffer.
\<close>

definition disk_command :: "(u8 \<Rightarrow> bool) \<Rightarrow> u32 \<Rightarrow> scsi_cmnd \<Rightarrow> bool" where
  "disk_command disks lun c \<longleftrightarrow> whole_cdb c \<and> block_op (sc_cmnd c ! 0)
     \<and> (sc_data_direction c = DMA_TO_DEVICE \<longleftrightarrow> sends (sc_cmnd c))
     \<and> unat (sc_request_bufflen c) = data_len (sc_cmnd c) \<and> (sends (sc_cmnd c) \<longrightarrow> 0 < data_len (sc_cmnd c))
     \<and> data_len (sc_cmnd c) + 31 < BUFFER_SIZE \<and> disks (ucast lun)"

definition has_disk :: "server \<Rightarrow> u8 \<Rightarrow> bool" where
  "has_disk v m \<longleftrightarrow> unit_of (engine_at 6 v) m \<noteq> None"

definition block_command :: "server \<Rightarrow> u32 \<Rightarrow> scsi_cmnd \<Rightarrow> bool" where
  "block_command v = disk_command (has_disk v)"

lemmas block_command_defs = block_command_def disk_command_def has_disk_def

definition request_of :: "scsitap_session \<Rightarrow> scsitap_task \<Rightarrow> block_request" where
  "request_of s t = (ucast (tk_lun t), sc_cmnd (ss_cmnds s (tk_sc t)), cmnd_data (ss_cmnds s (tk_sc t)))"

text \<open>What the mid layer finds when the command is done: its result, and the data it asked for if it succeeded.\<close>

definition reply :: "scsitap_session \<Rightarrow> scsitap_session \<Rightarrow> nat \<Rightarrow> u32 \<times> bytes" where
  "reply s s' sc = (let c' = ss_cmnds s' sc; cdb = sc_cmnd (ss_cmnds s sc)
     in (sc_result c', if \<not> sends cdb \<and> 0 < data_len cdb \<and> sc_result c' = 0 then cmnd_data c' else []))"

definition as_reply :: "u8 \<times> bytes \<Rightarrow> u32 \<times> bytes" where
  "as_reply r = (ucast (fst r), snd r)"

section \<open>One turn\<close>

text \<open>The specification looks at the fields of the command block and the data only.\<close>

lemma block_device_cong:
  assumes "cdb ! 0 = cdb' ! 0" and "cdb' ! 0 \<in> {0x28, 0x2a, 0xaa, 0x0a} \<Longrightarrow> transfer_lba cdb = transfer_lba cdb'"
    and "transfer_len cdb = transfer_len cdb'"
    and "sends cdb' \<Longrightarrow> segment 0 (transfer_len cdb') buf = segment 0 (transfer_len cdb') buf'"
  shows "block_device (lun, cdb, buf) disks = block_device (lun, cdb', buf') disks"
proof -
  have "sends cdb = sends cdb'" using assms(1) by (simp add: sends_def)
  moreover have "cdb' ! 0 \<in> {0x28, 0x2a, 0xaa, 0x0a} \<longleftrightarrow> cdb' ! 0 = 0x28 \<or> sends cdb'" by (auto simp: sends_def)
  ultimately show ?thesis using assms by (simp add: block_device_def Let_def)
qed

lemma same_block:
  assumes "cdb ! 0 = cdb' ! 0" and "transfer_len cdb = transfer_len cdb'"
  shows "sends cdb = sends cdb'" and "data_len cdb = data_len cdb'"
  using assms by (simp_all add: sends_def data_len_def)

text \<open>The engine's part of a turn, whatever part of the request buffer it is given.\<close>

definition block_turn :: "server \<Rightarrow> scsitap_session \<Rightarrow> scsitap_task \<Rightarrow> engine \<Rightarrow> u8 \<Rightarrow> bool" where
  "block_turn v s t e st \<longleftrightarrow> map ld_lun (td_luns (en_target e)) = map ld_lun (td_luns (sv_target v))
     \<and> block_device (request_of s t) (lun_image (engine_at 6 v)) = (lun_image e, st,
         if st = 0 \<and> \<not> sends (sc_cmnd (ss_cmnds s (tk_sc t)))
         then segment 0 (data_len (sc_cmnd (ss_cmnds s (tk_sc t)))) (en_data e) else [])"

lemma block_command_runs:
  assumes "disk_target (engine_at 6 v)" and "c = ss_cmnds s (tk_sc t)" and "block_command v (tk_lun t) c" and "off \<le> 31"
    and "length d = BUFFER_SIZE - off"
    and "sends (sc_cmnd c) \<Longrightarrow> segment 0 (data_len (sc_cmnd c)) d = segment 0 (data_len (sc_cmnd c)) (cmnd_data c)"
  shows "engine_runs stamp v t c off d (block_turn v s t)"
  unfolding engine_runs_def
proof (intro allI impI)
  fix cdb
  assume cdb: "cdb ! 0 = sc_cmnd c ! 0" "transfer_len cdb = transfer_len (sc_cmnd c)"
    and lba: "sc_cmnd c ! 0 \<in> {0x28, 0x2a, 0xaa, 0x0a} \<longrightarrow> transfer_lba cdb = transfer_lba (sc_cmnd c)"
  let ?e = "(engine_at off v)\<lparr>en_data := d\<rparr>" and ?lun = "ucast (tk_lun t)"
  note same = same_block [OF cdb]
  have c: "block_op (cdb ! 0)" "unat (sc_request_bufflen c) = data_len cdb" "data_len cdb + 31 < BUFFER_SIZE" "unit_of ?e ?lun \<noteq> None"
    using assms(3) cdb(1) same(2) by (simp_all add: block_command_defs)
  have fit: "data_len cdb < length d" using c(3) assms(4,5) by linarith
  note le = transfer_le_data [of cdb]
  have big: "65536 \<le> length d" using assms(4,5) by (simp add: BUFFER_SIZE_def)
  have dt: "disk_target ?e" using assms(1) by simp
  have ok: "block_request_ok ?e (?lun, cdb, d)" using c(1,4) fit le big by (simp add: block_request_ok_def)
  obtain e st x where e: "serve_block stamp (?lun, cdb, d) ?e = Inr (e, st, x)" "disk_target e"
      "block_device (?lun, cdb, d) (lun_image ?e) = (lun_image e, st, x)"
    using serve_block_refines [OF dt ok, of stamp] by blast
  have run: "run_scsi_command stamp ?lun cdb (int (data_len cdb)) ?e = Inr (e, st)"
      "x = (if st = 0 \<and> \<not> sends cdb then segment 0 (data_len cdb) (en_data e) else [])"
    using e(1) by (auto simp: serve_block_def and_then_Inr_iff)
  have "request_fits ?e ?lun cdb (int (data_len cdb))"
    using c(4) fit le big by (simp add: request_fits_def)
  from disk_request [OF dt this, of stamp] run(1)
  have shape: "length (en_data e) = length d" "map ld_lun (td_luns (en_target e)) = map ld_lun (td_luns (sv_target v))" by auto
  have "block_device (request_of s t) (lun_image ?e) = block_device (?lun, cdb, d) (lun_image ?e)"
    unfolding request_of_def
  proof (rule block_device_cong)
    show "segment 0 (transfer_len cdb) (cmnd_data (ss_cmnds s (tk_sc t))) = segment 0 (transfer_len cdb) d" if "sends cdb"
      using assms(2,6) that same data_len_moves [of cdb] by simp
  qed (use cdb lba assms(2) in auto)
  then have "block_turn v s t e st"
    using e(3) run(2) shape(2) same assms(2) by (simp add: block_turn_def)
  with run(1) e(2) shape(1) c(2) show "\<exists>e st. run_scsi_command stamp ?lun cdb (int (unat (sc_request_bufflen c))) ?e = Inr (e, st)
      \<and> disk_target e \<and> length (en_data e) = length d \<and> block_turn v s t e st"
    by (intro exI [of _ e] exI [of _ st]) simp
qed

lemma block_status: "block_device r disks = (disks', st, d) \<Longrightarrow> st = 0 \<or> st = 2"
  by (auto simp: block_device_def Let_def split: prod.splits if_splits)

lemma block_turn_served:
  assumes "server_ok v p s" and "awaits s t" and "block_command v (tk_lun t) (ss_cmnds s (tk_sc t))" and "slab_ok sl"
  shows "\<exists>v' s'. server_step sl sig stamp v = Inr (Some v') \<and> server_ok v' p s' \<and> finished s t s'
    \<and> map ld_lun (td_luns (sv_target v')) = map ld_lun (td_luns (sv_target v))
    \<and> lun_image (engine_at 6 v') = fst (block_device (request_of s t) (lun_image (engine_at 6 v)))
    \<and> reply s s' (tk_sc t) = as_reply (snd (block_device (request_of s t) (lun_image (engine_at 6 v))))"
proof -
  let ?c = "ss_cmnds s (tk_sc t)"
  let ?n = "data_len (sc_cmnd ?c)"
  have dt: "disk_target (engine_at 6 v)" and len: "length (en_data (engine_at 6 v)) = BUFFER_SIZE - 6"
    using assms(1) by (simp_all add: server_ok_def)
  have wf: "wf_cmnd ?c" using assms(1,2) session_okD(6) [of s t] by (auto simp: server_ok_def serving_def awaits_def)
  have c: "whole_cdb ?c" "unat (sc_request_bufflen ?c) = ?n" "sends (sc_cmnd ?c) \<longrightarrow> 0 < ?n" "?n + 31 < BUFFER_SIZE"
    using assms(3) by (simp_all add: block_command_defs)
  have "\<exists>v' s' e st. server_step sl sig stamp v = Inr (Some v') \<and> served v p s t e st v' s' \<and> block_turn v s t e st
    \<and> (\<not> sends (sc_cmnd ?c) \<and> 0 < ?n \<and> st = 0 \<longrightarrow> cmnd_data (ss_cmnds s' (tk_sc t)) = segment 0 ?n (en_data e))"
  proof (cases "\<not> sends (sc_cmnd ?c)")
    case True
    then have dir: "sc_data_direction ?c \<noteq> DMA_TO_DEVICE" and room: "unat (sc_request_bufflen ?c) + 6 < BUFFER_SIZE"
      using assms(3) c by (simp_all add: block_command_defs)
    have "engine_runs stamp v t ?c 6 (en_data (engine_at 6 v)) (block_turn v s t)"
      by (rule block_command_runs [OF dt refl assms(3) _ len]) (use True in simp_all)
    from turn_in [OF assms(1,2) refl c(1) assms(4) dir room this, of sig] c(2,3) show ?thesis by auto
  next
    case False
    then have dir: "sc_data_direction ?c = DMA_TO_DEVICE" using assms(3) by (auto simp: block_command_defs)
    have "engine_runs stamp v t ?c 31 d (block_turn v s t)"
      if "length d = BUFFER_SIZE - 31" "segment 0 (unat (sc_request_bufflen ?c)) d = cmnd_data ?c" for d
    proof (rule block_command_runs [OF dt refl assms(3) _ that(1)])
      have "length (cmnd_data ?c) = ?n" using wf c(2) by (simp add: wf_cmnd_def)
      with that(2) c(2) show "segment 0 ?n d = segment 0 ?n (cmnd_data ?c)" by (simp add: segment_def)
    qed simp
    from turn_out [OF assms(1,2) refl c(1) assms(4) dir _ _ this, of sig] c(2-4) False show ?thesis by auto
  qed
  then obtain v' s' e st where r: "server_step sl sig stamp v = Inr (Some v')" "served v p s t e st v' s'" "block_turn v s t e st"
      "\<not> sends (sc_cmnd ?c) \<and> 0 < ?n \<and> st = 0 \<longrightarrow> cmnd_data (ss_cmnds s' (tk_sc t)) = segment 0 ?n (en_data e)" by blast
  have "st = 0 \<or> st = 2" using r(3) block_status unfolding block_turn_def by blast
  then have top: "drop_bit 7 st = 0" "(ucast st :: u32) = 0 \<longleftrightarrow> st = 0" by (auto simp: drop_bit_eq_div)
  then have res: "sc_result (ss_cmnds s' (tk_sc t)) = ucast st" using r(2) by (simp add: served_def)
  have "reply s s' (tk_sc t) = as_reply (snd (block_device (request_of s t) (lun_image (engine_at 6 v))))"
    using r(3,4) res top(2) by (auto simp: block_turn_def reply_def as_reply_def Let_def)
  moreover have "lun_image (engine_at 6 v') = fst (block_device (request_of s t) (lun_image (engine_at 6 v)))"
    using r(3) served_engine(2) [OF r(2), of 6] by (simp add: block_turn_def)
  ultimately show ?thesis using r(1-3) by (auto simp: served_def block_turn_def)
qed

section \<open>A queue of commands\<close>

text \<open>
  C4.  The system is a block device.  When the commands that wait are READ(10), WRITE (6, 10, 12), READ
  CAPACITY(10), TEST UNIT READY, PREVENT ALLOW MEDIUM REMOVAL, VERIFY and unknown commands to disks of the
  target, as many turns of its loop as there are commands finish them all, in their order.  The mid
  layer finds in each command the result and the data, and the images end up with the contents, that the
  specification of a block device gives for the sequence of requests.
\<close>

theorem system_refines_block_device:
  assumes "server_ok v p s" and "slab_ok sl"
    and "\<forall>t\<in>set (ss_queue s). tk_flags t = SCSITAP_TASK_SUBMITTED \<and> block_command v (tk_lun t) (ss_cmnds s (tk_sc t))"
    and "rs = map (request_of s) (ss_queue s)"
  shows "\<exists>v' s'. server_loop sl sig stamp (length (ss_queue s)) v = Inr (Some v') \<and> server_ok v' p s' \<and> ss_queue s' = []
    \<and> map snd (ss_done s') = map snd (ss_done s) @ pending s
    \<and> lun_image (engine_at 6 v') = fst (spec_outputs block_device rs (lun_image (engine_at 6 v)))
    \<and> map (reply s s') (pending s) = map as_reply (snd (spec_outputs block_device rs (lun_image (engine_at 6 v))))
    \<and> (\<forall>d. d \<notin> set (pending s) \<longrightarrow> ss_cmnds s' d = ss_cmnds s d)"
  using assms(1,3,4)
proof (induction "ss_queue s" arbitrary: s v rs)
  case Nil
  then show ?case by (intro exI [of _ v] exI [of _ s]) (simp flip: Nil.hyps)
next
  case (Cons t q)
  have qs: "ss_queue s = t # q" using Cons.hyps(2) by simp
  have t: "awaits s t" "block_command v (tk_lun t) (ss_cmnds s (tk_sc t))"
    using Cons.prems(2) qs unfolding awaits_def by (simp_all add: exI [of _ "[]"])
  obtain v1 s1 where r: "server_step sl sig stamp v = Inr (Some v1)" "server_ok v1 p s1" "finished s t s1"
      "map ld_lun (td_luns (sv_target v1)) = map ld_lun (td_luns (sv_target v))"
      "lun_image (engine_at 6 v1) = fst (block_device (request_of s t) (lun_image (engine_at 6 v)))"
      "reply s s1 (tk_sc t) = as_reply (snd (block_device (request_of s t) (lun_image (engine_at 6 v))))"
    using block_turn_served [OF Cons.prems(1) t assms(2)] by blast
  have "session_ok s" using Cons.prems(1) by (simp add: server_ok_def serving_def)
  note f = finished_first [OF r(3) this qs]
  have same: "ss_cmnds s1 (tk_sc u) = ss_cmnds s (tk_sc u)" if "u \<in> set q" for u
    using f(2,3) that by (metis imageI)
  have units: "unit_of (engine_at 6 v1) m \<noteq> None \<longleftrightarrow> unit_of (engine_at 6 v) m \<noteq> None" for m
    using r(4) unit_exists [of "engine_at 6 v1" m] unit_exists [of "engine_at 6 v" m] by simp
  have rest: "\<forall>u\<in>set (ss_queue s1). tk_flags u = SCSITAP_TASK_SUBMITTED \<and> block_command v1 (tk_lun u) (ss_cmnds s1 (tk_sc u))"
    using Cons.prems(2) qs f(1) same units by (auto simp: block_command_defs)
  let ?rs = "map (request_of s1) (ss_queue s1)"
  have rs: "rs = request_of s t # ?rs"
    using Cons.prems(3) qs f(1) same by (simp add: request_of_def)
  obtain v' s' where l: "server_loop sl sig stamp (length q) v1 = Inr (Some v')" "server_ok v' p s'" "ss_queue s' = []"
      "map snd (ss_done s') = map snd (ss_done s1) @ pending s1"
      "lun_image (engine_at 6 v') = fst (spec_outputs block_device ?rs (lun_image (engine_at 6 v1)))"
      "map (reply s1 s') (map tk_sc q) = map as_reply (snd (spec_outputs block_device ?rs (lun_image (engine_at 6 v1))))"
      "\<forall>d. d \<notin> set (pending s1) \<longrightarrow> ss_cmnds s' d = ss_cmnds s1 d"
    using Cons.hyps(1) [OF f(1) [symmetric] r(2) rest refl] f(1) by auto
  have "reply s s' (tk_sc t) = reply s s1 (tk_sc t)" using l(7) f(1,2) by (simp add: reply_def)
  moreover have "map (reply s s') (map tk_sc q) = map (reply s1 s') (map tk_sc q)" using same by (simp add: reply_def)
  then have "map (reply s s') (map tk_sc q) = map as_reply (snd (spec_outputs block_device ?rs (lun_image (engine_at 6 v1))))"
    using l(6) by (rule trans)
  ultimately have "map (reply s s') (pending s) = map as_reply (snd (spec_outputs block_device rs (lun_image (engine_at 6 v))))"
    using r(5,6) qs rs by (simp add: split_def Let_def)
  moreover have "lun_image (engine_at 6 v') = fst (spec_outputs block_device rs (lun_image (engine_at 6 v)))"
    using l(5) r(5) rs by (simp add: split_def Let_def)
  moreover have "\<forall>d. d \<notin> set (pending s) \<longrightarrow> ss_cmnds s' d = ss_cmnds s d" using l(7) f(1,3) qs by simp
  ultimately show ?case using l(1-4) r(1) f(1,4) qs by (intro exI [of _ v'] exI [of _ s']) simp
qed

theorem system_refines_block_device_witness:
  "\<exists>v' s'. server_loop (demo_slab (\<lambda>f. f)) False ''t'' 1 (demo_server (demo_transfer (demo_cdb 0x2a 2 1) 512 DMA_TO_DEVICE)) = Inr (Some v')
     \<and> server_ok v' 1 s' \<and> ss_queue s' = [] \<and> lun_image (engine_at 6 v') 0
         = patch 1024 (replicate 512 9) (lun_image (engine_at 6 (demo_server (demo_transfer (demo_cdb 0x2a 2 1) 512 DMA_TO_DEVICE))) 0)
     \<and> sc_result (ss_cmnds s' 5) = 0"
proof -
  let ?c = "demo_transfer (demo_cdb 0x2a 2 1) 512 DMA_TO_DEVICE"
  have "block_command (demo_server ?c) (tk_lun (demo_task SCSITAP_TASK_SUBMITTED)) ?c"
    by (simp add: block_command_defs demo_block demo_transfer_ok demo_cdb_fields demo_server_engine BUFFER_SIZE_def)
  then show ?thesis
    using system_refines_block_device [OF demo_server_ok demo_slab_ok _ refl, of ?c False "''t''"]
    by (auto simp: demo_transfer_ok request_of_def block_device_def demo_block demo_server_engine demo_cdb_fields reply_def as_reply_def segment_def Let_def)
qed

end
