(* ===== verification/Task_Queue.thy ===== *)
theory Task_Queue
  imports Driver
begin

text \<open>
  What a ready session promises to the mid layer and to the targets: a queue of numbered commands.
  The mid layer submits commands and gives them up, a target asks for the oldest one that nobody has
  claimed, claims it and answers it.  The handlers of \<open>kernel/hba.c\<close> and \<open>kernel/device.c\<close>
  refine it.
\<close>

section \<open>The specification\<close>

text \<open>
  An entry is a number, a command, and whether a target has claimed it; entries are in the order of
  their numbers, oldest first.
\<close>

record queue_spec =
  qs_entries :: "(u32 \<times> nat \<times> bool) list"
  qs_next :: u32

datatype request =
    Submit nat nat scsi_cmnd nat
  | Oldest
  | Claim u32
  | Answer u32 u8 bytes
  | Give_up nat
  | Give_up_all

text \<open>What a request returns: the return value, the number handed out, the commands it finished with their results.\<close>

type_synonym outcome = "int \<times> u32 option \<times> (nat \<times> u32) list"

definition result_of_status :: "u8 \<Rightarrow> u32" where
  "result_of_status st = ucast (if drop_bit 7 st = 0 then st else st AND 0x1f)"

fun task_queue :: "request \<Rightarrow> queue_spec \<Rightarrow> queue_spec \<times> outcome" where
  "task_queue (Submit a sc c dn) q =
     (q\<lparr>qs_entries := qs_entries q @ [(qs_next q, sc, False)], qs_next := qs_next q + 1\<rparr>, 0, None, [])"
| "task_queue Oldest q = (q, case find (\<lambda>(n, sc, claimed). \<not> claimed) (qs_entries q) of
       None \<Rightarrow> (0, None, [])
     | Some (n, sc, claimed) \<Rightarrow> (31, Some n, []))"
| "task_queue (Claim n) q =
     (q\<lparr>qs_entries := map (\<lambda>(m, sc, claimed). (m, sc, claimed \<or> m = n)) (qs_entries q)\<rparr>,
      if n \<in> fst ` set (qs_entries q) then SUCCESS else 0, None, [])"
| "task_queue (Answer n st p) q =
     (q\<lparr>qs_entries := filter (\<lambda>e. fst e \<noteq> n) (qs_entries q)\<rparr>,
      to_int (6 + length p), None, map (\<lambda>(m, sc, claimed). (sc, result_of_status st)) (filter (\<lambda>e. fst e = n) (qs_entries q)))"
| "task_queue (Give_up sc) q = (q\<lparr>qs_entries := filter (\<lambda>(m, c, claimed). c \<noteq> sc) (qs_entries q)\<rparr>, SUCCESS, None, [])"
| "task_queue Give_up_all q = (q\<lparr>qs_entries := []\<rparr>, SUCCESS, None, [])"

section \<open>The session as a task queue\<close>

definition queue_of :: "scsitap_session \<Rightarrow> queue_spec" where
  "queue_of s = \<lparr>qs_entries = map (\<lambda>t. (tk_cmd_number t, tk_sc t, tk_flags t = SCSITAP_TASK_RECEIVED)) (ss_queue s),
     qs_next = ss_next_cmdnumber s\<rparr>"

definition completions :: "scsitap_session \<Rightarrow> scsitap_session \<Rightarrow> (nat \<times> u32) list" where
  "completions s s' = map (\<lambda>(f, sc). (sc, sc_result (ss_cmnds s' sc))) (drop (length (ss_done s)) (ss_done s'))"

definition outcome_of :: "scsitap_session \<Rightarrow> (scsitap_session \<times> int) res \<Rightarrow> (scsitap_session \<times> outcome) res" where
  "outcome_of s m = and_then m (\<lambda>(s', r). Inr (s', r, None, completions s s'))"

fun serve_queue :: "slab \<Rightarrow> request \<Rightarrow> scsitap_session \<Rightarrow> (scsitap_session \<times> outcome) res" where
  "serve_queue sl (Submit a sc c dn) s = outcome_of s (scsitap_queuecommand (Some a) sc dn (upd_cmnd sc (\<lambda>_. c) s))"
| "serve_queue sl Oldest s = and_then (ctl_read True 0 31 (replicate 31 0) s) (\<lambda>r. case r of
       None \<Rightarrow> Inl Deadlock
     | Some (s', ub, ret) \<Rightarrow> Inr (s', ret, if ret = 31 then Some (le32 (segment 2 4 ub)) else None, completions s s'))"
| "serve_queue sl (Claim n) s = outcome_of s (ioctl_receive (ucast n) s)"
| "serve_queue sl (Answer n st p) s = outcome_of s (ctl_write sl (6 + length p) (answer n st p) s)"
| "serve_queue sl (Give_up sc) s = outcome_of s (scsitap_eh_abort sl sc s)"
| "serve_queue sl Give_up_all s = outcome_of s (scsitap_eh_host_reset sl s)"

text \<open>
  What the callers see to: a command that is not queued, in a free slot, before the numbers run out;
  an answer that has the data or the sense data its status calls for.
\<close>

fun request_ok :: "scsitap_session \<Rightarrow> request \<Rightarrow> bool" where
  "request_ok s (Submit a sc c dn) \<longleftrightarrow> sc \<notin> set (pending s) \<and> a \<notin> tk_addr ` set (ss_queue s) \<and> wf_cmnd c
     \<and> sc_SCp_ptr c = None \<and> ss_next_cmdnumber s \<noteq> -1"
| "request_ok s (Answer n st p) \<longleftrightarrow> (\<forall>t. task_of_cmd s n = Some t \<longrightarrow>
     (if st = 0 then p = [] \<or> length p = unat (sc_request_bufflen (ss_cmnds s (tk_sc t)))
      else drop_bit 7 st = 0 \<or> length p = 14))"
| "request_ok s r \<longleftrightarrow> True"

definition ready_session :: "scsitap_session \<Rightarrow> bool" where
  "ready_session s \<longleftrightarrow> session_ok s \<and> ss_flags s = SCSITAP_CONNECTION_READY \<and> numbers_inv s"

section \<open>The refinement\<close>

lemma numbers_filter: "numbers_inv s \<Longrightarrow> ss_queue s' = filter P (ss_queue s) \<Longrightarrow> ss_next_cmdnumber s' = ss_next_cmdnumber s \<Longrightarrow> numbers_inv s'"
  by (auto simp: numbers_inv_def sorted_wrt_filter)

text \<open>With increasing numbers, looking for a number and filtering by it are the same.\<close>

lemma filter_number:
  assumes "numbers_inv s"
  shows "filter (\<lambda>t. tk_cmd_number t = n) (ss_queue s) = (case task_of_cmd s n of None \<Rightarrow> [] | Some t \<Rightarrow> [t])"
proof -
  have "sorted_wrt (\<lambda>t u. tk_cmd_number t < tk_cmd_number u) q \<Longrightarrow>
      filter (\<lambda>t. tk_cmd_number t = n) q = (case find (\<lambda>t. tk_cmd_number t = n) q of None \<Rightarrow> [] | Some t \<Rightarrow> [t])" for q :: "scsitap_task list"
  proof (induction q)
    case (Cons t q)
    show ?case
    proof (cases "tk_cmd_number t = n")
      case True
      with Cons.prems have "filter (\<lambda>u. tk_cmd_number u = n) q = []" by (auto simp: filter_empty_conv)
      with True show ?thesis by simp
    qed (use Cons in simp)
  qed simp
  then show ?thesis using assms by (simp add: numbers_inv_def task_of_cmd_def)
qed

lemma same_number:
  assumes "numbers_inv s" and "queue_links s" and "task_of_cmd s n = Some t" and "u \<in> set (ss_queue s)"
  shows "tk_addr u = tk_addr t \<longleftrightarrow> tk_cmd_number u = n"
proof -
  have t: "t \<in> set (ss_queue s)" "tk_cmd_number t = n" using task_of_cmdD [OF assms(3)] by auto
  have "distinct (map tk_addr (ss_queue s))" using assms(2) by (simp add: queue_links_def)
  from distinct_key_eq [OF this assms(4) t(1)] have "tk_addr u = tk_addr t \<longleftrightarrow> u = t" by auto
  moreover have "find (\<lambda>v. tk_cmd_number v = tk_cmd_number u) (ss_queue s) = Some u"
    using assms(1,4) by (intro find_sorted_number) (auto simp: numbers_inv_def)
  then have "tk_cmd_number u = n \<Longrightarrow> u = t" using assms(3) by (simp add: task_of_cmd_def)
  ultimately show ?thesis using t(2) by auto
qed

lemma complete_next: "scsitap_complete_task sl a s = Inr s' \<Longrightarrow> ss_next_cmdnumber s' = ss_next_cmdnumber s"
  by (auto simp: scsitap_complete_task_def call_scsi_done_def Let_def upd_cmnd_def split: option.splits if_splits)

lemma set_flags_next [simp]: "ss_next_cmdnumber (set_task_flags a f s) = ss_next_cmdnumber s"
  by (simp add: set_task_flags_def)

lemma abort_each_next: "abort_each sl as s = Inr s' \<Longrightarrow> ss_next_cmdnumber s' = ss_next_cmdnumber s"
  by (induction as arbitrary: s) (auto simp: and_then_Inr_iff dest!: complete_next)

lemma ready_flags: "same_identity s s' \<Longrightarrow> ss_flags s' = ss_flags s"
  by (simp add: same_identity_def)

lemma filter_addr_sc:
  assumes "queue_links s" and "t \<in> set (ss_queue s)"
  shows "filter (\<lambda>u. tk_addr u \<noteq> tk_addr t) (ss_queue s) = filter (\<lambda>u. tk_sc u \<noteq> tk_sc t) (ss_queue s)"
proof (rule filter_cong)
  fix u assume u: "u \<in> set (ss_queue s)"
  have "distinct (map tk_addr (ss_queue s))" "distinct (map tk_sc (ss_queue s))"
    using assms(1) by (simp_all add: queue_links_def)
  from distinct_key_eq [OF this(1) u assms(2)] distinct_key_eq [OF this(2) u assms(2)]
  show "tk_addr u \<noteq> tk_addr t \<longleftrightarrow> tk_sc u \<noteq> tk_sc t" by auto
qed simp

lemma refine_abort:
  assumes "ready_session s" and "slab_ok sl"
  shows "\<exists>s'. scsitap_eh_abort sl sc s = Inr (s', SUCCESS) \<and> ready_session s' \<and> ss_done s' = ss_done s
    \<and> ss_queue s' = filter (\<lambda>t. tk_sc t \<noteq> sc) (ss_queue s) \<and> ss_next_cmdnumber s' = ss_next_cmdnumber s
    \<and> (\<forall>d. d \<noteq> sc \<longrightarrow> ss_cmnds s' d = ss_cmnds s d)"
proof -
  have ok: "session_ok s" and rest: "ss_flags s = SCSITAP_CONNECTION_READY" "numbers_inv s"
    using assms(1) by (simp_all add: ready_session_def)
  define s1 where "s1 = s\<lparr>ss_host_lock := False, ss_queue_lock := True\<rparr>"
  have s1: "queue_links s1" "ss_queue s1 = ss_queue s" "ss_done s1 = ss_done s" "ss_next_cmdnumber s1 = ss_next_cmdnumber s"
      "spin_lock_queue (spin_unlock_host s) = Inr s1" "\<not> ss_host_lock s1" "ss_cmnds s1 = ss_cmnds s"
    using session_okD [OF ok] by (auto simp: s1_def lock_defs queue_inv_def)
  have "\<exists>s2. (case sc_SCp_ptr (ss_cmnds s1 sc) of None \<Rightarrow> Inr s1
      | Some a \<Rightarrow> scsitap_complete_task sl a (set_task_flags a SCSITAP_TASK_ABORTED s1)) = Inr s2
      \<and> ss_queue s2 = filter (\<lambda>t. tk_sc t \<noteq> sc) (ss_queue s) \<and> ss_done s2 = ss_done s
      \<and> ss_next_cmdnumber s2 = ss_next_cmdnumber s \<and> \<not> ss_host_lock s2 \<and> (\<forall>d. d \<noteq> sc \<longrightarrow> ss_cmnds s2 d = ss_cmnds s d)"
  proof (cases "sc \<in> set (pending s1)")
    case True
    then obtain t where t: "t \<in> set (ss_queue s1)" "tk_sc t = sc" "sc_SCp_ptr (ss_cmnds s1 sc) = Some (tk_addr t)"
      using pending_task [OF s1(1)] by blast
    have "ss_queue (unlink_task t s1) = filter (\<lambda>u. tk_sc u \<noteq> sc) (ss_queue s)"
      using filter_addr_sc [OF s1(1) t(1)] t(2) s1(2) by (simp add: unlink_task_def upd_cmnd_def)
    then show ?thesis
      using t complete_aborted [OF s1(1) t(1) assms(2)] s1(3,4,6,7) by (simp add: unlink_task_def upd_cmnd_def)
  next
    case False
    then have "filter (\<lambda>t. tk_sc t \<noteq> sc) (ss_queue s) = ss_queue s" using s1(2) by (auto simp: filter_id_conv)
    then show ?thesis
      using not_pending_SCp [OF s1(1) False] s1 by simp
  qed
  then obtain s2 where s2: "(case sc_SCp_ptr (ss_cmnds s1 sc) of None \<Rightarrow> Inr s1
      | Some a \<Rightarrow> scsitap_complete_task sl a (set_task_flags a SCSITAP_TASK_ABORTED s1)) = Inr s2"
      "ss_queue s2 = filter (\<lambda>t. tk_sc t \<noteq> sc) (ss_queue s)" "ss_done s2 = ss_done s"
      "ss_next_cmdnumber s2 = ss_next_cmdnumber s" "\<not> ss_host_lock s2" "\<forall>d. d \<noteq> sc \<longrightarrow> ss_cmnds s2 d = ss_cmnds s d" by blast
  let ?s = "s2\<lparr>ss_queue_lock := False, ss_host_lock := True\<rparr>"
  have run: "scsitap_eh_abort sl sc s = Inr (?s, SUCCESS)"
    using s1(5) s2(1,5) by (simp add: scsitap_eh_abort_def lock_defs)
  moreover have "session_ok ?s" using eh_abort_safe [OF ok assms(2), of sc] run by simp
  moreover have "ss_flags ?s = SCSITAP_CONNECTION_READY" using ready_flags [OF eh_abort_identity [OF run]] rest(1) by simp
  moreover have "numbers_inv ?s" by (rule numbers_filter [OF rest(2)]) (use s2 in simp_all)
  ultimately show ?thesis using s2 by (auto simp: ready_session_def)
qed

lemma refine_reset:
  assumes "ready_session s" and "slab_ok sl"
  shows "\<exists>s'. scsitap_eh_host_reset sl s = Inr (s', SUCCESS) \<and> ready_session s' \<and> ss_done s' = ss_done s
    \<and> ss_queue s' = [] \<and> ss_next_cmdnumber s' = ss_next_cmdnumber s"
proof -
  have ok: "session_ok s" and rest: "ss_flags s = SCSITAP_CONNECTION_READY" "numbers_inv s"
    using assms(1) by (simp_all add: ready_session_def)
  obtain s' where s': "scsitap_eh_host_reset sl s = Inr (s', SUCCESS)" "session_idle s'" "ss_queue s' = []" "ss_done s' = ss_done s"
    using host_reset_drains_fact [OF session_okD(5) [OF ok] assms(2)] by blast
  have nxt: "ss_next_cmdnumber s' = ss_next_cmdnumber s"
    using s'(1) by (auto simp: scsitap_eh_host_reset_def lock_defs and_then_Inr_iff split: if_splits dest!: abort_each_next)
  have "ready_session s'"
    using s' nxt rest ready_flags [OF host_reset_identity [OF s'(1)]]
    by (simp add: ready_session_def session_ok_def numbers_inv_def)
  with s' nxt show ?thesis by blast
qed

lemma refine_submit:
  assumes "ready_session s" and "request_ok s (Submit a sc c dn)"
  shows "\<exists>s' t. scsitap_queuecommand (Some a) sc dn (upd_cmnd sc (\<lambda>_. c) s) = Inr (s', 0) \<and> ready_session s' \<and> ss_done s' = ss_done s
    \<and> ss_queue s' = ss_queue s @ [t] \<and> tk_cmd_number t = ss_next_cmdnumber s \<and> tk_sc t = sc \<and> tk_flags t = SCSITAP_TASK_SUBMITTED
    \<and> ss_next_cmdnumber s' = ss_next_cmdnumber s + 1 \<and> tk_lun t = sc_device_lun c
    \<and> ss_cmnds s' = (ss_cmnds s)(sc := c\<lparr>sc_scsi_done := Some dn, sc_result := 0, sc_SCp_ptr := Some a\<rparr>) \<and> tk_addr t = a"
proof -
  let ?s = "upd_cmnd sc (\<lambda>_. c) s"
  have ok: "session_ok s" and rest: "ss_flags s = SCSITAP_CONNECTION_READY" "numbers_inv s"
    using assms(1) by (simp_all add: ready_session_def)
  have req: "sc \<notin> set (pending s)" "a \<notin> tk_addr ` set (ss_queue s)" "wf_cmnd c" "sc_SCp_ptr c = None" "ss_next_cmdnumber s \<noteq> -1"
    using assms(2) by simp_all
  obtain s' r where s': "scsitap_queuecommand (Some a) sc dn ?s = Inr (s', r)" "session_ok s'"
    using queuecommand_safe [OF ok req(1,3,4), of "Some a" dn] req(2) by auto
  obtain t where t: "scsitap_alloc_task (ss_addr s) (Some a) = Some t" "tk_addr t = a" by (simp add: scsitap_alloc_task_def)
  define s0 where "s0 = upd_cmnd sc (\<lambda>c. c\<lparr>sc_scsi_done := Some dn, sc_result := 0, sc_SCp_ptr := None\<rparr>)
     (?s\<lparr>ss_host_lock := False, ss_queue_lock := True\<rparr>)"
  have "scsitap_queuecommand (Some a) sc dn ?s = Inr ((queue_task sc t s0)\<lparr>ss_queue_lock := False, ss_host_lock := True\<rparr>, 0)"
    using rest(1) t(1) session_okD(4) [OF ok]
    by (simp add: scsitap_queuecommand_def lock_defs s0_def Let_def queue_task_def upd_cmnd_def)
  then have r: "s' = (queue_task sc t s0)\<lparr>ss_queue_lock := False, ss_host_lock := True\<rparr>" "r = 0" using s'(1) by simp_all
  have n0: "numbers_inv s0" "ss_next_cmdnumber s0 = ss_next_cmdnumber s" "ss_next_cmdnumber s \<noteq> 0"
    using rest(2) by (simp_all add: numbers_inv_def s0_def upd_cmnd_def)
  have "numbers_inv s'"
    using queue_task_numbers(1) [OF n0(1), of sc t] n0(2) req(5) unfolding r(1) by (simp add: numbers_inv_def)
  moreover have "ss_flags s' = SCSITAP_CONNECTION_READY"
    using ready_flags [OF queuecommand_identity [OF s'(1)]] rest(1) by (simp add: upd_cmnd_def)
  ultimately show ?thesis
    using s' r n0(2,3) t(2) by (auto simp: ready_session_def queue_task_def upd_cmnd_def Let_def s0_def fun_eq_iff)
qed

lemma refine_claim:
  assumes "ready_session s"
  shows "\<exists>s'. ioctl_receive (ucast n) s = Inr (s', if n \<in> tk_cmd_number ` set (ss_queue s) then SUCCESS else 0) \<and> ready_session s'
    \<and> ss_done s' = ss_done s \<and> ss_next_cmdnumber s' = ss_next_cmdnumber s
    \<and> ss_queue s' = map (\<lambda>t. if tk_cmd_number t = n then t\<lparr>tk_flags := SCSITAP_TASK_RECEIVED\<rparr> else t) (ss_queue s)"
proof -
  have ok: "session_ok s" and rest: "ss_flags s = SCSITAP_CONNECTION_READY" "numbers_inv s"
    using assms(1) by (simp_all add: ready_session_def)
  show ?thesis
  proof (cases "task_of_cmd s n")
    case None
    then have none: "\<forall>t\<in>set (ss_queue s). tk_cmd_number t \<noteq> n" by (auto simp: task_of_cmd_def find_None_iff)
    then have "map (\<lambda>t. if tk_cmd_number t = n then t\<lparr>tk_flags := SCSITAP_TASK_RECEIVED\<rparr> else t) (ss_queue s) = ss_queue s"
      by (auto intro: map_idI)
    moreover have "n \<notin> tk_cmd_number ` set (ss_queue s)" using none by auto
    ultimately show ?thesis
      using None assms rest lock_unlock [OF ok] by (simp add: ioctl_receive_def)
  next
    case (Some t)
    let ?s = "set_task_flags (tk_addr t) SCSITAP_TASK_RECEIVED s"
    have q: "ss_queue ?s = map (\<lambda>t. if tk_cmd_number t = n then t\<lparr>tk_flags := SCSITAP_TASK_RECEIVED\<rparr> else t) (ss_queue s)"
      using same_number [OF rest(2) _ Some] session_okD(2) [OF ok] by (auto simp: set_task_flags_def)
    moreover have "numbers_inv ?s"
      using rest(2) by (auto simp: numbers_inv_def set_task_flags_def sorted_wrt_map)
    moreover have "n \<in> tk_cmd_number ` set (ss_queue s)" using task_of_cmdD [OF Some] by auto
    ultimately show ?thesis
      using receive_found [OF ok rest(1) Some] set_flags_ok [OF ok] rest(1) by (auto simp: ready_session_def)
  qed
qed

lemma refine_answer:
  assumes "ready_session s" and "slab_ok sl" and "request_ok s (Answer n st p)"
  shows "\<exists>s'. ctl_write sl (6 + length p) (answer n st p) s = Inr (s', to_int (6 + length p)) \<and> ready_session s'
    \<and> ss_next_cmdnumber s' = ss_next_cmdnumber s \<and> ss_queue s' = filter (\<lambda>t. tk_cmd_number t \<noteq> n) (ss_queue s)
    \<and> completions s s' = map (\<lambda>t. (tk_sc t, result_of_status st)) (filter (\<lambda>t. tk_cmd_number t = n) (ss_queue s))"
proof -
  have ok: "session_ok s" and rest: "ss_flags s = SCSITAP_CONNECTION_READY" "numbers_inv s"
    using assms(1) by (simp_all add: ready_session_def)
  show ?thesis
  proof (cases "task_of_cmd s n")
    case None
    then have "filter (\<lambda>t. tk_cmd_number t \<noteq> n) (ss_queue s) = ss_queue s" "filter (\<lambda>t. tk_cmd_number t = n) (ss_queue s) = []"
      by (auto simp: task_of_cmd_def find_None_iff filter_id_conv filter_empty_conv)
    moreover have "ctl_write sl (6 + length p) (answer n st p) s = Inr (s, to_int (6 + length p))"
      using None rest(1) lock_unlock [OF ok] answer_fields [of n st p "[]"]
      by (simp add: ctl_write_def ctl_write_D_def le32_le32_bytes)
    ultimately show ?thesis using assms(1) by (auto simp: completions_def)
  next
    case (Some t)
    have "\<exists>s'. ctl_write sl (6 + length p) (answer n st p) s = Inr (s', to_int (6 + length p)) \<and> finished s t s'
        \<and> sc_result (ss_cmnds s' (tk_sc t)) = result_of_status st"
    proof -
      consider "st = 0" "p = []" | "st = 0" "p \<noteq> []" "length p = unat (sc_request_bufflen (ss_cmnds s (tk_sc t)))"
        | "st \<noteq> 0" "drop_bit 7 st = 0" | "drop_bit 7 st \<noteq> 0" "length p = 14"
        using assms(3) Some by (auto split: if_splits)
      then show ?thesis
      proof cases
        case 1
        with write_good_no_data_fact [OF ok rest(1) assms(2) Some, of "[]"] show ?thesis by (auto simp: result_of_status_def)
      next
        case 2
        with write_good_data_fact [OF ok rest(1) assms(2) Some 2(2,3), of "[]"] show ?thesis by (auto simp: result_of_status_def)
      next
        case 3
        with write_status_only_fact [OF ok rest(1) assms(2) Some 3, of "6 + length p" p "[]"] show ?thesis by (auto simp: result_of_status_def)
      next
        case 4
        with write_sense_data_fact [OF ok rest(1) assms(2) Some 4, of "6 + length p" "[]"] show ?thesis by (auto simp: result_of_status_def)
      qed
    qed
    then obtain s' where s': "ctl_write sl (6 + length p) (answer n st p) s = Inr (s', to_int (6 + length p))" "finished s t s'"
        "sc_result (ss_cmnds s' (tk_sc t)) = result_of_status st" by blast
    have q: "ss_queue s' = filter (\<lambda>u. tk_cmd_number u \<noteq> n) (ss_queue s)"
      using s'(2) same_number [OF rest(2) session_okD(2) [OF ok] Some] by (simp add: finished_def cong: filter_cong)
    moreover have "completions s s' = [(tk_sc t, result_of_status st)]"
      using s'(2,3) by (simp add: finished_def completions_def)
    moreover have "ready_session s'"
      using s'(2) numbers_filter [OF rest(2) q] rest(1) ready_flags [OF write_identity [OF s'(1)]]
      by (simp add: ready_session_def finished_def)
    ultimately show ?thesis
      using s' filter_number [OF rest(2), of n] Some by (auto simp: finished_def)
  qed
qed

lemma queue_of_sel: "qs_entries (queue_of s) = map (\<lambda>t. (tk_cmd_number t, tk_sc t, tk_flags t = SCSITAP_TASK_RECEIVED)) (ss_queue s)"
    "qs_next (queue_of s) = ss_next_cmdnumber s"
  by (simp_all add: queue_of_def)

lemma queue_specI: "qs_entries q = qs_entries q' \<Longrightarrow> qs_next q = qs_next q' \<Longrightarrow> (q :: queue_spec) = q'"
  by (cases q; cases q') simp

lemma completions_none: "ss_done s' = ss_done s \<Longrightarrow> completions s s' = []"
  by (simp add: completions_def)

lemma refine_oldest:
  assumes "ready_session s"
  shows "serve_queue sl Oldest s = Inr (s, snd (task_queue Oldest (queue_of s)))"
proof -
  have ok: "session_ok s" and rest: "ss_flags s = SCSITAP_CONNECTION_READY"
    using assms by (simp_all add: ready_session_def)
  let ?sub = "\<lambda>t. tk_flags t = SCSITAP_TASK_SUBMITTED"
  have live: "?sub t \<longleftrightarrow> tk_flags t \<noteq> SCSITAP_TASK_RECEIVED" if "t \<in> set (ss_queue s)" for t
    using session_okD(3) [OF ok] that by (auto simp: live_flags_def c_consts)
  then have same: "find (\<lambda>t. tk_flags t \<noteq> SCSITAP_TASK_RECEIVED) (ss_queue s) = find ?sub (ss_queue s)"
    by (intro find_cong) auto
  have spec: "find (\<lambda>(n, sc, claimed). \<not> claimed) (qs_entries (queue_of s))
      = map_option (\<lambda>t. (tk_cmd_number t, tk_sc t, tk_flags t = SCSITAP_TASK_RECEIVED)) (find ?sub (ss_queue s))"
    unfolding queue_of_sel find_of_map same [symmetric] by (simp add: comp_def)
  have len: "31 \<le> length (replicate 31 0 :: bytes)" by simp
  show ?thesis
  proof (cases "find ?sub (ss_queue s)")
    case None
    then show ?thesis
      using rest lock_unlock [OF ok] spec
      by (simp add: ctl_read_def ctl_read_locked_def SCSITAP_UHEADER_SIZE_def completions_none)
  next
    case (Some t)
    then have t: "t \<in> set (ss_queue s)" "tk_flags t = SCSITAP_TASK_SUBMITTED" by (auto dest: find_SomeD)
    let ?c = "ss_cmnds s (tk_sc t)"
    have "length (sc_cmnd ?c) = MAX_COMMAND_SIZE" using session_okD(6) [OF ok t(1)] by (simp add: wf_cmnd_def)
    from task_to_user_ok [OF this len] have rd: "ctl_read True 0 31 (replicate 31 0) s
        = Inr (Some (s, patch 0 (task_header ?c t (tk_type t)) (replicate 31 0), 31))"
      using Some rest lock_unlock [OF ok] by (simp add: ctl_read_def ctl_read_locked_def SCSITAP_UHEADER_SIZE_def)
    have "segment 2 4 (patch 0 (task_header ?c t (tk_type t)) (replicate 31 0)) = le32_bytes (tk_cmd_number t)"
      by (simp add: task_header_def patch_def segment_def le32_bytes_def numeral_eq_Suc)
    with rd spec Some t show ?thesis by (simp add: le32_le32_bytes completions_none c_consts)
  qed
qed

interpretation session_queue: functional_refinement "serve_queue sl" task_queue queue_of "\<lambda>s. ready_session s \<and> slab_ok sl" request_ok for sl
proof
  fix s r assume inv: "ready_session s \<and> slab_ok sl" and ok: "request_ok s r"
  then have inv': "ready_session s" "slab_ok sl" by simp_all
  show "\<exists>s'. serve_queue sl r s = Inr (s', snd (task_queue r (queue_of s))) \<and> queue_of s' = fst (task_queue r (queue_of s))
      \<and> ready_session s' \<and> slab_ok sl"
  proof (cases r)
    case (Submit a sc c dn)
    then obtain s' t where "scsitap_queuecommand (Some a) sc dn (upd_cmnd sc (\<lambda>_. c) s) = Inr (s', 0)" "ready_session s'"
        "ss_done s' = ss_done s" "ss_queue s' = ss_queue s @ [t]" "tk_cmd_number t = ss_next_cmdnumber s" "tk_sc t = sc"
        "tk_flags t = SCSITAP_TASK_SUBMITTED" "ss_next_cmdnumber s' = ss_next_cmdnumber s + 1"
      using refine_submit [OF inv'(1), of a sc c dn] ok by blast
    with Submit inv' show ?thesis
      by (auto simp: outcome_of_def completions_none queue_of_sel c_consts intro!: queue_specI)
  next
    case Oldest
    with refine_oldest [OF inv'(1)] inv' show ?thesis by simp
  next
    case (Claim n)
    obtain s' where "ioctl_receive (ucast n) s = Inr (s', if n \<in> tk_cmd_number ` set (ss_queue s) then SUCCESS else 0)" "ready_session s'"
        "ss_done s' = ss_done s" "ss_next_cmdnumber s' = ss_next_cmdnumber s"
        "ss_queue s' = map (\<lambda>t. if tk_cmd_number t = n then t\<lparr>tk_flags := SCSITAP_TASK_RECEIVED\<rparr> else t) (ss_queue s)"
      using refine_claim [OF inv'(1), of n] by blast
    with Claim inv' show ?thesis
      by (auto simp: outcome_of_def completions_none queue_of_sel image_image intro!: queue_specI)
  next
    case (Answer n st p)
    obtain s' where "ctl_write sl (6 + length p) (answer n st p) s = Inr (s', to_int (6 + length p))" "ready_session s'"
        "ss_next_cmdnumber s' = ss_next_cmdnumber s" "ss_queue s' = filter (\<lambda>t. tk_cmd_number t \<noteq> n) (ss_queue s)"
        "completions s s' = map (\<lambda>t. (tk_sc t, result_of_status st)) (filter (\<lambda>t. tk_cmd_number t = n) (ss_queue s))"
      using refine_answer [OF inv', of n st p] ok Answer by blast
    with Answer inv' show ?thesis
      by (auto simp: outcome_of_def queue_of_sel filter_map comp_def intro!: queue_specI)
  next
    case (Give_up sc)
    obtain s' where "scsitap_eh_abort sl sc s = Inr (s', SUCCESS)" "ready_session s'" "ss_done s' = ss_done s"
        "ss_queue s' = filter (\<lambda>t. tk_sc t \<noteq> sc) (ss_queue s)" "ss_next_cmdnumber s' = ss_next_cmdnumber s"
      using refine_abort [OF inv', of sc] by blast
    with Give_up inv' show ?thesis
      by (auto simp: outcome_of_def completions_none queue_of_sel filter_map comp_def intro!: queue_specI)
  next
    case Give_up_all
    obtain s' where "scsitap_eh_host_reset sl s = Inr (s', SUCCESS)" "ready_session s'" "ss_done s' = ss_done s"
        "ss_queue s' = []" "ss_next_cmdnumber s' = ss_next_cmdnumber s"
      using refine_reset [OF inv'] by blast
    with Give_up_all inv' show ?thesis
      by (auto simp: outcome_of_def completions_none queue_of_sel intro!: queue_specI)
  qed
qed

text \<open>
  C10.  A ready session refines a queue of numbered commands.  For any sequence of submissions,
  requests for the oldest unclaimed command, claims, answers, aborts and resets, each as its caller
  guarantees it, the handlers return what the specification returns, finish the commands it finishes,
  each with the result it says and in its order, and leave the queue it leaves.
\<close>

theorem session_refines_queue:
  assumes "ready_session s" and "slab_ok sl" and "acceptable (serve_queue sl) request_ok rs s"
  shows "\<exists>s'. run_outputs (serve_queue sl) rs s = Inr (s', snd (spec_outputs task_queue rs (queue_of s)))
    \<and> queue_of s' = fst (spec_outputs task_queue rs (queue_of s)) \<and> ready_session s'"
  using session_queue.run_refines [of s sl rs] assms by blast

theorem session_refines_queue_witness:
  "\<exists>s'. run_outputs (serve_queue (demo_slab (\<lambda>f. f))) [Submit 7 5 (demo_cmnd None) 3, Oldest, Claim 2, Answer 2 0 []] (demo_session 1 None)
     = Inr (s', [(0, None, []), (31, Some 2, []), (SUCCESS, None, []), (6, None, [(5, 0)])]) \<and> qs_entries (queue_of s') = []"
proof -
  let ?rs = "[Submit 7 5 (demo_cmnd None) 3, Oldest, Claim 2, Answer 2 0 []]" and ?s = "demo_session 1 None"
  have wf: "wf_cmnd (demo_cmnd None)" by (simp add: wf_cmnd_def demo_cmnd_def cmnd_data_def c_consts)
  have "ready_session ?s"
    using demo_session_idle(1) by (simp add: ready_session_def session_ok_def numbers_inv_def c_consts) (simp add: demo_session_def)
  moreover have "request_ok ?s (hd ?rs)" using wf by (simp add: demo_session_def demo_cmnd_def)
  then have "acceptable (serve_queue (demo_slab (\<lambda>f. f))) request_ok ?rs ?s" by (auto split: sum.splits)
  moreover have "queue_of ?s = \<lparr>qs_entries = [], qs_next = 2\<rparr>" by (simp add: queue_of_def) (simp add: demo_session_def)
  ultimately show ?thesis
    using session_refines_queue [of ?s "demo_slab (\<lambda>f. f)" ?rs] demo_slab_ok by (auto simp: result_of_status_def)
qed

end
