(* ===== verification/Traffic.thy ===== *)
theory Traffic
  imports System Task_Queue
begin

text \<open>
  The system under traffic: commands arrive and are withdrawn while the target works.  Whatever the
  order of arrivals, withdrawals and turns of the target's loop, what the mid layer sees is a queue in
  front of a block device.
\<close>

section \<open>The specification\<close>

text \<open>
  \<open>Arrive\<close> is a command the mid layer queues, with the slot the allocator gives it; \<open>Withdraw\<close>
  an abort; \<open>Host_reset\<close> the reset of the host; \<open>Turn\<close> a turn of the target's loop.  What an event returns are the commands it
  finished, each with its result and data.
\<close>

datatype traffic =
    Arrive nat nat scsi_cmnd nat
  | Withdraw nat
  | Host_reset
  | Turn

record service =
  sv_waiting :: "(nat \<times> block_request) list"
  sv_disks :: "u8 \<Rightarrow> bytes"

type_synonym answers = "(nat \<times> u32 \<times> bytes) list"

fun block_service :: "traffic \<Rightarrow> service \<Rightarrow> service \<times> answers" where
  "block_service (Arrive a sc c dn) q =
     (q\<lparr>sv_waiting := sv_waiting q @ [(sc, ucast (sc_device_lun c), sc_cmnd c, cmnd_data c)]\<rparr>, [])"
| "block_service (Withdraw sc) q = (q\<lparr>sv_waiting := filter (\<lambda>w. fst w \<noteq> sc) (sv_waiting q)\<rparr>, [])"
| "block_service Host_reset q = (q\<lparr>sv_waiting := []\<rparr>, [])"
| "block_service Turn q = (case sv_waiting q of
       [] \<Rightarrow> (q, [])
     | (sc, r) # ws \<Rightarrow> (case block_device r (sv_disks q) of (disks, x) \<Rightarrow>
         (\<lparr>sv_waiting = ws, sv_disks = disks\<rparr>, [(sc, as_reply x)])))"

section \<open>The system\<close>

text \<open>The mid layer calls a handler of the session at \<open>p\<close>, between two turns of the loop.\<close>

definition on_session :: "nat \<Rightarrow> (scsitap_session \<Rightarrow> (scsitap_session \<times> int) res) \<Rightarrow> server \<Rightarrow> server res" where
  "on_session p h v = and_then (at_session p h (cl_sessions (sv_client v))) (\<lambda>(D, r).
     Inr (v\<lparr>sv_client := (sv_client v)\<lparr>cl_sessions := D\<rparr>\<rparr>))"

fun traffic_step :: "slab \<Rightarrow> string \<Rightarrow> nat \<Rightarrow> traffic \<Rightarrow> server \<Rightarrow> server res" where
  "traffic_step sl stamp p (Arrive a sc c dn) v = on_session p (\<lambda>s. scsitap_queuecommand (Some a) sc dn (upd_cmnd sc (\<lambda>_. c) s)) v"
| "traffic_step sl stamp p (Withdraw sc) v = on_session p (scsitap_eh_abort sl sc) v"
| "traffic_step sl stamp p Host_reset v = on_session p (scsitap_eh_host_reset sl) v"
| "traffic_step sl stamp p Turn v = and_then (server_step sl False stamp v) (\<lambda>r. Inr (case r of None \<Rightarrow> v | Some v' \<Rightarrow> v'))"

definition session_of :: "nat \<Rightarrow> server \<Rightarrow> scsitap_session" where
  "session_of p v = the (session_at (cl_sessions (sv_client v)) p)"

definition replies :: "scsitap_session \<Rightarrow> scsitap_session \<Rightarrow> answers" where
  "replies s s' = map (\<lambda>(f, sc). (sc, reply s s' sc)) (drop (length (ss_done s)) (ss_done s'))"

definition serve_traffic :: "slab \<Rightarrow> string \<Rightarrow> nat \<Rightarrow> traffic \<Rightarrow> server \<Rightarrow> (server \<times> answers) res" where
  "serve_traffic sl stamp p e v = and_then (traffic_step sl stamp p e v) (\<lambda>v'. Inr (v', replies (session_of p v) (session_of p v')))"

definition service_of :: "nat \<Rightarrow> server \<Rightarrow> service" where
  "service_of p v = \<lparr>sv_waiting = map (\<lambda>t. (tk_sc t, request_of (session_of p v) t)) (ss_queue (session_of p v)),
     sv_disks = lun_image (engine_at 6 v)\<rparr>"

text \<open>What arrives is a command of the specification to a disk of the target, in a command block that is not queued, and finds a free slot.\<close>

fun traffic_ok :: "nat \<Rightarrow> server \<Rightarrow> traffic \<Rightarrow> bool" where
  "traffic_ok p v (Arrive a sc c dn) \<longleftrightarrow> request_ok (session_of p v) (Submit a sc c dn) \<and> block_command v (sc_device_lun c) c"
| "traffic_ok p v e \<longleftrightarrow> True"

definition at_work :: "nat \<Rightarrow> server \<Rightarrow> bool" where
  "at_work p v \<longleftrightarrow> server_ok v p (session_of p v)
     \<and> (\<forall>t\<in>set (ss_queue (session_of p v)). tk_flags t = SCSITAP_TASK_SUBMITTED
          \<and> block_command v (tk_lun t) (ss_cmnds (session_of p v) (tk_sc t)))"

section \<open>The refinement\<close>

lemma session_of_ok: "server_ok v p s \<Longrightarrow> session_of p v = s"
  by (simp add: server_ok_def serving_def session_of_def)

lemma server_ready: "server_ok v p s \<Longrightarrow> ready_session s"
  by (simp add: server_ok_def serving_def ready_session_def)

text \<open>A handler on the session leaves the target alone: its task, its files and its units.\<close>

definition same_target :: "server \<Rightarrow> server \<Rightarrow> bool" where
  "same_target v v' \<longleftrightarrow> cl_task (sv_client v') = cl_task (sv_client v) \<and> (\<forall>n. engine_at n v' = engine_at n v)"

lemma on_session_ok:
  assumes "server_ok v p s" and "h s = Inr (s', r)" and "ready_session s'" and "same_identity s s'"
  shows "\<exists>v'. on_session p h v = Inr v' \<and> server_ok v' p s' \<and> same_target v v'"
proof -
  let ?v = "v\<lparr>sv_client := (sv_client v)\<lparr>cl_sessions := put_session s' (cl_sessions (sv_client v))\<rparr>\<rparr>"
  have k: "serving (sv_client v) p s" using assms(1) by (simp add: server_ok_def)
  have run: "on_session p h v = Inr ?v" using k assms(2) by (simp add: on_session_def at_session_def serving_def)
  have same: "same_target v ?v" by (simp add: same_target_def engine_at_def)
  have "serving (sv_client ?v) p s'" using serving_put [OF k _ assms(4)] assms(3) by (simp add: ready_session_def)
  moreover have "disk_target (engine_at 6 ?v)" using same assms(1) unfolding same_target_def server_ok_def by metis
  ultimately have "server_ok ?v p s'" using assms(1,3) by (simp add: server_ok_def ready_session_def)
  then show ?thesis using run same by blast
qed

lemma same_target_engine:
  assumes "same_target v v'"
  shows "lun_image (engine_at n v') = lun_image (engine_at n v)" and "unit_of (engine_at n v') = unit_of (engine_at n v)"
    and "cl_task (sv_client v') = cl_task (sv_client v)"
  using assms by (simp_all only: same_target_def)

lemma block_command_cong:
  "unit_of (engine_at 6 v') (ucast lun) = None \<longleftrightarrow> unit_of (engine_at 6 v) (ucast lun) = None \<Longrightarrow> block_command v' lun c = block_command v lun c"
  by (simp add: block_command_defs)

lemma block_command_linked [simp]:
  "block_command v lun (c\<lparr>sc_scsi_done := dn, sc_result := r, sc_SCp_ptr := a\<rparr>) = block_command v lun c"
  by (simp add: block_command_defs whole_cdb_def)

lemma idle_sleeps:
  assumes "server_ok v p s" and "ss_queue s = []"
  shows "server_step sl False stamp v = Inr None"
  using assms
  by (simp add: server_ok_def serving_def server_step_def get_scsi_task_def client_read_def scsitap_ctl_read_def ctl_read_def c_consts)

lemma serve_arrival:
  assumes "at_work p v" and "traffic_ok p v (Arrive a sc c dn)" and "s = session_of p v"
  shows "\<exists>v'. serve_traffic sl stamp p (Arrive a sc c dn) v = Inr (v', [])
    \<and> service_of p v' = fst (block_service (Arrive a sc c dn) (service_of p v)) \<and> at_work p v'"
proof -
  have ok: "server_ok v p s" using assms(1,3) by (simp add: at_work_def)
  have req: "request_ok s (Submit a sc c dn)" "block_command v (sc_device_lun c) c" using assms(2,3) by simp_all
  let ?h = "\<lambda>s. scsitap_queuecommand (Some a) sc dn (upd_cmnd sc (\<lambda>_. c) s)"
  obtain s' t where s': "?h s = Inr (s', 0)" "ready_session s'" "ss_done s' = ss_done s" "ss_queue s' = ss_queue s @ [t]"
      "tk_sc t = sc" "tk_flags t = SCSITAP_TASK_SUBMITTED" "tk_lun t = sc_device_lun c"
      "ss_cmnds s' = (ss_cmnds s)(sc := c\<lparr>sc_scsi_done := Some dn, sc_result := 0, sc_SCp_ptr := Some a\<rparr>)"
    using refine_submit [OF server_ready [OF ok] req(1)] by blast
  have "same_identity s s'" using queuecommand_identity [OF s'(1)] by simp
  from on_session_ok [where h = ?h, OF ok s'(1,2) this]
  obtain v' where v': "on_session p ?h v = Inr v'" "server_ok v' p s'" "lun_image (engine_at 6 v') = lun_image (engine_at 6 v)"
      "unit_of (engine_at 6 v') = unit_of (engine_at 6 v)" using same_target_engine by blast
  have old: "ss_cmnds s' (tk_sc u) = ss_cmnds s (tk_sc u)" if "u \<in> set (ss_queue s)" for u
    using s'(8) req(1) that by auto
  have "block_command v' lun = block_command v lun" for lun using v'(4) block_command_cong [of v' lun v] by (simp add: fun_eq_iff)
  then have "at_work p v'"
    using assms(1,3) v'(2) s'(4-8) old req(2) by (auto simp: at_work_def session_of_ok [OF v'(2)])
  moreover have "service_of p v' = fst (block_service (Arrive a sc c dn) (service_of p v))"
    using assms(3) s'(4,5,7,8) old v'(3) by (simp add: service_of_def session_of_ok [OF v'(2)] request_of_def)
  ultimately show ?thesis
    using v'(1) s'(3) assms(3) by (intro exI [of _ v']) (simp add: serve_traffic_def session_of_ok [OF v'(2)] replies_def)
qed

lemma serve_withdrawal:
  assumes "at_work p v" and "slab_ok sl" and "s = session_of p v"
  shows "\<exists>v'. serve_traffic sl stamp p (Withdraw sc) v = Inr (v', [])
    \<and> service_of p v' = fst (block_service (Withdraw sc) (service_of p v)) \<and> at_work p v'"
proof -
  have ok: "server_ok v p s" using assms(1,3) by (simp add: at_work_def)
  obtain s' where s': "scsitap_eh_abort sl sc s = Inr (s', SUCCESS)" "ready_session s'" "ss_done s' = ss_done s"
      "ss_queue s' = filter (\<lambda>t. tk_sc t \<noteq> sc) (ss_queue s)" "\<forall>d. d \<noteq> sc \<longrightarrow> ss_cmnds s' d = ss_cmnds s d"
    using refine_abort [OF server_ready [OF ok] assms(2)] by blast
  obtain v' where v': "on_session p (scsitap_eh_abort sl sc) v = Inr v'" "server_ok v' p s'"
      "lun_image (engine_at 6 v') = lun_image (engine_at 6 v)" "unit_of (engine_at 6 v') = unit_of (engine_at 6 v)"
    using on_session_ok [where h = "scsitap_eh_abort sl sc", OF ok s'(1,2) eh_abort_identity [OF s'(1)]] same_target_engine by blast
  have "block_command v' lun = block_command v lun" for lun using v'(4) block_command_cong [of v' lun v] by (simp add: fun_eq_iff)
  then have "at_work p v'"
    using assms(1,3) v'(2) s'(4,5) by (auto simp: at_work_def session_of_ok [OF v'(2)])
  moreover have "service_of p v' = fst (block_service (Withdraw sc) (service_of p v))"
    using assms(3) s'(4,5) v'(3) by (auto simp: service_of_def session_of_ok [OF v'(2)] request_of_def filter_map o_def)
  ultimately show ?thesis
    using v'(1) s'(3) assms(3) by (intro exI [of _ v']) (simp add: serve_traffic_def session_of_ok [OF v'(2)] replies_def)
qed

lemma serve_reset:
  assumes "at_work p v" and "slab_ok sl" and "s = session_of p v"
  shows "\<exists>v'. serve_traffic sl stamp p Host_reset v = Inr (v', [])
    \<and> service_of p v' = fst (block_service Host_reset (service_of p v)) \<and> at_work p v'"
proof -
  have ok: "server_ok v p s" using assms(1,3) by (simp add: at_work_def)
  obtain s' where s': "scsitap_eh_host_reset sl s = Inr (s', SUCCESS)" "ready_session s'" "ss_done s' = ss_done s" "ss_queue s' = []"
    using refine_reset [OF server_ready [OF ok] assms(2)] by blast
  obtain v' where v': "on_session p (scsitap_eh_host_reset sl) v = Inr v'" "server_ok v' p s'"
      "lun_image (engine_at 6 v') = lun_image (engine_at 6 v)"
    using on_session_ok [where h = "scsitap_eh_host_reset sl", OF ok s'(1,2) host_reset_identity [OF s'(1)]] same_target_engine by blast
  then show ?thesis
    using s'(3,4) assms(3)
    by (intro exI [of _ v']) (simp add: serve_traffic_def session_of_ok [OF v'(2)] replies_def service_of_def at_work_def)
qed

lemma serve_turn:
  assumes "at_work p v" and "slab_ok sl" and "s = session_of p v"
  shows "\<exists>v'. serve_traffic sl stamp p Turn v = Inr (v', snd (block_service Turn (service_of p v)))
    \<and> service_of p v' = fst (block_service Turn (service_of p v)) \<and> at_work p v'"
proof (cases "ss_queue s")
  case Nil
  have ok: "server_ok v p s" using assms(1,3) by (simp add: at_work_def)
  have "replies s s = []" by (simp add: replies_def)
  with idle_sleeps [OF ok Nil] assms(1,3) Nil show ?thesis
    by (intro exI [of _ v]) (simp add: serve_traffic_def service_of_def)
next
  case (Cons t q)
  have ok: "server_ok v p s" using assms(1,3) by (simp add: at_work_def)
  have t: "awaits s t" "block_command v (tk_lun t) (ss_cmnds s (tk_sc t))"
    using assms(1,3) Cons unfolding awaits_def by (simp_all add: at_work_def exI [of _ "[]"])
  obtain v' s' where r: "server_step sl False stamp v = Inr (Some v')" "server_ok v' p s'" "finished s t s'"
      "map ld_lun (td_luns (sv_target v')) = map ld_lun (td_luns (sv_target v))"
      "lun_image (engine_at 6 v') = fst (block_device (request_of s t) (lun_image (engine_at 6 v)))"
      "reply s s' (tk_sc t) = as_reply (snd (block_device (request_of s t) (lun_image (engine_at 6 v))))"
    using block_turn_served [OF ok t assms(2)] by blast
  have "session_ok s" using ok by (simp add: server_ok_def serving_def)
  note f = finished_first [OF r(3) this Cons]
  have same: "ss_cmnds s' (tk_sc u) = ss_cmnds s (tk_sc u)" if "u \<in> set q" for u
    using f(2,3) that by (metis imageI)
  have "unit_of (engine_at 6 v') m = None \<longleftrightarrow> unit_of (engine_at 6 v) m = None" for m
    using r(4) unit_exists [of "engine_at 6 v'" m] unit_exists [of "engine_at 6 v" m] by auto
  then have "block_command v' lun = block_command v lun" for lun using block_command_cong [of v' lun v] by (simp add: fun_eq_iff)
  then have "at_work p v'"
    using assms(1,3) r(2) f(1) same Cons by (auto simp: at_work_def session_of_ok [OF r(2)])
  moreover have "service_of p v' = fst (block_service Turn (service_of p v))"
    using assms(3) f(1) same r(5) Cons by (simp add: service_of_def session_of_ok [OF r(2)] request_of_def split_def)
  moreover have "replies s s' = [(tk_sc t, reply s s' (tk_sc t))]" using r(3) by (simp add: replies_def finished_def)
  then have "serve_traffic sl stamp p Turn v = Inr (v', snd (block_service Turn (service_of p v)))"
    using r(1,6) assms(3) Cons by (simp add: serve_traffic_def service_of_def session_of_ok [OF r(2)] split_def)
  ultimately show ?thesis by blast
qed

interpretation busy_system: functional_refinement "serve_traffic sl stamp p" block_service "service_of p"
  "\<lambda>v. at_work p v \<and> slab_ok sl" "traffic_ok p" for sl stamp p
proof
  show "\<exists>v'. serve_traffic sl stamp p e v = Inr (v', snd (block_service e (service_of p v)))
      \<and> service_of p v' = fst (block_service e (service_of p v)) \<and> at_work p v' \<and> slab_ok sl"
    if "at_work p v \<and> slab_ok sl" "traffic_ok p v e" for v e
    using serve_arrival [of p v] serve_withdrawal [of p v sl] serve_reset [of p v sl] serve_turn [of p v sl] that by (cases e) auto
qed

text \<open>
  The system under traffic is a queue in front of a block device.  For any interleaving of arrivals of
  commands to its disks (READ, WRITE, READ CAPACITY, commands without data, unknown commands),
  withdrawals of commands, resets of the host and turns of the target's loop, each event finishes the
  commands the specification finishes, with its results and its data, nothing faults or hangs, and what
  waits and what the disks hold is as the specification has it.
\<close>

lemma busy_system_is_block_service:
  assumes "at_work p v" and "slab_ok sl" and "acceptable (serve_traffic sl stamp p) (traffic_ok p) es v"
  shows "\<exists>v'. run_outputs (serve_traffic sl stamp p) es v = Inr (v', snd (spec_outputs block_service es (service_of p v)))
    \<and> service_of p v' = fst (spec_outputs block_service es (service_of p v)) \<and> at_work p v'"
  using busy_system.run_refines [of p v sl stamp es] assms by blast

lemma busy_system_example:
  "\<exists>v'. run_outputs (serve_traffic (demo_slab (\<lambda>f. f)) ''t'' 1)
       [Arrive 8 6 ((demo_transfer (demo_cdb 0x28 2 1) 512 DMA_FROM_DEVICE)\<lparr>sc_SCp_ptr := None\<rparr>) 3, Turn, Turn]
       (demo_server (demo_transfer (demo_cdb 0x2a 2 1) 512 DMA_TO_DEVICE))
     = Inr (v', [[], [(5, 0, [])], [(6, 0, replicate 512 9)]]) \<and> sv_waiting (service_of 1 v') = []"
proof -
  let ?w = "demo_transfer (demo_cdb 0x2a 2 1) 512 DMA_TO_DEVICE" and ?r = "(demo_transfer (demo_cdb 0x28 2 1) 512 DMA_FROM_DEVICE)\<lparr>sc_SCp_ptr := None\<rparr>"
  have segment_all: "segment 0 512 (replicate 512 (9 :: u8)) = replicate 512 9" by (simp add: segment_def)
  let ?v = "demo_server ?w" and ?sl = "demo_slab (\<lambda>f. f)"
  let ?es = "[Arrive 8 6 ?r 3, Turn, Turn]"
  have sv: "server_ok ?v 1 (demo_waiting ?w)" by (rule demo_server_ok) (simp_all add: demo_transfer_ok)
  note so = session_of_ok [OF sv, simplified]
  have cmds: "block_command ?v lun ?w" "block_command ?v lun ?r" if "ucast lun = (0 :: u8)" for lun
    using that demo_transfer_ok(2,3) [of "demo_cdb 0x2a 2 1" 512] demo_transfer_ok(2,3) [of "demo_cdb 0x28 2 1" 512]
    by (simp_all add: block_command_defs demo_block whole_cdb_def demo_cdb_fields demo_server_engine BUFFER_SIZE_def)
  have work: "at_work 1 ?v" using sv cmds(1) by (simp add: at_work_def so demo_task_def)
  have lun: "sc_device_lun ?r = 0" by (simp add: demo_transfer_def demo_cmnd_def)
  have "wf_cmnd ?r" using demo_transfer_ok(1) [of "demo_cdb 0x28 2 1" 512] by simp
  moreover have "ss_next_cmdnumber (demo_waiting ?w) = 2" by (simp add: demo_waiting_def demo_session_def upd_cmnd_def)
  ultimately have "traffic_ok 1 ?v (hd ?es)" using cmds(2) lun by (simp add: so demo_task_def)
  then have "acceptable (serve_traffic ?sl ''t'' 1) (traffic_ok 1) ?es ?v" by (auto split: sum.splits)
  moreover note work
  moreover have q: "service_of 1 ?v = \<lparr>sv_waiting = [(5, 0, demo_cdb 0x2a 2 1, replicate 512 9)], sv_disks = lun_image (engine_at 6 ?v)\<rparr>"
    by (simp add: service_of_def so request_of_def demo_task_def)
  have "spec_outputs block_service ?es (service_of 1 ?v)
      = (\<lparr>sv_waiting = [], sv_disks = (lun_image (engine_at 6 ?v))(0 := patch 1024 (replicate 512 9) (lun_image (engine_at 6 ?v) 0))\<rparr>,
         [[], [(5, 0, [])], [(6, 0, replicate 512 9)]])"
    unfolding q using demo_server_engine(3) [of 6 ?w] lun
    by (simp add: block_device_def demo_block demo_cdb_fields as_reply_def segment_patch_same segment_all)
  ultimately show ?thesis
    using busy_system_is_block_service [of 1 ?v ?sl "''t''" ?es] demo_slab_ok by auto
qed

end
