(* ===== verification/Calls.thy ===== *)
theory Calls
  imports Traffic
begin

text \<open>
  The target's loop, one system call at a time.  Between two calls of the target the mid layer queues
  commands, aborts them and resets the host.  What the target is doing then matters: a command that is
  withdrawn after the target has run it is answered into the void, one that is withdrawn while the
  target claims it, or fetches its data, ends the target.
\<close>

section \<open>The target between two calls\<close>

text \<open>Where the loop of \<open>main\<close> stands: the call it makes next.\<close>

datatype stage =
    Reading
  | Claiming
  | Running
  | Fetching
  | Running_out
  | Answering

record process =
  pr_server :: server
  pr_stage :: stage

definition after_claim :: "u8 \<Rightarrow> stage" where
  "after_claim dir = (if dir = chr_I then Running else if dir = chr_O then Fetching else Reading)"

text \<open>
  One call.  \<open>None\<close>: it sleeps.  \<open>receive_scsi_data\<close> is one step: the ioctl in it only sets the
  position of the target's own file.
\<close>

definition target_call :: "slab \<Rightarrow> bool \<Rightarrow> string \<Rightarrow> process \<Rightarrow> process option res" where
  "target_call sl sig stamp pr = (let v = pr_server pr in case pr_stage pr of
       Reading \<Rightarrow> and_then (read_header sig (sv_client v)) (\<lambda>r. case r of
           None \<Rightarrow> Inr None
         | Some (k, x) \<Rightarrow>
             if x < 0 then Inl (Exit 1)
             else Inr (Some \<lparr>pr_server = v\<lparr>sv_client := k\<rparr>, pr_stage = if x \<noteq> 0 then Reading else Claiming\<rparr>))
     | Claiming \<Rightarrow> and_then (claim_task sl (sv_client v)) (\<lambda>(k, x).
         if x < 0 then Inl (Exit 1)
         else Inr (Some \<lparr>pr_server = v\<lparr>sv_client := k\<rparr>, pr_stage = after_claim (ut_direction (cl_task k))\<rparr>))
     | Running \<Rightarrow> and_then (run_at stamp 6 v) (\<lambda>v'. Inr (Some \<lparr>pr_server = v', pr_stage = Answering\<rparr>))
     | Fetching \<Rightarrow> and_then (receive_scsi_data sl sig (sv_client v)) (\<lambda>r. case r of
           None \<Rightarrow> Inr None
         | Some (k, x) \<Rightarrow>
             if x < 0 then Inl (Exit 1)
             else Inr (Some \<lparr>pr_server = v\<lparr>sv_client := k\<rparr>, pr_stage = Running_out\<rparr>))
     | Running_out \<Rightarrow> and_then (run_at stamp 31 v) (\<lambda>v'.
         Inr (Some \<lparr>pr_server = v'\<lparr>sv_client := (sv_client v')\<lparr>cl_task := (cl_task (sv_client v'))\<lparr>ut_request_bufflen := 0\<rparr>\<rparr>\<rparr>,
                    pr_stage = Answering\<rparr>))
     | Answering \<Rightarrow> and_then (complete_or_exit sl v) (\<lambda>v'. Inr (Some \<lparr>pr_server = v', pr_stage = Reading\<rparr>)))"

text \<open>The calls up to the next time the loop asks for a task.\<close>

fun until_reading :: "slab \<Rightarrow> bool \<Rightarrow> string \<Rightarrow> nat \<Rightarrow> process \<Rightarrow> process option res" where
  "until_reading sl sig stamp 0 pr = Inr (Some pr)"
| "until_reading sl sig stamp (Suc n) pr =
     (if pr_stage pr = Reading then Inr (Some pr)
      else and_then (target_call sl sig stamp pr) (\<lambda>r. case r of None \<Rightarrow> Inr None | Some pr' \<Rightarrow> until_reading sl sig stamp n pr'))"

lemma complete_direction:
  assumes "complete_or_exit sl v = Inr v'"
  shows "ut_direction (cl_task (sv_client v')) = ut_direction (cl_task (sv_client v))"
  using assms
  by (auto simp: complete_or_exit_def complete_scsi_task_def client_write_def and_then_Inr_iff Let_def split: if_splits)

lemma run_direction:
  assumes "run_at stamp off v = Inr v'"
  shows "ut_direction (cl_task (sv_client v')) = ut_direction (cl_task (sv_client v))"
  using assms by (auto simp: run_at_def and_then_Inr_iff Let_def)

lemma out_is_calls:
  assumes "ut_direction (cl_task (sv_client v)) = chr_O"
  shows "serve_out sl sig stamp v = and_then (until_reading sl sig stamp 3 \<lparr>pr_server = v, pr_stage = Fetching\<rparr>) (\<lambda>r. Inr (map_option pr_server r))"
proof (cases "receive_scsi_data sl sig (sv_client v)")
  case (Inr r)
  then show ?thesis
    using assms by (cases r) (auto simp: serve_out_def target_call_def numeral_3_eq_3 and_then_assoc)
qed (use assms in \<open>simp add: serve_out_def target_call_def numeral_3_eq_3\<close>)

lemma in_is_calls:
  assumes "ut_direction (cl_task (sv_client v)) = chr_I"
  shows "and_then (serve_in sl stamp v) (serve_out sl sig stamp)
    = and_then (until_reading sl sig stamp 3 \<lparr>pr_server = v, pr_stage = Running\<rparr>) (\<lambda>r. Inr (map_option pr_server r))"
proof (cases "run_at stamp 6 v")
  case (Inr v1)
  have d: "ut_direction (cl_task (sv_client v1)) = chr_I" using run_direction [OF Inr] assms by simp
  show ?thesis
  proof (cases "complete_or_exit sl v1")
    case (Inr v2)
    have "ut_direction (cl_task (sv_client v2)) = chr_I" using complete_direction [OF Inr] d by simp
    then show ?thesis
      using assms Inr \<open>run_at stamp 6 v = Inr v1\<close> by (simp add: serve_in_def serve_out_def target_call_def numeral_3_eq_3 c_consts)
  qed (use assms Inr in \<open>simp add: serve_in_def target_call_def numeral_3_eq_3\<close>)
qed (use assms in \<open>simp add: serve_in_def target_call_def numeral_3_eq_3\<close>)

lemma served_is_calls:
  "and_then (serve_in sl stamp v) (serve_out sl sig stamp)
    = and_then (until_reading sl sig stamp 3 \<lparr>pr_server = v, pr_stage = after_claim (ut_direction (cl_task (sv_client v)))\<rparr>)
        (\<lambda>r. Inr (map_option pr_server r))"
proof -
  consider "ut_direction (cl_task (sv_client v)) = chr_I" | "ut_direction (cl_task (sv_client v)) = chr_O"
    | "ut_direction (cl_task (sv_client v)) \<noteq> chr_I" "ut_direction (cl_task (sv_client v)) \<noteq> chr_O"
    by blast
  then show ?thesis
  proof cases
    case 1
    with in_is_calls show ?thesis by (simp add: after_claim_def)
  next
    case 2
    then have "after_claim (ut_direction (cl_task (sv_client v))) = Fetching" by (simp add: after_claim_def c_consts)
    with out_is_calls [OF 2] 2 show ?thesis by (simp add: serve_in_def c_consts)
  qed (simp add: serve_in_def serve_out_def after_claim_def numeral_3_eq_3)
qed

lemma until_claiming:
  "until_reading sl sig stamp 4 \<lparr>pr_server = v, pr_stage = Claiming\<rparr> = and_then (claim_task sl (sv_client v)) (\<lambda>(k, x).
     if x < 0 then Inl (Exit 1)
     else until_reading sl sig stamp 3 \<lparr>pr_server = v\<lparr>sv_client := k\<rparr>, pr_stage = after_claim (ut_direction (cl_task k))\<rparr>)"
proof -
  have "4 = Suc 3" by simp
  then show ?thesis
    by (simp only: until_reading.simps) (cases "claim_task sl (sv_client v)", auto simp: target_call_def)
qed

lemma claim_is_calls:
  "and_then (claim_task sl (sv_client v)) (\<lambda>(k, x). if x < 0 then Inl (Exit 1)
      else and_then (serve_in sl stamp (v\<lparr>sv_client := k\<rparr>)) (serve_out sl sig stamp))
    = and_then (until_reading sl sig stamp 4 \<lparr>pr_server = v, pr_stage = Claiming\<rparr>) (\<lambda>r. Inr (map_option pr_server r))"
proof (cases "claim_task sl (sv_client v)")
  case (Inr kx)
  then show ?thesis
    by (cases kx) (simp add: served_is_calls until_claiming)
qed (simp add: until_claiming)

text \<open>
  The two views of the loop agree, the turn of the theory \<open>Server\<close> and the calls.  Undisturbed, the calls from one request for a task to the next
  do what the turn does, faults, exits and calls that sleep included.
\<close>

lemma turn_is_its_calls:
  "server_step sl sig stamp v = and_then (target_call sl sig stamp \<lparr>pr_server = v, pr_stage = Reading\<rparr>) (\<lambda>r. case r of
       None \<Rightarrow> Inr None
     | Some pr \<Rightarrow> and_then (until_reading sl sig stamp 4 pr) (\<lambda>r. Inr (map_option pr_server r)))"
proof (cases "read_header sig (sv_client v)")
  case (Inr r)
  show ?thesis
  proof (cases r)
    case (Some kx)
    obtain k x where kx: "kx = (k, x)" by (cases kx)
    show ?thesis
    proof (cases "x = 0")
      case True
      have "and_then (claim_task sl k) (\<lambda>(k, x). if x < 0 then Inl (Exit 1) else if x \<noteq> 0 then Inr (Some (v\<lparr>sv_client := k\<rparr>)) else f k)
          = and_then (claim_task sl k) (\<lambda>(k, x). if x < 0 then Inl (Exit 1) else f k)" for f
        by (auto simp: claim_task_def and_then_assoc split_def intro!: arg_cong [where f = "and_then _"])
      note skip = this [of "\<lambda>k. and_then (serve_in sl stamp (v\<lparr>sv_client := k\<rparr>)) (serve_out sl sig stamp)"]
      have upd: "v\<lparr>sv_client := k, sv_client := k'\<rparr> = v\<lparr>sv_client := k'\<rparr>" "sv_client (v\<lparr>sv_client := k'\<rparr>) = k'" for k' by simp_all
      from claim_is_calls [of sl "v\<lparr>sv_client := k\<rparr>" stamp sig]
      have calls: "and_then (claim_task sl k) (\<lambda>(k, x). if x < 0 then Inl (Exit 1)
          else and_then (serve_in sl stamp (v\<lparr>sv_client := k\<rparr>)) (serve_out sl sig stamp))
        = and_then (until_reading sl sig stamp 4 \<lparr>pr_server = v\<lparr>sv_client := k\<rparr>, pr_stage = Claiming\<rparr>) (\<lambda>r. Inr (map_option pr_server r))"
        by (simp only: upd)
      from Inr Some kx True skip [unfolded calls] show ?thesis
        by (simp add: server_step_def get_as_calls and_then_assoc split_def target_call_def [of _ _ _ "\<lparr>pr_server = v, pr_stage = Reading\<rparr>"])
    qed (use Inr Some kx in \<open>simp add: server_step_def get_as_calls target_call_def eval_nat_numeral\<close>)
  qed (use Inr in \<open>simp add: server_step_def get_as_calls target_call_def\<close>)
qed (simp add: server_step_def get_as_calls target_call_def)

end
