(* ===== verification/Interleaving.thy ===== *)
theory Interleaving
  imports Calls
begin

text \<open>
  Interleavings at the level of system calls: commands arrive, are aborted and the host is reset between
  any two calls of the target.  What the mid layer sees is a block device that works on one command
  at a time, and the one thing that must not happen is the withdrawal of a command whose data the
  target has still to fetch.
\<close>

section \<open>The specification\<close>

text \<open>
  The job of the device is the command it has taken from the queue, how far it has come with it, and
  whether the mid layer still waits for it.  A command that is withdrawn is worked on all the same,
  and its answer goes nowhere.  Beside this the specification keeps what decides which requests can be
  made: the disks there are, the slot of the slab each command has been given last, and how many
  commands have been numbered.
\<close>

datatype progress =
    Found
  | Taken
  | Fetched
  | Ran "u32 \<times> bytes"

type_synonym job = "progress \<times> (nat \<times> block_request) \<times> bool"

record workshop =
  ws_waiting :: "(nat \<times> block_request) list"
  ws_job :: "job option"
  ws_disks :: "u8 \<Rightarrow> bytes"
  ws_units :: "u8 \<Rightarrow> bool"
  ws_slots :: "nat \<Rightarrow> nat option"
  ws_number :: nat

definition data_in :: "block_request \<Rightarrow> bool" where
  "data_in r \<longleftrightarrow> \<not> sends (fst (snd r))"

definition give_up_job :: "(nat \<Rightarrow> bool) \<Rightarrow> job option \<Rightarrow> job option" where
  "give_up_job P j = map_option (\<lambda>(g, w, l). (g, w, l \<and> \<not> P (fst w))) j"

definition run_job :: "nat \<times> block_request \<Rightarrow> bool \<Rightarrow> workshop \<Rightarrow> workshop" where
  "run_job w l q = (case block_device (snd w) (ws_disks q) of (disks, x) \<Rightarrow>
     q\<lparr>ws_disks := disks, ws_job := Some (Ran (as_reply x), w, l)\<rparr>)"

definition enter_command :: "nat \<Rightarrow> nat \<Rightarrow> block_request \<Rightarrow> workshop \<Rightarrow> workshop" where
  "enter_command a sc r q = q\<lparr>ws_waiting := ws_waiting q @ [(sc, r)], ws_slots := (ws_slots q)(sc \<mapsto> a), ws_number := Suc (ws_number q)\<rparr>"

fun work :: "traffic \<Rightarrow> workshop \<Rightarrow> workshop \<times> answers" where
  "work (Arrive a sc c dn) q = (enter_command a sc (ucast (sc_device_lun c), sc_cmnd c, cmnd_data c) q, [])"
| "work (Withdraw sc) q =
     (q\<lparr>ws_waiting := filter (\<lambda>w. fst w \<noteq> sc) (ws_waiting q), ws_job := give_up_job (\<lambda>d. d = sc) (ws_job q)\<rparr>, [])"
| "work Host_reset q = (q\<lparr>ws_waiting := [], ws_job := give_up_job (\<lambda>_. True) (ws_job q)\<rparr>, [])"
| "work Turn q = (case ws_job q of
       None \<Rightarrow> (case ws_waiting q of [] \<Rightarrow> (q, []) | w # ws \<Rightarrow> (q\<lparr>ws_waiting := ws, ws_job := Some (Found, w, True)\<rparr>, []))
     | Some (Found, w, l) \<Rightarrow> (q\<lparr>ws_job := Some (Taken, w, l)\<rparr>, [])
     | Some (Taken, w, l) \<Rightarrow> (if data_in (snd w) then run_job w l q else q\<lparr>ws_job := Some (Fetched, w, l)\<rparr>, [])
     | Some (Fetched, w, l) \<Rightarrow> (run_job w l q, [])
     | Some (Ran x, w, l) \<Rightarrow> (q\<lparr>ws_job := None\<rparr>, if l then [(fst w, x)] else []))"

section \<open>What can be asked\<close>

text \<open>
  The commands the mid layer waits for; and the one that must not be withdrawn: the device has taken
  it, it sends data, and the data has not been fetched.
\<close>

definition outstanding :: "workshop \<Rightarrow> nat list" where
  "outstanding q = (case ws_job q of Some (g, w, True) \<Rightarrow> [fst w] | _ \<Rightarrow> []) @ map fst (ws_waiting q)"

definition at_risk :: "workshop \<Rightarrow> nat option" where
  "at_risk q = (case ws_job q of
       Some (g, w, True) \<Rightarrow> if (g = Found \<or> g = Taken) \<and> \<not> data_in (snd w) then Some (fst w) else None
     | _ \<Rightarrow> None)"

text \<open>
  A new command is one for a disk, in a command block of its own, with a slot of its own, before the
  numbers run out.
\<close>

fun work_ok :: "workshop \<Rightarrow> traffic \<Rightarrow> bool" where
  "work_ok q (Arrive a sc c dn) \<longleftrightarrow> sc \<notin> set (outstanding q) \<and> Some a \<notin> ws_slots q ` set (outstanding q)
     \<and> wf_cmnd c \<and> sc_SCp_ptr c = None \<and> disk_command (ws_units q) (sc_device_lun c) c \<and> ws_number q < 2 ^ 32 - 1"
| "work_ok q (Withdraw sc) \<longleftrightarrow> at_risk q \<noteq> Some sc"
| "work_ok q Host_reset \<longleftrightarrow> at_risk q = None"
| "work_ok q Turn \<longleftrightarrow> True"

section \<open>The system\<close>

text \<open>An event of the mid layer, or one call of the target.\<close>

definition process_step :: "slab \<Rightarrow> string \<Rightarrow> nat \<Rightarrow> traffic \<Rightarrow> process \<Rightarrow> process res" where
  "process_step sl stamp p e pr = (case e of
       Turn \<Rightarrow> and_then (target_call sl False stamp pr) (\<lambda>r. Inr (case r of None \<Rightarrow> pr | Some pr' \<Rightarrow> pr'))
     | _ \<Rightarrow> and_then (traffic_step sl stamp p e (pr_server pr)) (\<lambda>v. Inr (pr\<lparr>pr_server := v\<rparr>)))"

definition serve_calls :: "slab \<Rightarrow> string \<Rightarrow> nat \<Rightarrow> traffic \<Rightarrow> process \<Rightarrow> (process \<times> answers) res" where
  "serve_calls sl stamp p e pr = and_then (process_step sl stamp p e pr) (\<lambda>pr'.
     Inr (pr', replies (session_of p (pr_server pr)) (session_of p (pr_server pr'))))"

section \<open>The simulation relation\<close>

definition job_stage :: "progress \<Rightarrow> block_request \<Rightarrow> stage" where
  "job_stage g r = (case g of
       Found \<Rightarrow> Claiming
     | Taken \<Rightarrow> if data_in r then Running else Fetching
     | Fetched \<Rightarrow> Running_out
     | Ran x \<Rightarrow> Answering)"

text \<open>What the target's copy of the task has to do with the command it works on.\<close>

definition carries :: "server \<Rightarrow> progress \<Rightarrow> block_request \<Rightarrow> bool" where
  "carries v g r \<longleftrightarrow> (case r of (lun, cdb, d) \<Rightarrow> let u = cl_task (sv_client v); n = data_len cdb in
     block_op (cdb ! 0) \<and> (sends cdb \<longrightarrow> 0 < n) \<and> n + 31 < BUFFER_SIZE \<and> length d = n \<and> unit_of (engine_at 6 v) lun \<noteq> None
     \<and> (case g of
          Ran (res, x) \<Rightarrow> unat (ut_request_bufflen u) = (if data_in r then n else 0)
            \<and> (\<exists>st. (st = 0 \<or> st = (2 :: u8)) \<and> ut_status u = uint st \<and> res = ucast st
                \<and> x = (if data_in r \<and> st = 0 then segment 6 n (ut_request_buffer u) else []))
        | _ \<Rightarrow> ucast (ut_lun u) = lun \<and> ut_cdb u ! 0 = cdb ! 0 \<and> transfer_len (ut_cdb u) = transfer_len cdb
            \<and> (cdb ! 0 \<in> {0x28, 0x2a, 0xaa, 0x0a} \<longrightarrow> transfer_lba (ut_cdb u) = transfer_lba cdb)
            \<and> unat (ut_request_bufflen u) = n \<and> ut_direction u = (if data_in r then chr_I else chr_O)
            \<and> (g = Fetched \<longrightarrow> \<not> data_in r \<and> segment 31 n (ut_request_buffer u) = d)))"

text \<open>Where the command is in the queue: at its head, or nowhere once it has been withdrawn.\<close>

definition in_flight :: "server \<Rightarrow> scsitap_session \<Rightarrow> job \<Rightarrow> scsitap_task list \<Rightarrow> bool" where
  "in_flight v s j rest \<longleftrightarrow> (case j of (g, (sc, r), l) \<Rightarrow> let n = ut_cmd_number (cl_task (sv_client v)) in
     n < ss_next_cmdnumber s \<and> (g = Found \<or> g = Taken \<longrightarrow> \<not> data_in r \<longrightarrow> l)
     \<and> (if l then \<exists>t. ss_queue s = t # rest \<and> tk_cmd_number t = n \<and> tk_sc t = sc \<and> request_of s t = r
            \<and> block_command v (tk_lun t) (ss_cmnds s sc)
            \<and> tk_flags t = (if g = Found then SCSITAP_TASK_SUBMITTED else SCSITAP_TASK_RECEIVED)
        else ss_queue s = rest \<and> task_of_cmd s n = None))"

definition unclaimed :: "server \<Rightarrow> scsitap_session \<Rightarrow> scsitap_task list \<Rightarrow> bool" where
  "unclaimed v s ts \<longleftrightarrow> (\<forall>t\<in>set ts. tk_flags t = SCSITAP_TASK_SUBMITTED \<and> block_command v (tk_lun t) (ss_cmnds s (tk_sc t)))"

fun job_ok :: "server \<Rightarrow> scsitap_session \<Rightarrow> stage \<Rightarrow> scsitap_task list \<Rightarrow> job option \<Rightarrow> bool" where
  "job_ok v s st rest None \<longleftrightarrow> st = Reading \<and> ss_queue s = rest"
| "job_ok v s st rest (Some (g, w, l)) \<longleftrightarrow> st = job_stage g (snd w) \<and> in_flight v s (g, w, l) rest \<and> carries v g (snd w)"

text \<open>The disks, the slots in the queue and the next number are those the specification knows.\<close>

definition tracked :: "server \<Rightarrow> scsitap_session \<Rightarrow> workshop \<Rightarrow> bool" where
  "tracked v s q \<longleftrightarrow> ws_units q = has_disk v \<and> ss_next_cmdnumber s = of_nat (ws_number q) \<and> ws_number q < 2 ^ 32
     \<and> (\<forall>t\<in>set (ss_queue s). ws_slots q (tk_sc t) = Some (tk_addr t))"

definition works_with :: "nat \<Rightarrow> process \<Rightarrow> workshop \<Rightarrow> server \<Rightarrow> stage \<Rightarrow> scsitap_session \<Rightarrow> scsitap_task list \<Rightarrow> bool" where
  "works_with p pr q v st s rest \<longleftrightarrow> pr = \<lparr>pr_server = v, pr_stage = st\<rparr> \<and> s = session_of p v \<and> server_ok v p s
     \<and> ws_disks q = lun_image (engine_at 6 v) \<and> ws_waiting q = map (\<lambda>t. (tk_sc t, request_of s t)) rest
     \<and> unclaimed v s rest \<and> job_ok v s st rest (ws_job q) \<and> tracked v s q"

definition works_as :: "nat \<Rightarrow> process \<Rightarrow> workshop \<Rightarrow> bool" where
  "works_as p pr q \<longleftrightarrow> (\<exists>v st s rest. works_with p pr q v st s rest)"

section \<open>Events of the mid layer\<close>

lemma works_withD:
  assumes "works_with p pr q v st s rest"
  shows "pr = \<lparr>pr_server = v, pr_stage = st\<rparr>" and "s = session_of p v" and "server_ok v p s"
    and "ws_disks q = lun_image (engine_at 6 v)" and "ws_waiting q = map (\<lambda>t. (tk_sc t, request_of s t)) rest"
    and "unclaimed v s rest" and "job_ok v s st rest (ws_job q)" and "tracked v s q"
  using assms unfolding works_with_def by blast+

text \<open>Handlers that take commands from the queue keep track of the others.\<close>

lemma tracked_fewer:
  assumes "tracked v s q" and "has_disk v' = has_disk v" and "ss_next_cmdnumber s' = ss_next_cmdnumber s"
    and "(\<lambda>t. (tk_sc t, tk_addr t)) ` set (ss_queue s') \<subseteq> (\<lambda>t. (tk_sc t, tk_addr t)) ` set (ss_queue s)"
    and "ws_units q' = ws_units q" and "ws_slots q' = ws_slots q" and "ws_number q' = ws_number q"
  shows "tracked v' s' q'"
  using assms by (fastforce simp: tracked_def)

lemma outstanding_pending:
  assumes "works_with p pr q v st s rest"
  shows "outstanding q = pending s"
proof -
  note w = works_withD [OF assms]
  show ?thesis
  proof (cases "ws_job q")
    case (Some j)
    obtain g sc r l where j: "j = (g, (sc, r), l)" by (metis prod_cases4 prod.collapse)
    with w(5,7) Some show ?thesis
      by (cases l) (auto simp: outstanding_def in_flight_def Let_def)
  qed (use w(5,7) in \<open>simp add: outstanding_def\<close>)
qed

lemma job_queue:
  assumes "job_ok v s st rest j"
  shows "ss_queue s = rest \<or> (\<exists>t. ss_queue s = t # rest)"
proof (cases j)
  case (Some x)
  then show ?thesis using assms by (cases x) (auto simp: in_flight_def Let_def split: prod.splits if_splits)
qed (use assms in simp)

text \<open>A handler that leaves the target alone, and the commands that stay.\<close>

lemma carries_same: "same_target v v' \<Longrightarrow> carries v' g r = carries v g r"
  using same_target_engine [of v v'] by (simp add: carries_def Let_def split: prod.split)

lemma block_command_same: "same_target v v' \<Longrightarrow> block_command v' lun c = block_command v lun c"
  using same_target_engine(2) [of v v'] by (simp add: block_command_defs)

lemma has_disk_same: "same_target v v' \<Longrightarrow> has_disk v' = has_disk v"
  using same_target_engine(2) [of v v'] by (simp add: has_disk_def fun_eq_iff)

lemma unclaimed_keep:
  assumes "unclaimed v s ts" and "same_target v v'" and "\<And>t. t \<in> set ts \<Longrightarrow> ss_cmnds s' (tk_sc t) = ss_cmnds s (tk_sc t)"
  shows "unclaimed v' s' ts" and "map (\<lambda>t. (tk_sc t, request_of s' t)) ts = map (\<lambda>t. (tk_sc t, request_of s t)) ts"
  using assms by (auto simp: unclaimed_def block_command_same request_of_def)

lemma arrival_simulated:
  assumes "works_as p pr q" and "work_ok q (Arrive a sc c dn)"
  shows "\<exists>pr'. serve_calls sl stamp p (Arrive a sc c dn) pr = Inr (pr', snd (work (Arrive a sc c dn) q)) \<and> works_as p pr' (fst (work (Arrive a sc c dn) q))"
proof -
  obtain v st s rest where ww: "works_with p pr q v st s rest" using assms(1) by (auto simp: works_as_def)
  note w = works_withD [OF ww]
  have num: "ss_next_cmdnumber s = of_nat (ws_number q)" "ws_number q < 2 ^ 32 - 1" and units: "ws_units q = has_disk v"
      and slots: "\<And>t. t \<in> set (ss_queue s) \<Longrightarrow> ws_slots q (tk_sc t) = Some (tk_addr t)"
    using w(8) assms(2) by (simp_all add: tracked_def)
  have "a \<notin> tk_addr ` set (ss_queue s)"
    using assms(2) slots by (force simp: outstanding_pending [OF ww])
  moreover have "unat (- 1 :: u32) = 2 ^ 32 - 1" by (simp add: unsigned_minus_1_eq_mask mask_eq_exp_minus_1)
  then have "(of_nat (ws_number q) :: u32) \<noteq> - 1" using num(2) by (simp add: word_unat_eq_iff unat_of_nat)
  ultimately have req: "request_ok s (Submit a sc c dn)" "block_command v (sc_device_lun c) c"
    using assms(2) num(1) units by (simp_all add: outstanding_pending [OF ww] block_command_def)
  let ?h = "\<lambda>s. scsitap_queuecommand (Some a) sc dn (upd_cmnd sc (\<lambda>_. c) s)"
  obtain s' t where s': "?h s = Inr (s', 0)" "ready_session s'" "ss_done s' = ss_done s" "ss_queue s' = ss_queue s @ [t]"
      "tk_sc t = sc" "tk_flags t = SCSITAP_TASK_SUBMITTED" "tk_lun t = sc_device_lun c" "tk_cmd_number t = ss_next_cmdnumber s"
      "ss_next_cmdnumber s' = ss_next_cmdnumber s + 1"
      "ss_cmnds s' = (ss_cmnds s)(sc := c\<lparr>sc_scsi_done := Some dn, sc_result := 0, sc_SCp_ptr := Some a\<rparr>)" "tk_addr t = a"
    using refine_submit [OF server_ready [OF w(3)] req(1)] by blast
  have "same_identity s s'" using queuecommand_identity [OF s'(1)] by simp
  from on_session_ok [where h = ?h, OF w(3) s'(1,2) this]
  obtain v' where v': "on_session p ?h v = Inr v'" "server_ok v' p s'" "same_target v v'" by blast
  have old: "ss_cmnds s' (tk_sc u) = ss_cmnds s (tk_sc u)" if "u \<in> set (ss_queue s)" for u
    using s'(10) req(1) that by auto
  have in_queue: "set rest \<subseteq> set (ss_queue s)"
    using job_queue [OF w(7)] by auto
  have keep: "unclaimed v' s' rest" "map (\<lambda>t. (tk_sc t, request_of s' t)) rest = map (\<lambda>t. (tk_sc t, request_of s t)) rest"
    using unclaimed_keep [OF w(6) v'(3), of s'] old in_queue by blast+
  have new: "unclaimed v' s' [t]" "request_of s' t = (ucast (sc_device_lun c), sc_cmnd c, cmnd_data c)"
    using s'(5-7,10) req(2) by (simp_all add: unclaimed_def block_command_same [OF v'(3)] request_of_def)
  have job: "job_ok v' s' st (rest @ [t]) (ws_job q)"
  proof (cases "ws_job q")
    case (Some j)
    obtain g sc' r l where j: "j = (g, (sc', r), l)" by (metis prod_cases4 prod.collapse)
    have less: "n < ss_next_cmdnumber s'" if "n < ss_next_cmdnumber s" for n
      using that req(1) s'(9) word_less_succ(2) [of "ss_next_cmdnumber s"] by (simp add: order_less_imp_le)
    from w(7) Some j have f: "in_flight v s (g, (sc', r), l) rest" by simp
    have "in_flight v' s' (g, (sc', r), l) (rest @ [t])"
    proof (cases l)
      case True
      with f obtain u where u: "ss_queue s = u # rest" "tk_cmd_number u = ut_cmd_number (cl_task (sv_client v))" "tk_sc u = sc'" "request_of s u = r"
          "block_command v (tk_lun u) (ss_cmnds s sc')" "tk_flags u = (if g = Found then SCSITAP_TASK_SUBMITTED else SCSITAP_TASK_RECEIVED)"
          "ut_cmd_number (cl_task (sv_client v)) < ss_next_cmdnumber s"
        by (auto simp: in_flight_def Let_def)
      have "ss_cmnds s' sc' = ss_cmnds s sc'" using old [of u] u(1,3) by simp
      moreover from this have "request_of s' u = request_of s u" using u(3) by (simp add: request_of_def)
      ultimately show ?thesis
        using True u less s'(4) by (simp add: in_flight_def Let_def same_target_engine(3) [OF v'(3)] block_command_same [OF v'(3)])
    next
      case False
      with f less s'(4,8) show ?thesis
        by (auto simp: in_flight_def Let_def same_target_engine(3) [OF v'(3)] task_of_cmd_def find_append_new)
    qed
    with w(7) Some j show ?thesis by (simp add: carries_same [OF v'(3)])
  qed (use w(7) s'(4) in simp)
  have other: "tk_sc u \<noteq> sc" if "u \<in> set (ss_queue s)" for u using req(1) that by force
  have "tracked v' s' (enter_command a sc (ucast (sc_device_lun c), sc_cmnd c, cmnd_data c) q)"
    using num units slots other s'(4,5,9,11) has_disk_same [OF v'(3)]
    by (auto simp: tracked_def enter_command_def)
  then have "works_with p \<lparr>pr_server = v', pr_stage = st\<rparr> (fst (work (Arrive a sc c dn) q)) v' st s' (rest @ [t])"
    using w(4,5) keep new job s'(5) v'(2) session_of_ok [OF v'(2)] same_target_engine(1) [OF v'(3)]
    by (simp add: works_with_def unclaimed_def enter_command_def)
  then have "works_as p \<lparr>pr_server = v', pr_stage = st\<rparr> (fst (work (Arrive a sc c dn) q))" unfolding works_as_def by blast
  then show ?thesis
    using v'(1) s'(3) w(1,2) by (simp add: serve_calls_def process_step_def session_of_ok [OF v'(2)] replies_def)
qed


lemma task_of_filtered:
  assumes "task_of_cmd s n = None" and "ss_queue s' = filter P (ss_queue s)"
  shows "task_of_cmd s' n = None"
  using assms by (auto simp: task_of_cmd_def find_None_iff)

lemma head_number:
  assumes "numbers_inv s" and "ss_queue s = t # rest" and "ss_queue s' = filter P rest"
  shows "task_of_cmd s' (tk_cmd_number t) = None"
  using assms by (auto simp: task_of_cmd_def find_None_iff numbers_inv_def)

lemma job_filtered:
  assumes "job_ok v s st rest j" and "same_target v v'" and "numbers_inv s"
    and q: "ss_queue s' = filter (\<lambda>t. \<not> P (tk_sc t)) (ss_queue s)" and nxt: "ss_next_cmdnumber s' = ss_next_cmdnumber s"
    and c: "\<And>d. \<not> P d \<Longrightarrow> ss_cmnds s' d = ss_cmnds s d"
    and safe: "\<And>g w. j = Some (g, w, True) \<Longrightarrow> P (fst w) \<Longrightarrow> g = Found \<or> g = Taken \<Longrightarrow> data_in (snd w)"
  shows "job_ok v' s' st (filter (\<lambda>t. \<not> P (tk_sc t)) rest) (give_up_job P j)"
proof (cases j)
  case None
  with assms(1) q show ?thesis by (simp add: give_up_job_def)
next
  case (Some x)
  obtain g sc r l where x: "x = (g, (sc, r), l)" by (metis prod_cases4 prod.collapse)
  have f: "st = job_stage g r" "in_flight v s (g, (sc, r), l) rest" "carries v g r" using assms(1) Some x by simp_all
  have tsk: "cl_task (sv_client v') = cl_task (sv_client v)" by (rule same_target_engine(3) [OF assms(2)])
  have "in_flight v' s' (g, (sc, r), l \<and> \<not> P sc) (filter (\<lambda>t. \<not> P (tk_sc t)) rest)"
  proof (cases l)
    case True
    with f(2) obtain u where u: "ss_queue s = u # rest" "tk_cmd_number u = ut_cmd_number (cl_task (sv_client v))" "tk_sc u = sc" "request_of s u = r"
        "block_command v (tk_lun u) (ss_cmnds s sc)" "tk_flags u = (if g = Found then SCSITAP_TASK_SUBMITTED else SCSITAP_TASK_RECEIVED)"
        "ut_cmd_number (cl_task (sv_client v)) < ss_next_cmdnumber s"
      by (auto simp: in_flight_def Let_def)
    show ?thesis
    proof (cases "P sc")
      case False
      then have "request_of s' u = r" using c u(3,4) by (simp add: request_of_def)
      with False True u q c nxt f(2) show ?thesis
        by (simp add: in_flight_def Let_def tsk block_command_same [OF assms(2)])
    next
      case P: True
      have "ss_queue s' = filter (\<lambda>t. \<not> P (tk_sc t)) rest" using q u(1,3) P by simp
      with head_number [OF assms(3) u(1) this] u(2,7) nxt P safe [of g "(sc, r)"] Some x True show ?thesis
        by (auto simp: in_flight_def Let_def tsk)
    qed
  next
    case False
    with f(2) have "ss_queue s = rest" "task_of_cmd s (ut_cmd_number (cl_task (sv_client v))) = None"
        "ut_cmd_number (cl_task (sv_client v)) < ss_next_cmdnumber s" "g = Found \<or> g = Taken \<longrightarrow> data_in r"
      by (auto simp: in_flight_def Let_def)
    with False q nxt task_of_filtered [OF _ q] show ?thesis by (simp add: in_flight_def Let_def tsk)
  qed
  with f(1,3) Some x show ?thesis by (simp add: give_up_job_def carries_same [OF assms(2)])
qed

lemma withdrawal_simulated:
  assumes "works_as p pr q" and "slab_ok sl" and "work_ok q (Withdraw sc)"
  shows "\<exists>pr'. serve_calls sl stamp p (Withdraw sc) pr = Inr (pr', snd (work (Withdraw sc) q)) \<and> works_as p pr' (fst (work (Withdraw sc) q))"
proof -
  obtain v st s rest where ww: "works_with p pr q v st s rest" using assms(1) by (auto simp: works_as_def)
  note w = works_withD [OF ww]
  obtain s' where s': "scsitap_eh_abort sl sc s = Inr (s', SUCCESS)" "ready_session s'" "ss_done s' = ss_done s"
      "ss_queue s' = filter (\<lambda>t. \<not> tk_sc t = sc) (ss_queue s)" "ss_next_cmdnumber s' = ss_next_cmdnumber s"
      "\<And>d. \<not> d = sc \<Longrightarrow> ss_cmnds s' d = ss_cmnds s d"
    using refine_abort [OF server_ready [OF w(3)] assms(2), of sc] by auto
  obtain v' where v': "on_session p (scsitap_eh_abort sl sc) v = Inr v'" "server_ok v' p s'" "same_target v v'"
    using on_session_ok [where h = "scsitap_eh_abort sl sc", OF w(3) s'(1,2) eh_abort_identity [OF s'(1)]] by blast
  let ?rest = "filter (\<lambda>t. \<not> tk_sc t = sc) rest"
  have keep: "unclaimed v' s' ?rest" "map (\<lambda>t. (tk_sc t, request_of s' t)) ?rest = map (\<lambda>t. (tk_sc t, request_of s t)) ?rest"
    using unclaimed_keep [OF _ v'(3), of s ?rest s'] w(6) s'(6) by (auto simp: unclaimed_def)
  have "numbers_inv s" using w(3) by (simp add: server_ok_def)
  have safe: "data_in (snd w)" if "ws_job q = Some (g, w, True)" "fst w = sc" "g = Found \<or> g = Taken" for g w
    using assms(3) that by (auto simp: at_risk_def split: if_splits)
  have "job_ok v' s' st ?rest (give_up_job (\<lambda>d. d = sc) (ws_job q))"
    by (rule job_filtered [OF w(7) v'(3) \<open>numbers_inv s\<close> s'(4,5,6)]) (use safe in auto)
  moreover have "tracked v' s' (fst (work (Withdraw sc) q))"
    by (rule tracked_fewer [OF w(8) has_disk_same [OF v'(3)] s'(5)]) (auto simp: s'(4))
  ultimately have "works_with p \<lparr>pr_server = v', pr_stage = st\<rparr> (fst (work (Withdraw sc) q)) v' st s' ?rest"
    using w(4,5) keep v'(2) session_of_ok [OF v'(2)] same_target_engine(1) [OF v'(3)]
    by (simp add: works_with_def filter_map comp_def)
  then have "works_as p \<lparr>pr_server = v', pr_stage = st\<rparr> (fst (work (Withdraw sc) q))" unfolding works_as_def by blast
  then show ?thesis
    using v'(1) s'(3) w(1,2) by (simp add: serve_calls_def process_step_def session_of_ok [OF v'(2)] replies_def)
qed

lemma reset_simulated:
  assumes "works_as p pr q" and "slab_ok sl" and "work_ok q Host_reset"
  shows "\<exists>pr'. serve_calls sl stamp p Host_reset pr = Inr (pr', snd (work Host_reset q)) \<and> works_as p pr' (fst (work Host_reset q))"
proof -
  obtain v st s rest where ww: "works_with p pr q v st s rest" using assms(1) by (auto simp: works_as_def)
  note w = works_withD [OF ww]
  obtain s' where s': "scsitap_eh_host_reset sl s = Inr (s', SUCCESS)" "ready_session s'" "ss_done s' = ss_done s"
      "ss_queue s' = []" "ss_next_cmdnumber s' = ss_next_cmdnumber s"
    using refine_reset [OF server_ready [OF w(3)] assms(2)] by blast
  obtain v' where v': "on_session p (scsitap_eh_host_reset sl) v = Inr v'" "server_ok v' p s'" "same_target v v'"
    using on_session_ok [where h = "scsitap_eh_host_reset sl", OF w(3) s'(1,2) host_reset_identity [OF s'(1)]] by blast
  have n: "numbers_inv s" using w(3) by (simp add: server_ok_def)
  have safe: "data_in (snd w)" if "ws_job q = Some (g, w, True)" "g = Found \<or> g = Taken" for g w
    using assms(3) that by (auto simp: at_risk_def split: if_splits)
  have "job_ok v' s' st (filter (\<lambda>t. \<not> True) rest) (give_up_job (\<lambda>_. True) (ws_job q))"
    by (rule job_filtered [OF w(7) v'(3) n]) (use s'(4,5) safe in auto)
  moreover have "tracked v' s' (fst (work Host_reset q))"
    by (rule tracked_fewer [OF w(8) has_disk_same [OF v'(3)] s'(5)]) (simp_all add: s'(4))
  ultimately have "works_with p \<lparr>pr_server = v', pr_stage = st\<rparr> (fst (work Host_reset q)) v' st s' []"
    using w(4) v'(2) session_of_ok [OF v'(2)] same_target_engine(1) [OF v'(3)]
    by (simp add: works_with_def unclaimed_def)
  then have "works_as p \<lparr>pr_server = v', pr_stage = st\<rparr> (fst (work Host_reset q))" unfolding works_as_def by blast
  then show ?thesis
    using v'(1) s'(3) w(1,2) by (simp add: serve_calls_def process_step_def session_of_ok [OF v'(2)] replies_def)
qed


section \<open>Calls of the target\<close>

text \<open>A call that changes the client only; the session may have other flags.\<close>

lemma client_engine:
  assumes "ut_request_buffer (cl_task k) = ut_request_buffer (cl_task (sv_client v))"
  shows "engine_at n (v\<lparr>sv_client := k\<rparr>) = engine_at n v"
  using assms by (simp add: engine_at_def)

lemma units_cong:
  assumes "\<And>m. unit_of (engine_at 6 v') m = None \<longleftrightarrow> unit_of (engine_at 6 v) m = None"
  shows "block_command v' = block_command v" and "unclaimed v' = unclaimed v" and "has_disk v' = has_disk v"
proof -
  show "has_disk v' = has_disk v" using assms by (simp add: has_disk_def fun_eq_iff)
  show b: "block_command v' = block_command v" using assms by (intro ext block_command_cong) simp
  show "unclaimed v' = unclaimed v" unfolding unclaimed_def b ..
qed

lemma works_asI:
  assumes "server_ok v p s" and "ws_disks q = lun_image (engine_at 6 v)" and "ws_waiting q = map (\<lambda>t. (tk_sc t, request_of s t)) rest"
    and "unclaimed v s rest" and "job_ok v s st rest (ws_job q)" and "tracked v s q"
  shows "works_as p \<lparr>pr_server = v, pr_stage = st\<rparr> q"
  using assms session_of_ok [OF assms(1)] unfolding works_as_def works_with_def by blast

lemma no_replies: "ss_done s' = ss_done s \<Longrightarrow> replies s s' = []"
  unfolding replies_def by simp

lemma sleep_simulated:
  assumes "works_with p pr q v st s []" and "ws_job q = None"
  shows "serve_calls sl stamp p Turn pr = Inr (pr, [])"
proof -
  note w = works_withD [OF assms(1)]
  have "st = Reading" "ss_queue s = []" using w(7) assms(2) by simp_all
  then have "target_call sl False stamp pr = Inr None"
    using w(1,3) by (simp add: target_call_def read_header_def client_read_def scsitap_ctl_read_def ctl_read_def server_ok_def serving_def SCSITAP_UHEADER_SIZE_def)
  then show ?thesis by (simp add: serve_calls_def process_step_def replies_def)
qed

lemma call_simulated:
  assumes "target_call sl False stamp pr = Inr (Some \<lparr>pr_server = v', pr_stage = st'\<rparr>)" and "server_ok v' p s'"
    and "session_of p (pr_server pr) = s" and "replies s s' = xs" and "works_as p \<lparr>pr_server = v', pr_stage = st'\<rparr> q'"
  shows "\<exists>pr'. serve_calls sl stamp p Turn pr = Inr (pr', xs) \<and> works_as p pr' q'"
  using assms by (simp add: serve_calls_def process_step_def session_of_ok)

lemma find_simulated:
  assumes "works_with p pr q v st s (t # rest)" and "ws_job q = None"
  shows "\<exists>pr'. serve_calls sl stamp p Turn pr = Inr (pr', [])
    \<and> works_as p pr' (q\<lparr>ws_waiting := map (\<lambda>t. (tk_sc t, request_of s t)) rest, ws_job := Some (Found, (tk_sc t, request_of s t), True)\<rparr>)"
proof -
  note w = works_withD [OF assms(1)]
  have st: "st = Reading" "ss_queue s = t # rest" using w(7) assms(2) by simp_all
  let ?c = "ss_cmnds s (tk_sc t)"
  have t: "tk_flags t = SCSITAP_TASK_SUBMITTED" "block_command v (tk_lun t) ?c" using w(6) by (simp_all add: unclaimed_def)
  then have aw: "awaits s t" using st(2) unfolding awaits_def by (intro exI [of _ "[]"] exI [of _ rest]) simp
  have whole: "whole_cdb ?c" using t(2) by (simp add: block_command_defs)
  obtain k where k: "read_header False (sv_client v) = Inr (Some (k, 0))" "server_ok (v\<lparr>sv_client := k\<rparr>) p s"
    "ut_cmd_number (cl_task k) = tk_cmd_number t" "ut_lun (cl_task k) = tk_lun t"
    "ut_direction (cl_task k) = (if sc_data_direction ?c = DMA_TO_DEVICE then chr_O else chr_I)"
    "ut_request_bufflen (cl_task k) = sc_request_bufflen ?c"
    "ut_cdb (cl_task k) ! 0 = sc_cmnd ?c ! 0" "transfer_len (ut_cdb (cl_task k)) = transfer_len (sc_cmnd ?c)"
    "sc_cmnd ?c ! 0 \<in> {0x28, 0x2a, 0xaa, 0x0a} \<longrightarrow> transfer_lba (ut_cdb (cl_task k)) = transfer_lba (sc_cmnd ?c)"
    "ut_request_buffer (cl_task k) = ut_request_buffer (cl_task (sv_client v))"
    using find_task [OF w(3) aw refl whole, of False] by blast
  let ?v = "v\<lparr>sv_client := k\<rparr>"
  note eng = client_engine [OF k(10)]
  note cong = units_cong [of ?v v, unfolded eng, OF refl]
  have "session_ok s" "numbers_inv s" using w(3) by (simp_all add: server_ok_def serving_def)
  then have wf: "wf_cmnd ?c" and num: "tk_cmd_number t < ss_next_cmdnumber s"
    using session_okD(6) [of s t] st(2) by (simp_all add: numbers_inv_def)
  have "in_flight ?v s (Found, (tk_sc t, request_of s t), True) rest"
    using k(3) num st(2) t by (simp add: in_flight_def Let_def cong)
  moreover have "carries ?v Found (request_of s t)"
    using t(2) wf k(4-9) by (auto simp: carries_def request_of_def block_command_defs wf_cmnd_def data_in_def eng Let_def)
  ultimately have new: "works_as p \<lparr>pr_server = ?v, pr_stage = Claiming\<rparr>
      (q\<lparr>ws_waiting := map (\<lambda>t. (tk_sc t, request_of s t)) rest, ws_job := Some (Found, (tk_sc t, request_of s t), True)\<rparr>)"
    using w(4,6,8) by (intro works_asI [OF k(2)]) (simp_all add: eng cong job_stage_def unclaimed_def tracked_def)
  show ?thesis
    by (rule call_simulated [OF _ k(2) _ no_replies new]) (use w(1,2) st(1) k(1) in \<open>simp_all add: target_call_def\<close>)
qed


text \<open>Claiming a command that is gone changes nothing, and the target does not notice.\<close>

lemma claim_void:
  assumes "serving k p s" and "task_of_cmd s (ut_cmd_number (cl_task k)) = None"
  shows "\<exists>k'. claim_task sl k = Inr (k', 0) \<and> serving k' p s \<and> cl_task k' = cl_task k"
proof -
  have ok: "session_ok s" and ready: "ss_flags s = SCSITAP_CONNECTION_READY" using assms(1) by (auto simp: serving_def)
  have "ioctl_receive (ucast (ut_cmd_number (cl_task k))) s = Inr (s, 0)"
    using assms(2) ready lock_unlock [OF ok] by (simp add: ioctl_receive_def)
  moreover have "serving (k\<lparr>cl_sessions := put_session s (cl_sessions k)\<rparr>) p s"
    by (rule serving_put [OF assms(1) ok]) (simp add: same_identity_def)
  ultimately show ?thesis
    using assms(1) by (simp add: claim_task_def client_ioctl_def scsitap_ctl_ioctl_def at_session_def serving_def c_consts)
qed

lemma claim_session:
  assumes "in_flight v s (Found, w, l) rest" and "serving (sv_client v) p s" and "numbers_inv s"
  shows "\<exists>k s'. claim_task sl (sv_client v) = Inr (k, 0) \<and> serving k p s' \<and> numbers_inv s' \<and> cl_task k = cl_task (sv_client v)
    \<and> ss_cmnds s' = ss_cmnds s \<and> ss_done s' = ss_done s \<and> in_flight (v\<lparr>sv_client := k\<rparr>) s' (Taken, w, l) rest
    \<and> ss_next_cmdnumber s' = ss_next_cmdnumber s
    \<and> (\<lambda>t. (tk_sc t, tk_addr t)) ` set (ss_queue s') = (\<lambda>t. (tk_sc t, tk_addr t)) ` set (ss_queue s)"
proof -
  obtain sc r where w: "w = (sc, r)" by (cases w)
  have eng: "engine_at n (v\<lparr>sv_client := k\<rparr>) = engine_at n v" if "cl_task k = cl_task (sv_client v)" for k n
    using that by (simp add: engine_at_def)
  have bc: "block_command (v\<lparr>sv_client := k\<rparr>) = block_command v" if "cl_task k = cl_task (sv_client v)" for k
    by (rule units_cong(1)) (simp add: eng that)
  show ?thesis
  proof (cases l)
    case True
    with assms(1) w obtain t where t: "ss_queue s = t # rest" "tk_cmd_number t = ut_cmd_number (cl_task (sv_client v))" "tk_sc t = sc"
        "request_of s t = r" "block_command v (tk_lun t) (ss_cmnds s sc)" "ut_cmd_number (cl_task (sv_client v)) < ss_next_cmdnumber s"
      by (auto simp: in_flight_def Let_def)
    have num: "task_of_cmd s (ut_cmd_number (cl_task (sv_client v))) = Some t" using t(1,2) by (simp add: task_of_cmd_def)
    let ?s = "set_task_flags (tk_addr t) SCSITAP_TASK_RECEIVED s"
    obtain k where k: "claim_task sl (sv_client v) = Inr (k, 0)" "serving k p ?s" "cl_task k = cl_task (sv_client v)"
      using claim_ok [OF assms(2) num] by blast
    have "queue_links s" using assms(2) session_okD(2) by (simp add: serving_def)
    then have "tk_addr t \<notin> tk_addr ` set rest" using t(1) by (simp add: queue_links_def)
    then have "map (\<lambda>u. if tk_addr u = tk_addr t then u\<lparr>tk_flags := SCSITAP_TASK_RECEIVED\<rparr> else u) rest = rest"
      by (intro map_idI) (metis imageI)
    then have q: "ss_queue ?s = t\<lparr>tk_flags := SCSITAP_TASK_RECEIVED\<rparr> # rest" using t(1) by (simp add: set_task_flags_def)
    have c: "ss_cmnds ?s = ss_cmnds s" "ss_done ?s = ss_done s" by (simp_all add: set_task_flags_def)
    then have "request_of ?s (t\<lparr>tk_flags := SCSITAP_TASK_RECEIVED\<rparr>) = r" using t(4) by (simp add: request_of_def)
    then have "in_flight (v\<lparr>sv_client := k\<rparr>) ?s (Taken, w, l) rest"
      using True q t w k(3) c by (simp add: in_flight_def Let_def bc)
    moreover have "numbers_inv ?s" using assms(3) by simp
    moreover have "ss_next_cmdnumber ?s = ss_next_cmdnumber s" by (simp add: set_task_flags_def)
    ultimately show ?thesis using k c q t(1) by fastforce
  next
    case False
    with assms(1) w have "task_of_cmd s (ut_cmd_number (cl_task (sv_client v))) = None" by (auto simp: in_flight_def Let_def)
    from claim_void [OF assms(2) this] obtain k where "claim_task sl (sv_client v) = Inr (k, 0)" "serving k p s" "cl_task k = cl_task (sv_client v)"
      by blast
    moreover from this have "in_flight (v\<lparr>sv_client := k\<rparr>) s (Taken, w, l) rest"
      using assms(1) False w by (simp add: in_flight_def Let_def)
    ultimately show ?thesis using assms(3) by blast
  qed
qed

lemma claim_simulated:
  assumes "works_with p pr q v st s rest" and "ws_job q = Some (Found, w, l)"
  shows "\<exists>pr'. serve_calls sl stamp p Turn pr = Inr (pr', []) \<and> works_as p pr' (q\<lparr>ws_job := Some (Taken, w, l)\<rparr>)"
proof -
  note x = works_withD [OF assms(1)]
  have st: "st = Claiming" and f: "in_flight v s (Found, w, l) rest" and c: "carries v Found (snd w)"
    using x(7) assms(2) by (simp_all add: job_stage_def)
  have sv: "serving (sv_client v) p s" "numbers_inv s" using x(3) by (simp_all add: server_ok_def)
  obtain k s' where k: "claim_task sl (sv_client v) = Inr (k, 0)" "serving k p s'" "numbers_inv s'" "cl_task k = cl_task (sv_client v)"
      "ss_cmnds s' = ss_cmnds s" "ss_done s' = ss_done s" "in_flight (v\<lparr>sv_client := k\<rparr>) s' (Taken, w, l) rest"
      "ss_next_cmdnumber s' = ss_next_cmdnumber s"
      "(\<lambda>t. (tk_sc t, tk_addr t)) ` set (ss_queue s') = (\<lambda>t. (tk_sc t, tk_addr t)) ` set (ss_queue s)"
    using claim_session [OF f sv] by blast
  let ?v = "v\<lparr>sv_client := k\<rparr>"
  have same: "same_target v ?v" using k(4) by (simp add: same_target_def engine_at_def)
  have ok: "server_ok ?v p s'"
    by (rule server_ok_client [OF x(3) k(2,3)]) (use x(3) k(4) in \<open>simp_all add: server_ok_def\<close>)
  have dir: "after_claim (ut_direction (cl_task k)) = job_stage Taken (snd w)"
    using c k(4) by (auto simp: carries_def Let_def after_claim_def job_stage_def c_consts split: prod.splits)
  have c': "carries ?v Taken (snd w)"
    using c unfolding carries_same [OF same] by (simp add: carries_def Let_def split: prod.splits)
  have u: "unclaimed ?v s' rest" "map (\<lambda>t. (tk_sc t, request_of s' t)) rest = map (\<lambda>t. (tk_sc t, request_of s t)) rest"
    using unclaimed_keep [OF x(6) same, of s'] k(5) by simp_all
  have new: "works_as p \<lparr>pr_server = ?v, pr_stage = job_stage Taken (snd w)\<rparr> (q\<lparr>ws_job := Some (Taken, w, l)\<rparr>)"
  proof (rule works_asI [OF ok])
    show "tracked ?v s' (q\<lparr>ws_job := Some (Taken, w, l)\<rparr>)"
      by (rule tracked_fewer [OF x(8) has_disk_same [OF same] k(8)]) (simp_all add: k(9))
  qed (use x(4,5) u k(7) c' same_target_engine(1) [OF same] in simp_all)
  show ?thesis
    by (rule call_simulated [OF _ ok _ no_replies new]) (use x(1,2) st k(1,6) dir in \<open>simp_all add: target_call_def\<close>)
qed


lemma fetch_simulated:
  assumes "works_with p pr q v st s rest" and "ws_job q = Some (Taken, w, l)" and "\<not> data_in (snd w)"
  shows "\<exists>pr'. serve_calls sl stamp p Turn pr = Inr (pr', []) \<and> works_as p pr' (q\<lparr>ws_job := Some (Fetched, w, l)\<rparr>)"
proof -
  note x = works_withD [OF assms(1)]
  obtain sc lun cdb d where w: "w = (sc, lun, cdb, d)" by (metis prod.collapse)
  let ?u = "cl_task (sv_client v)"
  have st: "st = Fetching" and f: "in_flight v s (Taken, w, l) rest" and c: "carries v Taken (lun, cdb, d)"
    using x(7) assms(2,3) w by (simp_all add: job_stage_def)
  have sv: "serving (sv_client v) p s" "numbers_inv s" "length (ut_cdb ?u) = 16" "length (ut_request_buffer ?u) = BUFFER_SIZE"
    using x(3) by (simp_all add: server_ok_def)
  have l using f assms(3) w by (auto simp: in_flight_def Let_def)
  then obtain t where t: "ss_queue s = t # rest" "tk_cmd_number t = ut_cmd_number ?u" "tk_sc t = sc" "request_of s t = (lun, cdb, d)"
      "block_command v (tk_lun t) (ss_cmnds s sc)" "tk_flags t = SCSITAP_TASK_RECEIVED"
    using f w by (auto simp: in_flight_def Let_def)
  let ?c = "ss_cmnds s (tk_sc t)"
  have num: "task_of_cmd s (ut_cmd_number ?u) = Some t" using t(1,2) by (simp add: task_of_cmd_def)
  have n: "unat (sc_request_bufflen ?c) = data_len cdb" "cmnd_data ?c = d"
    using t(3-5) by (simp_all add: block_command_defs request_of_def)
  have u: "unat (ut_request_bufflen ?u) = data_len cdb" "ut_direction ?u = chr_O" "0 < data_len cdb" "data_len cdb + 31 < BUFFER_SIZE"
    using c assms(3) w by (simp_all add: carries_def Let_def data_in_def)
  have wf: "wf_cmnd ?c" using sv(1) session_okD(6) [of s t] t(1) by (simp add: serving_def)
  then have hd: "length (task_header ?c t chr_D) = 31" and dl: "length d = data_len cdb"
    using length_task_header n by (auto simp: wf_cmnd_def)
  let ?b = "patch 0 (task_header ?c t chr_D @ cmnd_data ?c) (ut_request_buffer ?u)"
  obtain k where k: "receive_scsi_data sl False (sv_client v) = Inr (Some (k, 0))" "serving k p s" "cl_task k = ?u\<lparr>ut_request_buffer := ?b\<rparr>"
    using receive_data_ok [OF sv(1) num t(6) refl u(2), of sl False] u n sv(4) by (auto simp: word_unat_eq_iff BUFFER_SIZE_def)
  let ?v = "v\<lparr>sv_client := k\<rparr>"
  have lb: "length ?b = BUFFER_SIZE" using sv(4) hd dl n(2) u(4) by simp
  have ok: "server_ok ?v p s" by (rule server_ok_client [OF x(3) k(2) sv(2)]) (use k(3) sv(3) lb in simp_all)
  have eng: "lun_image (engine_at 6 ?v) = lun_image (engine_at 6 v)" "unit_of (engine_at 6 ?v) = unit_of (engine_at 6 v)"
    using engine_cong(2,3) [of "engine_at 6 ?v" "engine_at 6 v"] by simp_all
  note cong = units_cong [of ?v v, unfolded eng, OF refl]
  have "segment 31 (data_len cdb) ?b = d" using hd dl n(2) sv(4) u(4) by (simp add: patch_def segment_def)
  then have c': "carries ?v Fetched (lun, cdb, d)"
    using c k(3) eng assms(3) w by (simp add: carries_def Let_def)
  have "in_flight ?v s (Fetched, w, l) rest" using f w k(3) by (auto simp: in_flight_def Let_def cong)
  then have new: "works_as p \<lparr>pr_server = ?v, pr_stage = Running_out\<rparr> (q\<lparr>ws_job := Some (Fetched, w, l)\<rparr>)"
    using x(4-6,8) c' w by (intro works_asI [OF ok]) (simp_all add: eng cong job_stage_def tracked_def)
  show ?thesis
    by (rule call_simulated [OF _ ok _ no_replies new]) (use x(1,2) st k(1) in \<open>simp_all add: target_call_def\<close>)
qed

text \<open>Running the command, with the data buffer where the command's direction puts it.\<close>

lemma run_carried:
  assumes "server_ok v p s" and "carries v g (lun, cdb, d)" and "\<forall>x. g \<noteq> Ran x" and "off = (if sends cdb then 31 else 6)"
    and "sends cdb \<Longrightarrow> g = Fetched"
    and "block_device (lun, cdb, d) (lun_image (engine_at 6 v)) = (disks, st, x)"
  shows "\<exists>v' b. run_at stamp off v = Inr v' \<and> server_ok v' p s \<and> lun_image (engine_at 6 v') = disks
    \<and> (\<forall>m. unit_of (engine_at 6 v') m = None \<longleftrightarrow> unit_of (engine_at 6 v) m = None)
    \<and> cl_task (sv_client v') = (cl_task (sv_client v))\<lparr>ut_request_buffer := b, ut_status := uint st\<rparr>
    \<and> (st = 0 \<or> st = 2) \<and> x = (if \<not> sends cdb \<and> st = 0 then segment 6 (data_len cdb) b else [])"
proof -
  let ?u = "cl_task (sv_client v)" and ?n = "data_len cdb" and ?e = "engine_at off v"
  have c: "block_op (cdb ! 0)" "sends cdb \<longrightarrow> 0 < ?n" "?n + 31 < BUFFER_SIZE" "length d = ?n" "unit_of (engine_at 6 v) lun \<noteq> None"
      "ucast (ut_lun ?u) = lun" "ut_cdb ?u ! 0 = cdb ! 0" "transfer_len (ut_cdb ?u) = transfer_len cdb"
      "cdb ! 0 \<in> {0x28, 0x2a, 0xaa, 0x0a} \<longrightarrow> transfer_lba (ut_cdb ?u) = transfer_lba cdb"
      "unat (ut_request_bufflen ?u) = ?n" "g = Fetched \<longrightarrow> segment 31 ?n (ut_request_buffer ?u) = d"
    using assms(2,3) by (auto simp: carries_def Let_def split: progress.splits)
  note sb = same_block [OF c(7,8)]
  have v: "length (ut_request_buffer ?u) = BUFFER_SIZE" "disk_target (engine_at 6 v)" using assms(1) by (simp_all add: server_ok_def)
  have off: "off \<le> 31" using assms(4) by simp
  have e: "disk_target ?e" "unit_of ?e = unit_of (engine_at 6 v)" "lun_image ?e = lun_image (engine_at 6 v)"
    using v(2) engine_cong [of ?e "engine_at 6 v"] by simp_all
  have big: "?n < length (en_data ?e)" "65536 \<le> length (en_data ?e)" using v(1) c(3) off by (simp_all add: BUFFER_SIZE_def)
  have ok: "block_request_ok ?e (lun, ut_cdb ?u, en_data ?e)" using c(1,5,7,8) big e(2) transfer_le_data [of cdb] by (simp add: block_request_ok_def)
  obtain e' st' x' where r: "serve_block stamp (lun, ut_cdb ?u, en_data ?e) ?e = Inr (e', st', x')" "disk_target e'"
      "block_device (lun, ut_cdb ?u, en_data ?e) (lun_image ?e) = (lun_image e', st', x')" "\<forall>m. unit_of e' m \<noteq> None \<longleftrightarrow> unit_of ?e m \<noteq> None"
    using serve_block_refines [OF e(1) ok, of stamp] by blast
  have "segment 0 (transfer_len cdb) (en_data ?e) = segment 0 (transfer_len cdb) d" if "sends cdb"
    using c(4,11) assms(4,5) that v(1) data_len_moves [of cdb] by (simp add: segment_def)
  then have "block_device (lun, ut_cdb ?u, en_data ?e) (lun_image ?e) = block_device (lun, cdb, d) (lun_image ?e)"
    by (intro block_device_cong [OF c(7) _ c(8)]) (use c(9) in simp_all)
  then have same: "lun_image e' = disks" "st' = st" "x' = x" using r(3) assms(6) e(3) by simp_all
  have upd: "?e\<lparr>en_data := drop off (ut_request_buffer ?u)\<rparr> = ?e" by (simp add: engine_at_def)
  have run: "run_scsi_command stamp lun (ut_cdb ?u) (int ?n) ?e = Inr (e', st)"
      "x = (if st = 0 \<and> \<not> sends cdb then segment 0 ?n (en_data e') else [])"
    using r(1) same sb upd by (auto simp: serve_block_def and_then_Inr_iff simp del: engine.update_convs)
  have "request_fits ?e lun (ut_cdb ?u) (int ?n)" using c(5,8) big e(2) transfer_le_data [of cdb] by (simp add: request_fits_def)
  from disk_request [OF e(1) this, of stamp] run(1) have len: "length (en_data e') = length (en_data ?e)" by auto
  have n: "sint (ut_request_bufflen ?u) = int ?n" using sint_small [of "ut_request_bufflen ?u"] c(3,10) by (simp add: BUFFER_SIZE_def)
  let ?b = "take off (ut_request_buffer ?u) @ en_data e'"
  obtain v' where v': "run_at stamp off v = Inr v'" "server_ok v' p s" "sv_fs v' = en_fs e'" "sv_target v' = en_target e'"
      "cl_task (sv_client v') = ?u\<lparr>ut_request_buffer := ?b, ut_status := uint st\<rparr>"
    using run_turn [OF assms(1) refl off, of stamp e' st] run(1) c(6) n r(2) len by auto
  have eng: "lun_image (engine_at 6 v') = lun_image e'" "unit_of (engine_at 6 v') = unit_of e'"
    using engine_cong(2,3) [of "engine_at 6 v'" e'] v'(3,4) by simp_all
  have units: "\<forall>m. unit_of (engine_at 6 v') m = None \<longleftrightarrow> unit_of (engine_at 6 v) m = None" using r(4) unfolding eng(2) e(2) by blast
  have st: "st = 0 \<or> st = 2" by (rule block_status [OF assms(6)])
  have "segment 6 ?n ?b = segment 0 ?n (en_data e')" if "\<not> sends cdb"
    using assms(4) that v(1) by (simp add: segment_def BUFFER_SIZE_def)
  then have x: "x = (if \<not> sends cdb \<and> st = 0 then segment 6 ?n ?b else [])" using run(2) by simp
  have img: "lun_image (engine_at 6 v') = disks" using eng(1) same(1) by simp
  show ?thesis by (intro exI [of _ v'] exI [of _ ?b] conjI) (fact v'(1,2,5) img units st x)+
qed

lemma carries_ranI:
  assumes "block_op (cdb ! 0)" and "sends cdb \<longrightarrow> 0 < data_len cdb" and "data_len cdb + 31 < BUFFER_SIZE" and "length d = data_len cdb"
    and "unit_of (engine_at 6 v) lun \<noteq> None"
    and "unat (ut_request_bufflen (cl_task (sv_client v))) = (if data_in (lun, cdb, d) then data_len cdb else 0)"
    and "st = 0 \<or> st = (2 :: u8)" and "ut_status (cl_task (sv_client v)) = uint st" and "fst y = ucast st"
    and "snd y = (if data_in (lun, cdb, d) \<and> st = 0 then segment 6 (data_len cdb) (ut_request_buffer (cl_task (sv_client v))) else [])"
  shows "carries v (Ran y) (lun, cdb, d)"
proof (cases y)
  case (Pair res x)
  show ?thesis
    unfolding Pair carries_def Let_def prod.case progress.case
    by (intro conjI exI [of _ st]) (use assms Pair in simp_all)
qed

lemma run_simulated:
  assumes "works_with p pr q v st s rest" and "ws_job q = Some (g, w, l)" and "g = Taken \<and> data_in (snd w) \<or> g = Fetched"
  shows "\<exists>pr'. serve_calls sl stamp p Turn pr = Inr (pr', []) \<and> works_as p pr' (run_job w l q)"
proof -
  note x = works_withD [OF assms(1)]
  obtain sc lun cdb d where w: "w = (sc, lun, cdb, d)" by (metis prod.collapse)
  let ?off = "if sends cdb then 31 else 6" and ?n = "data_len cdb" and ?u = "cl_task (sv_client v)"
  have c: "carries v g (lun, cdb, d)" and f: "in_flight v s (g, w, l) rest" using x(7) assms(2) w by simp_all
  have rd: "data_in (lun, cdb, d) \<longleftrightarrow> \<not> sends cdb" by (simp add: data_in_def)
  have g: "\<forall>x. g \<noteq> Ran x" "sends cdb \<Longrightarrow> g = Fetched" using assms(3) w rd by auto
  have once: "g = Fetched \<Longrightarrow> sends cdb" using c rd by (auto simp: carries_def Let_def)
  obtain disks sta y where b: "block_device (lun, cdb, d) (lun_image (engine_at 6 v)) = (disks, sta, y)" by (metis prod.collapse)
  obtain v1 buf where v1: "run_at stamp ?off v = Inr v1" "server_ok v1 p s" "lun_image (engine_at 6 v1) = disks"
      "\<And>m. unit_of (engine_at 6 v1) m = None \<longleftrightarrow> unit_of (engine_at 6 v) m = None"
      "cl_task (sv_client v1) = ?u\<lparr>ut_request_buffer := buf, ut_status := uint sta\<rparr>"
      "sta = 0 \<or> sta = 2" "y = (if \<not> sends cdb \<and> sta = 0 then segment 6 ?n buf else [])"
    using run_carried [OF x(3) c g(1) refl g(2) b, of stamp] by blast
  let ?v = "if g = Fetched then v1\<lparr>sv_client := (sv_client v1)\<lparr>cl_task := (cl_task (sv_client v1))\<lparr>ut_request_bufflen := 0\<rparr>\<rparr>\<rparr> else v1"
  have eng: "lun_image (engine_at 6 ?v) = disks" "unit_of (engine_at 6 ?v) = unit_of (engine_at 6 v1)"
      "disk_target (engine_at 6 ?v) = disk_target (engine_at 6 v1)"
    using v1(3) engine_cong [of "engine_at 6 ?v" "engine_at 6 v1"] by simp_all
  have ok: "server_ok ?v p s"
    using v1(2) eng(3) by (cases "g = Fetched") (simp_all add: server_ok_def serving_def)
  note cong = units_cong [of ?v v, unfolded eng(2), OF v1(4)]
  have tsk: "ut_cmd_number (cl_task (sv_client ?v)) = ut_cmd_number ?u" "ut_request_buffer (cl_task (sv_client ?v)) = buf"
      "ut_status (cl_task (sv_client ?v)) = uint sta"
      "ut_request_bufflen (cl_task (sv_client ?v)) = (if sends cdb then 0 else ut_request_bufflen ?u)"
    using v1(5) g(2) once by auto
  have base: "block_op (cdb ! 0)" "sends cdb \<longrightarrow> 0 < ?n" "?n + 31 < BUFFER_SIZE" "length d = ?n"
      "unit_of (engine_at 6 v) lun \<noteq> None" "unat (ut_request_bufflen ?u) = ?n"
    using c g(1) by (cases g; simp add: carries_def Let_def)+
  have "unat (ut_request_bufflen (cl_task (sv_client ?v))) = (if data_in (lun, cdb, d) then ?n else 0)"
    using base(6) rd unfolding tsk(4) by simp
  moreover have "unit_of (engine_at 6 ?v) lun \<noteq> None" using base(5) v1(4) [of lun] unfolding eng(2) by simp
  ultimately have "carries ?v (Ran (as_reply (sta, y))) (lun, cdb, d)"
    using base(1-4) v1(6,7) rd tsk(2,3) by (intro carries_ranI [of cdb d _ lun sta]) (simp_all add: as_reply_def)
  moreover have "in_flight ?v s (Ran (as_reply (sta, y)), w, l) rest"
    using f assms(3) g(1) w tsk(1) unfolding in_flight_def cong
    by (auto simp: Let_def)
  moreover have "run_job w l q = q\<lparr>ws_disks := disks, ws_job := Some (Ran (as_reply (sta, y)), w, l)\<rparr>"
    using b w x(4) by (simp add: run_job_def)
  ultimately have new: "works_as p \<lparr>pr_server = ?v, pr_stage = Answering\<rparr> (run_job w l q)"
    using x(5,6,8) eng(1) w by (intro works_asI [OF ok, where rest = rest]) (simp_all add: cong job_stage_def tracked_def)
  have "target_call sl False stamp pr = Inr (Some \<lparr>pr_server = ?v, pr_stage = Answering\<rparr>)"
    using assms(2,3) x(1,7) v1(1) w rd g(2) once by (auto simp: target_call_def job_stage_def Let_def)
  from call_simulated [OF this ok _ no_replies new] x(1,2) show ?thesis by simp
qed


text \<open>An answer to a command that is gone is accepted, and does nothing.\<close>

lemma answer_void:
  assumes "session_ok s" and "ss_flags s = SCSITAP_CONNECTION_READY" and "task_of_cmd s n = None"
  shows "ctl_write sl m (answer n st d @ rest) s = Inr (s, to_int m)"
  using assms lock_unlock [OF assms(1)]
  by (simp add: ctl_write_def ctl_write_D_def answer_fields le32_le32_bytes)

lemma complete_void:
  assumes "server_ok v p s" and "u = cl_task (sv_client v)" and "task_of_cmd s (ut_cmd_number u) = None"
    and "unat (ut_request_bufflen u) + 6 < BUFFER_SIZE"
  shows "\<exists>v'. complete_or_exit sl v = Inr v' \<and> server_ok v' p s \<and> sv_fs v' = sv_fs v \<and> sv_target v' = sv_target v"
proof -
  have v: "serving (sv_client v) p s" "numbers_inv s" "length (ut_cdb u) = 16" "length (ut_request_buffer u) = BUFFER_SIZE"
    using assms(1,2) by (auto simp: server_ok_def)
  have s: "session_ok s" "ss_flags s = SCSITAP_CONNECTION_READY" using v(1) by (auto simp: serving_def)
  obtain k b where k: "complete_scsi_task sl (sv_client v) = Inr (k, 0)" "serving k p s"
      "cl_task k = u\<lparr>ut_request_buffer := b\<rparr>" "length b = length (ut_request_buffer u)"
    using complete_ok [OF v(1) refl _ _ _ s(1), of sl] answer_void [OF s assms(3)] assms(2,4) v(4) by (auto simp: BUFFER_SIZE_def)
  have "server_ok (v\<lparr>sv_client := k\<rparr>) p s"
    by (rule server_ok_client [OF assms(1) k(2) v(2)]) (use k(3,4) v(3,4) in simp_all)
  then show ?thesis using k(1) by (intro exI [of _ "v\<lparr>sv_client := k\<rparr>"]) (simp add: complete_or_exit_def)
qed

lemma answer_simulated:
  assumes "works_with p pr q v st s rest" and "ws_job q = Some (Ran y, w, l)" and "slab_ok sl"
  shows "\<exists>pr'. serve_calls sl stamp p Turn pr = Inr (pr', if l then [(fst w, y)] else []) \<and> works_as p pr' (q\<lparr>ws_job := None\<rparr>)"
proof -
  note x = works_withD [OF assms(1)]
  obtain sc lun cdb d where w: "w = (sc, lun, cdb, d)" by (metis prod.collapse)
  let ?u = "cl_task (sv_client v)" and ?n = "data_len cdb"
  have st: "st = Answering" and f: "in_flight v s (Ran y, w, l) rest" and c: "carries v (Ran y) (lun, cdb, d)"
    using x(7) assms(2) w by (simp_all add: job_stage_def)
  have rd: "data_in (lun, cdb, d) \<longleftrightarrow> \<not> sends cdb" by (simp add: data_in_def)
  obtain sta where a: "sta = 0 \<or> sta = (2 :: u8)" "ut_status ?u = uint sta" "fst y = ucast sta"
      "snd y = (if \<not> sends cdb \<and> sta = 0 then segment 6 ?n (ut_request_buffer ?u) else [])"
      "unat (ut_request_bufflen ?u) = (if \<not> sends cdb then ?n else 0)" "sends cdb \<longrightarrow> 0 < ?n" "?n + 31 < BUFFER_SIZE"
    using c rd by (cases y) (auto simp: carries_def Let_def)
  have small: "unat (ut_request_bufflen ?u) + 6 < BUFFER_SIZE" using a(5,7) by simp
  have img: "lun_image (engine_at 6 v') = lun_image (engine_at 6 v)" "unit_of (engine_at 6 v') = unit_of (engine_at 6 v)"
    if "sv_fs v' = sv_fs v" "sv_target v' = sv_target v" for v'
    using that engine_cong(2,3) [of "engine_at 6 v'" "engine_at 6 v"] by simp_all
  show ?thesis
  proof (cases l)
    case True
    then obtain t where t: "ss_queue s = t # rest" "tk_cmd_number t = ut_cmd_number ?u" "tk_sc t = sc" "request_of s t = (lun, cdb, d)"
        "block_command v (tk_lun t) (ss_cmnds s sc)"
      using f w by (auto simp: in_flight_def Let_def)
    have num: "task_of_cmd s (ut_cmd_number ?u) = Some t" using t(1,2) by (simp add: task_of_cmd_def)
    have n: "unat (sc_request_bufflen (ss_cmnds s (tk_sc t))) = ?n" "sc_cmnd (ss_cmnds s (tk_sc t)) = cdb"
      using t(3-5) by (simp_all add: block_command_defs request_of_def)
    have fits: "unat (ut_request_bufflen ?u) = 0 \<or> unat (ut_request_bufflen ?u) = unat (sc_request_bufflen (ss_cmnds s (tk_sc t)))"
      using a(5) n(1) by simp
    obtain v' s' where r: "complete_or_exit sl v = Inr v'" "server_ok v' p s'" "sv_fs v' = sv_fs v" "sv_target v' = sv_target v" "finished s t s'"
        "drop_bit 7 sta = 0 \<longrightarrow> sc_result (ss_cmnds s' (tk_sc t)) = ucast sta"
        "sta = 0 \<and> segment 6 (unat (ut_request_bufflen ?u)) (ut_request_buffer ?u) \<noteq> []
          \<longrightarrow> cmnd_data (ss_cmnds s' (tk_sc t)) = segment 6 (unat (ut_request_bufflen ?u)) (ut_request_buffer ?u)"
      using complete_turn [OF x(3) assms(3) refl num refl small a(2) fits refl] by blast
    have top: "drop_bit 7 sta = 0" "(ucast sta :: u32) = 0 \<longleftrightarrow> sta = 0" using a(1) by (auto simp: drop_bit_eq_div)
    have "session_ok s" using x(3) by (simp add: server_ok_def serving_def)
    note ff = finished_first [OF r(5) this t(1)]
    have same: "ss_cmnds s' (tk_sc u) = ss_cmnds s (tk_sc u)" if "u \<in> set rest" for u
      using ff(2,3) that by (metis imageI)
    note cong = units_cong [of v' v, unfolded img(2) [OF r(3,4)], OF refl]
    have un: "unclaimed v' s' rest" "map (\<lambda>t. (tk_sc t, request_of s' t)) rest = map (\<lambda>t. (tk_sc t, request_of s t)) rest"
      using x(6) same by (simp_all add: unclaimed_def cong request_of_def)
    have new: "works_as p \<lparr>pr_server = v', pr_stage = Reading\<rparr> (q\<lparr>ws_job := None\<rparr>)"
    proof (rule works_asI [OF r(2)])
      show "tracked v' s' (q\<lparr>ws_job := None\<rparr>)"
        by (rule tracked_fewer [OF x(8) cong(3)]) (use r(5) ff(1) t(1) in \<open>auto simp: finished_def\<close>)
    qed (use x(4,5) un ff(1) img(1) [OF r(3,4)] in simp_all)
    have len: "length (ut_request_buffer ?u) = BUFFER_SIZE" using x(3) by (simp add: server_ok_def)
    have "segment 6 ?n (ut_request_buffer ?u) = [] \<longleftrightarrow> ?n = 0" using a(7) len by (auto simp: segment_def)
    then have "reply s s' sc = y"
      using r(6,7) top a(3-5) n(2) t(3) by (cases y) (auto simp: reply_def Let_def)
    then have rep: "replies s s' = [(sc, y)]" using r(5) t(3) by (simp add: replies_def finished_def)
    show ?thesis
      by (rule call_simulated [OF _ r(2) _ _ new]) (use x(1,2) st r(1) rep True w in \<open>simp_all add: target_call_def\<close>)
  next
    case False
    with f w have q: "ss_queue s = rest" "task_of_cmd s (ut_cmd_number ?u) = None" by (auto simp: in_flight_def Let_def)
    obtain v' where r: "complete_or_exit sl v = Inr v'" "server_ok v' p s" "sv_fs v' = sv_fs v" "sv_target v' = sv_target v"
      using complete_void [OF x(3) refl q(2) small] by blast
    note cong = units_cong [of v' v, unfolded img(2) [OF r(3,4)], OF refl]
    have new: "works_as p \<lparr>pr_server = v', pr_stage = Reading\<rparr> (q\<lparr>ws_job := None\<rparr>)"
      by (rule works_asI [OF r(2)]) (use x(4-6,8) q(1) cong img(1) [OF r(3,4)] in \<open>simp_all add: tracked_def\<close>)
    from call_simulated [OF _ r(2) _ no_replies new, of sl stamp pr s] x(1,2) st r(1) False show ?thesis
      by (simp add: target_call_def)
  qed
qed

lemma turn_simulated:
  assumes "works_as p pr q" and "slab_ok sl"
  shows "\<exists>pr'. serve_calls sl stamp p Turn pr = Inr (pr', snd (work Turn q)) \<and> works_as p pr' (fst (work Turn q))"
proof -
  obtain v st s rest where ww: "works_with p pr q v st s rest" using assms(1) by (auto simp: works_as_def)
  note x = works_withD [OF ww]
  show ?thesis
  proof (cases "ws_job q")
    case None
    show ?thesis
    proof (cases rest)
      case Nil
      with sleep_simulated [OF ww [unfolded Nil] None] assms(1) None x(5) show ?thesis by simp
    next
      case (Cons t rest')
      with find_simulated [OF ww [unfolded Cons] None] None x(5) show ?thesis by simp
    qed
  next
    case (Some j)
    obtain g w l where j: "j = (g, w, l)" by (metis prod.collapse)
    consider "g = Found" | "g = Taken" "\<not> data_in (snd w)" | "g = Taken \<and> data_in (snd w) \<or> g = Fetched" | y where "g = Ran y"
      by (cases g) auto
    then show ?thesis
    proof cases
      case 1
      with claim_simulated [OF ww] Some j show ?thesis by simp
    next
      case 2
      with fetch_simulated [OF ww] Some j show ?thesis by simp
    next
      case 3
      with run_simulated [OF ww _ 3] Some j show ?thesis by auto
    next
      case 4
      with answer_simulated [OF ww _ assms(2)] Some j show ?thesis by simp
    qed
  qed
qed

interpretation interleaved: judged_simulation "serve_calls sl stamp p" work "\<lambda>pr q. works_as p pr q \<and> slab_ok sl" work_ok for sl stamp p
proof
  show "\<exists>pr'. serve_calls sl stamp p e pr = Inr (pr', snd (work e q)) \<and> works_as p pr' (fst (work e q)) \<and> slab_ok sl"
    if "works_as p pr q \<and> slab_ok sl" "work_ok q e" for pr q e
    using that arrival_simulated [of p pr q] withdrawal_simulated [of p pr q sl] reset_simulated [of p pr q sl] turn_simulated [of p pr q sl]
    by (cases e) blast+
qed

text \<open>Turns can be taken at any time.\<close>

lemma turns_accepted:
  "spec_accepts work work_ok es (fst (spec_outputs work (replicate n Turn) q)) \<Longrightarrow> spec_accepts work work_ok (replicate n Turn @ es) q"
  by (induction n arbitrary: q) (simp_all add: split_def Let_def)

text \<open>A READ arrives while a WRITE is worked on, and the WRITE is withdrawn after its data has been fetched.\<close>

definition demo_write :: scsi_cmnd where
  "demo_write = demo_transfer (demo_cdb 0x2a 2 1) 512 DMA_TO_DEVICE"

definition demo_arrival :: traffic where
  "demo_arrival = Arrive 8 6 ((demo_transfer (demo_cdb 0x28 2 1) 512 DMA_FROM_DEVICE)\<lparr>sc_SCp_ptr := None\<rparr>) 3"

definition demo_process :: process where
  "demo_process = \<lparr>pr_server = demo_server demo_write, pr_stage = Reading\<rparr>"

definition demo_workshop :: workshop where
  "demo_workshop = \<lparr>ws_waiting = [(5, 0, demo_cdb 0x2a 2 1, replicate 512 9)], ws_job = None,
     ws_disks = lun_image (engine_at 6 (demo_server demo_write)), ws_units = has_disk (demo_server demo_write),
     ws_slots = [5 \<mapsto> 7], ws_number = 2\<rparr>"

definition demo_events :: "traffic list" where
  "demo_events = demo_arrival # [Turn, Turn, Turn] @ Withdraw 5 # [Turn, Turn, Turn, Turn, Turn, Turn]"

lemma demo_start:
  "works_as 1 demo_process demo_workshop" "work_ok demo_workshop demo_arrival"
  "work demo_arrival demo_workshop = (enter_command 8 6 (0, demo_cdb 0x28 2 1, replicate 512 9) demo_workshop, [])"
proof -
  let ?r = "(demo_transfer (demo_cdb 0x28 2 1) 512 DMA_FROM_DEVICE)\<lparr>sc_SCp_ptr := None\<rparr>"
  have sv: "server_ok (demo_server demo_write) 1 (demo_waiting demo_write)"
    unfolding demo_write_def by (rule demo_server_ok) (simp_all add: demo_transfer_ok)
  have cmds: "block_command (demo_server demo_write) lun demo_write" "block_command (demo_server demo_write) lun ?r" if "ucast lun = (0 :: u8)" for lun
    using that demo_transfer_ok(2,3) [of "demo_cdb 0x2a 2 1" 512] demo_transfer_ok(2,3) [of "demo_cdb 0x28 2 1" 512]
    by (simp_all add: block_command_defs demo_block whole_cdb_def demo_cdb_fields demo_server_engine BUFFER_SIZE_def demo_write_def)
  have lun: "sc_device_lun ?r = 0" by (simp add: demo_transfer_def demo_cmnd_def)
  have c: "sc_cmnd demo_write = demo_cdb 0x2a 2 1" "cmnd_data demo_write = replicate 512 9" by (simp_all add: demo_write_def)
  have s: "ss_next_cmdnumber (demo_waiting demo_write) = 2" "ss_queue (demo_waiting demo_write) = [demo_task SCSITAP_TASK_SUBMITTED]"
    by (simp_all add: demo_waiting_def demo_session_def upd_cmnd_def)
  then have "tracked (demo_server demo_write) (demo_waiting demo_write) demo_workshop"
    by (simp add: tracked_def demo_workshop_def demo_task_def)
  then show "works_as 1 demo_process demo_workshop"
    unfolding demo_process_def
    by (intro works_asI [OF sv, where rest = "[demo_task SCSITAP_TASK_SUBMITTED]"])
      (use cmds(1) c in \<open>simp_all add: demo_workshop_def unclaimed_def request_of_def demo_task_def\<close>)
  have "wf_cmnd ?r" using demo_transfer_ok(1) [of "demo_cdb 0x28 2 1" 512] by simp
  then show "work_ok demo_workshop demo_arrival"
    using cmds(2) lun by (simp add: demo_arrival_def demo_workshop_def outstanding_def block_command_def)
  show "work demo_arrival demo_workshop = (enter_command 8 6 (0, demo_cdb 0x28 2 1, replicate 512 9) demo_workshop, [])"
    using lun by (simp add: demo_arrival_def)
qed

lemma demo_reads: "\<not> data_in (0, demo_cdb 0x2a 2 1, d)" "data_in (0, demo_cdb 0x28 2 1, d)"
  by (simp_all add: data_in_def demo_block)

lemma demo_waits: "ws_waiting demo_workshop = [(5, 0, demo_cdb 0x2a 2 1, replicate 512 9)]" "ws_job demo_workshop = None"
  by (simp_all add: demo_workshop_def)

lemma demo_job:
  "ws_job (fst (spec_outputs work [Turn, Turn] (fst (work demo_arrival demo_workshop))))
     = Some (Taken, (5, 0, demo_cdb 0x2a 2 1, replicate 512 9), True)"
  "ws_waiting (fst (spec_outputs work [Turn, Turn] (fst (work demo_arrival demo_workshop)))) = [(6, 0, demo_cdb 0x28 2 1, replicate 512 9)]"
  unfolding demo_start(3) by (simp_all add: demo_waits demo_reads enter_command_def)

lemma demo_events_spec:
  "snd (spec_outputs work demo_events demo_workshop) = [[], [], [], [], [], [], [], [], [], [], [(6, 0, replicate 512 9)]]"
proof -
  have segment_all: "segment 0 512 (replicate 512 (9 :: u8)) = replicate 512 9" by (simp add: segment_def)
  let ?D = "(ws_disks demo_workshop)(0 := patch 1024 (replicate 512 9) (ws_disks demo_workshop 0))"
  have wrote: "block_device (0, demo_cdb 0x2a 2 1, replicate 512 9) (ws_disks demo_workshop) = (?D, 0, [])"
    and wasread: "block_device (0, demo_cdb 0x28 2 1, replicate 512 9) ?D = (?D, 0, replicate 512 9)"
    using demo_server_engine(3) [of 6 demo_write]
    by (simp_all add: block_device_def demo_block demo_cdb_fields segment_patch_same segment_all demo_workshop_def)
  show ?thesis
    using demo_start(3) wrote wasread
    by (simp add: demo_events_def demo_waits run_job_def give_up_job_def demo_reads as_reply_def enter_command_def)
qed

lemma demo_events_ok: "spec_accepts work work_ok demo_events demo_workshop"
  using demo_start(2,3) by (simp add: demo_events_def demo_waits demo_reads enter_command_def at_risk_def)

text \<open>
  C2.  The system under any interleaving of system calls.  Whatever the mid layer does between any two
  calls of the target (new commands to its disks: READ, WRITE, READ CAPACITY, commands without data,
  unknown ones; aborts; resets), as long as it does not withdraw a command whose data the target has
  claimed and not yet fetched, each event finishes the commands the specification finishes, with its
  results and data: a withdrawn command is never finished, not even when it was running, its
  successors are, and nothing faults, exits or deadlocks.
\<close>

theorem interleaved_calls_are_block_service:
  assumes "works_as p pr q" and "slab_ok sl" and "spec_accepts work work_ok es q"
  shows "\<exists>pr'. run_outputs (serve_calls sl stamp p) es pr = Inr (pr', snd (spec_outputs work es q))
    \<and> works_as p pr' (fst (spec_outputs work es q))"
  using interleaved.run_judged [of p pr q sl es stamp] assms by blast

theorem interleaved_calls_are_block_service_witness:
  "\<exists>pr'. run_outputs (serve_calls (demo_slab (\<lambda>f. f)) ''t'' 1) demo_events demo_process
     = Inr (pr', [[], [], [], [], [], [], [], [], [], [], [(6, 0, replicate 512 9)]])"
  using interleaved_calls_are_block_service [OF demo_start(1) demo_slab_ok demo_events_ok] demo_events_spec by auto

section \<open>The window\<close>

lemma fetch_void:
  assumes "serving k p s" and "task_of_cmd s (ut_cmd_number (cl_task k)) = None" and "ss_queue s \<noteq> []"
    and "ut_direction (cl_task k) = chr_O" and "0 < unat (ut_request_bufflen (cl_task k))" and "unat (ut_request_bufflen (cl_task k)) + 31 < 2 ^ 31"
  shows "\<exists>k'. receive_scsi_data sl sig k = Inr (Some (k', - 1))"
proof -
  let ?k = "k\<lparr>cl_file := (cl_file k)\<lparr>fl_pos := ucast (ut_cmd_number (cl_task k))\<rparr>\<rparr>" and ?n = "unat (ut_request_bufflen (cl_task k))"
  have sv: "serving ?k p s" and ok: "session_ok s" and ready: "ss_flags s = SCSITAP_CONNECTION_READY"
    using assms(1) by (auto simp: serving_def)
  have n: "sint (ut_request_bufflen (cl_task k)) = int ?n" by (rule sint_small) (use assms(6) in simp)
  have "nat (int m + 31) = m + 31" for m by simp
  then have "ctl_read sig (fl_pos (cl_file ?k)) (nat (int ?n + 31)) (ut_request_buffer (cl_task k)) s = Inr (Some (s, ut_request_buffer (cl_task k), 0))"
    unfolding \<open>\<And>m. nat (int m + 31) = m + 31\<close> using assms(2,3,5) ready lock_unlock [OF ok] by (simp add: ctl_read_def ctl_read_locked_def SCSITAP_UHEADER_SIZE_def)
  from client_read_serving [OF sv _ this]
  have rd: "client_read sig (int ?n + 31) (ut_request_buffer (cl_task k)) ?k
      = Inr (Some (?k\<lparr>cl_sessions := put_session s (cl_sessions ?k)\<rparr>, ut_request_buffer (cl_task k), 0))" by simp
  have "c_int (int ?n + 31) = Inr (int ?n + 31)"
    by (rule c_int_in_range) (use uint_less_of_unat [of "ut_request_bufflen (cl_task k)" "2 ^ 31 - 31"] assms(6) in simp_all)
  with rd n assms(4) show ?thesis
    by (simp add: receive_scsi_data_def client_ioctl_def scsitap_ctl_ioctl_def Let_def c_consts)
qed

text \<open>
  C32.  An abort at the wrong moment ends the target.  A WRITE that the target has claimed is aborted
  before its data has been fetched, while other commands wait: the driver answers the target's
  \<open>read\<close> with 0 bytes, \<open>receive_scsi_data\<close> reports a failure, and \<open>main\<close> exits.
\<close>

theorem abort_before_fetch_ends_target:
  assumes "works_as p pr q" and "slab_ok sl" and "ws_job q = Some (Taken, w, True)" and "\<not> data_in (snd w)"
    and "filter (\<lambda>v. fst v \<noteq> fst w) (ws_waiting q) \<noteq> []"
  shows "\<exists>pr'. serve_calls sl stamp p (Withdraw (fst w)) pr = Inr (pr', []) \<and> serve_calls sl stamp p Turn pr' = Inl (Exit 1)"
proof -
  obtain v st s rest where ww: "works_with p pr q v st s rest" using assms(1) by (auto simp: works_as_def)
  note x = works_withD [OF ww]
  obtain sc lun cdb d where w: "w = (sc, lun, cdb, d)" by (metis prod.collapse)
  let ?u = "cl_task (sv_client v)"
  have st: "st = Fetching" and f: "in_flight v s (Taken, w, True) rest" and c: "carries v Taken (lun, cdb, d)"
    using x(7) assms(3,4) w by (simp_all add: job_stage_def)
  obtain t where t: "ss_queue s = t # rest" "tk_cmd_number t = ut_cmd_number ?u" "tk_sc t = sc"
    using f w by (auto simp: in_flight_def Let_def)
  have u: "ut_direction ?u = chr_O" "0 < unat (ut_request_bufflen ?u)" "unat (ut_request_bufflen ?u) + 31 < BUFFER_SIZE"
    using c assms(4) w by (simp_all add: carries_def Let_def data_in_def)
  obtain s' where s': "scsitap_eh_abort sl sc s = Inr (s', SUCCESS)" "ready_session s'" "ss_done s' = ss_done s"
      "ss_queue s' = filter (\<lambda>t. tk_sc t \<noteq> sc) (ss_queue s)"
    using refine_abort [OF server_ready [OF x(3)] assms(2), of sc] by blast
  obtain v' where v': "on_session p (scsitap_eh_abort sl sc) v = Inr v'" "server_ok v' p s'" "same_target v v'"
    using on_session_ok [where h = "scsitap_eh_abort sl sc", OF x(3) s'(1,2) eh_abort_identity [OF s'(1)]] by blast
  have "ss_queue s' = filter (\<lambda>t. tk_sc t \<noteq> sc) rest" using s'(4) t(1,3) by simp
  moreover from this have "task_of_cmd s' (ut_cmd_number ?u) = None"
    using head_number [of s t rest s'] t(1,2) x(3) by (simp add: server_ok_def)
  moreover have "filter (\<lambda>t. tk_sc t \<noteq> sc) rest \<noteq> []" using assms(5) x(5) w by (auto simp: filter_empty_conv)
  moreover have tsk: "cl_task (sv_client v') = ?u" by (rule same_target_engine(3) [OF v'(3)])
  moreover have "serving (sv_client v') p s'" using v'(2) by (simp add: server_ok_def)
  ultimately obtain k where "receive_scsi_data sl False (sv_client v') = Inr (Some (k, - 1))"
    using fetch_void [of "sv_client v'" p s' sl False] u by (auto simp: BUFFER_SIZE_def)
  then have "target_call sl False stamp \<lparr>pr_server = v', pr_stage = Fetching\<rparr> = Inl (Exit 1)" by (simp add: target_call_def)
  then show ?thesis
    using v'(1) s'(3) x(1,2) st w session_of_ok [OF v'(2)]
    by (intro exI [of _ "\<lparr>pr_server = v', pr_stage = Fetching\<rparr>"]) (simp add: serve_calls_def process_step_def replies_def)
qed

theorem abort_before_fetch_ends_target_witness:
  "\<exists>pr pr'. run_outputs (serve_calls (demo_slab (\<lambda>f. f)) ''t'' 1) [demo_arrival, Turn, Turn] demo_process = Inr (pr, [[], [], []])
     \<and> serve_calls (demo_slab (\<lambda>f. f)) ''t'' 1 (Withdraw 5) pr = Inr (pr', [])
     \<and> serve_calls (demo_slab (\<lambda>f. f)) ''t'' 1 Turn pr' = Inl (Exit 1)"
proof -
  let ?sl = "demo_slab (\<lambda>f. f)"
  have "spec_accepts work work_ok [demo_arrival, Turn, Turn] demo_workshop" using demo_start(2) by simp
  from interleaved.run_judged [OF conjI [OF demo_start(1) demo_slab_ok] this] obtain pr where
    pr: "run_outputs (serve_calls ?sl ''t'' 1) [demo_arrival, Turn, Turn] demo_process
        = Inr (pr, snd (spec_outputs work [demo_arrival, Turn, Turn] demo_workshop))"
      "works_as 1 pr (fst (spec_outputs work [Turn, Turn] (fst (work demo_arrival demo_workshop))))"
    by (auto simp: split_def Let_def)
  have out: "snd (spec_outputs work [demo_arrival, Turn, Turn] demo_workshop) = [[], [], []]"
    using demo_start(3) by (simp add: demo_waits enter_command_def)
  from abort_before_fetch_ends_target [OF pr(2) demo_slab_ok demo_job(1), of "''t''"] pr(1) out demo_job(2) demo_reads(1)
  show ?thesis by auto
qed

end
