(* ===== verification/Service.thy ===== *)
theory Service
  imports Interleaving
begin

text \<open>
  From the command line to the block device: a target that \<open>main\<close> has set up on a list of image files
  is the block device of the theory \<open>Interleaving\<close> on those files.
\<close>

section \<open>The service of a list of files\<close>

text \<open>
  One disk per name, all of one size, with what the files hold; nothing asked for, nothing numbered.
  The driver numbers commands from 1.
\<close>

definition file_service :: "fs \<Rightarrow> string list \<Rightarrow> nat \<Rightarrow> workshop" where
  "file_service fs names n = \<lparr>ws_waiting = [], ws_job = None,
     ws_disks = (\<lambda>m. if unat m < length names then set_length n (fs_data fs (the (fs_dir fs (names ! unat m)))) else []),
     ws_units = (\<lambda>m. unat m < length names), ws_slots = (\<lambda>_. None), ws_number = 1\<rparr>"

lemma file_service_idle:
  "ws_waiting (file_service fs names n) = []" "ws_job (file_service fs names n) = None"
  "outstanding (file_service fs names n) = []" "ws_number (file_service fs names n) = 1"
  by (simp_all add: file_service_def outstanding_def)

lemma started_works:
  assumes "server_ok v p s" and "ss_queue s = []" and "ss_next_cmdnumber s = 1"
    and "\<forall>k<length names. \<exists>i. fs_dir fs (names ! k) = Some i \<and> lun_image (engine_at 6 v) (of_nat k) = set_length n (fs_data fs i)"
    and "\<forall>m. unit_of (engine_at 6 v) m \<noteq> None \<longleftrightarrow> unat m < length names"
  shows "works_as p \<lparr>pr_server = v, pr_stage = Reading\<rparr> (file_service fs names n)"
proof (rule works_asI [OF assms(1)])
  show "ws_disks (file_service fs names n) = lun_image (engine_at 6 v)"
  proof
    fix m :: u8
    show "ws_disks (file_service fs names n) m = lun_image (engine_at 6 v) m"
    proof (cases "unat m < length names")
      case True
      with assms(4) [rule_format, OF True] show ?thesis by (auto simp: file_service_def)
    next
      case False
      with assms(5) have "unit_of (engine_at 6 v) m = None" by blast
      with False show ?thesis by (simp add: file_service_def lun_image_def)
    qed
  qed
  show "tracked v s (file_service fs names n)"
    using assms(2,3,5) by (simp add: tracked_def file_service_def has_disk_def fun_eq_iff)
qed (use assms(2) in \<open>simp_all add: file_service_idle unclaimed_def\<close>)

text \<open>
  C1.  A target started on image files is a block service.  With good names of image files and a minor
  that no session has, \<open>main\<close> gets to its loop, and from there on, under any interleaving of commands,
  aborts and resets with the system calls of the target, the system finishes the commands that a block
  device on those files finishes, with its results and data.  Every disk has the size of the last file:
  the device is that of the files cut or extended to this size.  What may be asked is judged by the
  block device alone.
\<close>

theorem started_target_is_block_service:
  assumes "files_ok fs names" and "names \<noteq> []" and "length names \<le> 256"
    and "\<forall>f\<in>set names. name_ok f \<and> stat_size f fs = Some (sz f) \<and> sz f mod MEGABYTE = 0"
    and "sz (last names) < 2048 * MEGABYTE" and "minor_of dev = Some m"
    and "\<not> sl_lock D" and "scsitap_get_session D m = None" and "session_at D p = None" and "\<forall>c. sc_SCp_ptr (cb c) = None"
    and "length (ut_cdb tsk) = 16" and "slab_ok sl"
    and "spec_accepts work work_ok es (file_service fs names (sz (last names)))"
  shows "\<exists>v pr. server_start stamp mem size0 [''-dev'', dev, ''-files'', comma_list names] fs minor_of sl (Some p) 0 cb pid True tsk D = Inr v
    \<and> run_outputs (serve_calls sl stamp' p) es \<lparr>pr_server = v, pr_stage = Reading\<rparr>
        = Inr (pr, snd (spec_outputs work es (file_service fs names (sz (last names)))))"
proof -
  obtain v s where v: "server_start stamp mem size0 [''-dev'', dev, ''-files'', comma_list names] fs minor_of sl (Some p) 0 cb pid True tsk D = Inr v"
      "server_ok v p s" "ss_queue s = []" "ss_next_cmdnumber s = 1"
      "\<forall>k<length names. \<exists>i. fs_dir fs (names ! k) = Some i
         \<and> lun_image (engine_at 6 v) (of_nat k) = set_length (sz (last names)) (fs_data fs i)"
      "\<forall>m. unit_of (engine_at 6 v) m \<noteq> None \<longleftrightarrow> unat m < length names"
    using target_starts [where names = names and sz = sz and minor_of = minor_of and cb = cb, OF assms(1-11), of stamp mem size0 sl pid] by blast
  with interleaved.run_judged [OF conjI [OF started_works [OF v(2-6)] assms(12)] assms(13), of stamp'] show ?thesis by blast
qed

text \<open>Two files of ones: the second one sets the size, and the first is read.\<close>

definition first_read :: "traffic list" where
  "first_read = Arrive 8 6 ((demo_transfer (demo_cdb 0x28 2 1) 512 DMA_FROM_DEVICE)\<lparr>sc_SCp_ptr := None\<rparr>) 3 # replicate 4 Turn"

lemma first_read_spec:
  assumes "0 < length names" and "fs_dir fs (names ! 0) = Some i" and "set_length n (fs_data fs i) = replicate n b" and "1536 \<le> n"
  shows "spec_accepts work work_ok first_read (file_service fs names n)"
    and "snd (spec_outputs work first_read (file_service fs names n)) = [[], [], [], [], [(6, 0, replicate 512 b)]]"
proof -
  let ?c = "(demo_transfer (demo_cdb 0x28 2 1) 512 DMA_FROM_DEVICE)\<lparr>sc_SCp_ptr := None\<rparr>" and ?q = "file_service fs names n"
  have lun: "sc_device_lun ?c = 0" by (simp add: demo_transfer_def demo_cmnd_def)
  have ok: "disk_command (ws_units ?q) 0 ?c"
    using demo_transfer_ok(2,3) [of "demo_cdb 0x28 2 1" 512] assms(1)
    by (simp add: disk_command_def file_service_def demo_block whole_cdb_def demo_cdb_fields BUFFER_SIZE_def)
  have "wf_cmnd ?c" using demo_transfer_ok(1) [of "demo_cdb 0x28 2 1" 512] by simp
  then have start: "work_ok ?q (hd first_read)" using ok lun by (simp add: first_read_def file_service_idle)
  have "ws_disks ?q 0 = replicate n b" using assms(1-3) by (simp add: file_service_def)
  moreover have "segment 1024 512 (replicate n b) = replicate 512 b" using assms(4) by (simp add: segment_def)
  ultimately have wasread: "block_device (0, demo_cdb 0x28 2 1, replicate 512 9) (ws_disks ?q) = (ws_disks ?q, 0, replicate 512 b)"
    using assms(4) by (simp add: block_device_def demo_block demo_cdb_fields)
  have turns: "replicate 4 Turn = [Turn, Turn, Turn, Turn]" by (simp add: eval_nat_numeral)
  show "spec_accepts work work_ok first_read ?q"
    using start turns_accepted [where n = 4 and es = "[]"] by (simp only: first_read_def spec_accepts.simps list.sel append_Nil2)
  show "snd (spec_outputs work first_read ?q) = [[], [], [], [], [(6, 0, replicate 512 b)]]"
    using wasread lun
    by (simp add: first_read_def turns file_service_idle enter_command_def demo_reads run_job_def as_reply_def)
qed

theorem started_target_is_block_service_witness:
  "\<exists>v pr. server_start ''t'' (\<lambda>_. demo_lun) 0 [''-dev'', ''d'', ''-files'', ''b,a''] demo_files (\<lambda>_. Some 0) (demo_slab (\<lambda>f. f)) (Some 1) 0
       no_cmnds 1 True (demo_user []) no_sessions = Inr v
     \<and> run_outputs (serve_calls (demo_slab (\<lambda>f. f)) ''t'' 1) first_read \<lparr>pr_server = v, pr_stage = Reading\<rparr>
         = Inr (pr, [[], [], [], [], [(6, 0, replicate 512 7)]])"
proof -
  let ?names = "[''b'', ''a'']" and ?sz = "\<lambda>f. if f = ''a'' then MEGABYTE else 2 * MEGABYTE"
  have files: "files_ok demo_files ?names" "\<forall>f\<in>set ?names. name_ok f
      \<and> stat_size f demo_files = Some (?sz f) \<and> ?sz f mod MEGABYTE = 0"
    by (simp_all add: files_ok_def demo_files_def name_ok_def stat_size_def)
  have D: "\<not> sl_lock no_sessions" "scsitap_get_session no_sessions 0 = None" "session_at no_sessions 1 = None"
      "\<forall>c. sc_SCp_ptr (no_cmnds c) = None" "length (ut_cdb (demo_user [])) = 16"
    by (simp_all add: no_sessions_def scsitap_get_session_def session_at_def no_cmnds_def demo_cmnd_def demo_user_def)
  have pre: "?names \<noteq> []" "length ?names \<le> 256" "?sz (last ?names) < 2048 * MEGABYTE" by (simp_all add: MEGABYTE_def)
  have "\<exists>i. fs_dir demo_files ''b'' = Some i \<and> set_length MEGABYTE (fs_data demo_files i) = replicate MEGABYTE 7"
    by (simp add: demo_files_def set_length_def)
  then obtain i where i: "fs_dir demo_files ''b'' = Some i" "set_length MEGABYTE (fs_data demo_files i) = replicate MEGABYTE 7" by blast
  note spec = first_read_spec [of ?names demo_files i MEGABYTE 7, simplified, OF i, unfolded MEGABYTE_def]
  show ?thesis
    using started_target_is_block_service [OF files(1) pre(1,2) files(2) pre(3), of "\<lambda>_. Some 0" "''d''" 0, OF refl D demo_slab_ok,
        of first_read "''t''" "\<lambda>_. demo_lun" 0 1 "''t''"] spec
    by (simp add: MEGABYTE_def)
qed

section \<open>Every command is answered\<close>

text \<open>How many calls of the target the specification still needs, at most.\<close>

definition calls_left :: "workshop \<Rightarrow> nat" where
  "calls_left q = 5 * length (ws_waiting q) + (case ws_job q of
       None \<Rightarrow> 0
     | Some (g, w, l) \<Rightarrow> (case g of Found \<Rightarrow> 4 | Taken \<Rightarrow> 3 | Fetched \<Rightarrow> 2 | Ran x \<Rightarrow> 1))"

lemma calls_left_idle: "calls_left q = 0 \<longleftrightarrow> ws_waiting q = [] \<and> ws_job q = None"
  by (auto simp: calls_left_def split: option.splits progress.splits)

lemma turn_works_off:
  "calls_left (fst (work Turn q)) \<le> calls_left q - 1"
  "outstanding q = map fst (snd (work Turn q)) @ outstanding (fst (work Turn q))"
proof -
  have "calls_left (fst (work Turn q)) \<le> calls_left q - 1 \<and> outstanding q = map fst (snd (work Turn q)) @ outstanding (fst (work Turn q))"
  proof (cases "ws_job q")
    case None
    then show ?thesis by (cases "ws_waiting q") (auto simp: calls_left_def outstanding_def)
  next
    case (Some j)
    obtain g w l where j: "j = (g, w, l)" by (metis prod.collapse)
    obtain disks x where b: "block_device (snd w) (ws_disks q) = (disks, x)" by (metis prod.collapse)
    show ?thesis
      using Some j b by (cases g; cases l) (simp_all add: calls_left_def outstanding_def run_job_def)
  qed
  then show "calls_left (fst (work Turn q)) \<le> calls_left q - 1"
    "outstanding q = map fst (snd (work Turn q)) @ outstanding (fst (work Turn q))" by blast+
qed

lemma turns_work_off:
  assumes "calls_left q \<le> n"
  shows "map fst (concat (snd (spec_outputs work (replicate n Turn) q))) = outstanding q"
    and "calls_left (fst (spec_outputs work (replicate n Turn) q)) = 0"
proof -
  have "map fst (concat (snd (spec_outputs work (replicate n Turn) q))) = outstanding q
    \<and> calls_left (fst (spec_outputs work (replicate n Turn) q)) = 0"
    using assms
  proof (induction n arbitrary: q)
    case 0
    then show ?case by (simp add: calls_left_idle outstanding_def)
  next
    case (Suc n)
    then have "calls_left (fst (work Turn q)) \<le> n" using turn_works_off(1) [of q] by linarith
    from Suc.IH [OF this] turn_works_off(2) [of q] show ?case
      by (simp add: split_def Let_def del: work.simps)
  qed
  then show "map fst (concat (snd (spec_outputs work (replicate n Turn) q))) = outstanding q"
    "calls_left (fst (spec_outputs work (replicate n Turn) q)) = 0" by blast+
qed

text \<open>
  C3.  Every command is answered.  After any history of commands, aborts, resets and system calls that
  the block device accepts, \<open>5 (n + 1)\<close> system calls of the target, with \<open>n\<close> commands waiting behind the
  one it works on, finish exactly the commands that have arrived and are neither finished nor withdrawn,
  each once and in the order of their arrival, and leave the queue of the driver empty.
\<close>

theorem every_command_is_answered:
  assumes "works_as p pr q" and "slab_ok sl" and "spec_accepts work work_ok es q"
    and "a = fst (spec_outputs work es q)" and "5 * Suc (length (ws_waiting a)) \<le> n"
  shows "\<exists>pr' outs rest. run_outputs (serve_calls sl stamp p) (es @ replicate n Turn) pr = Inr (pr', outs @ rest)
    \<and> outs = snd (spec_outputs work es q) \<and> map fst (concat rest) = outstanding a \<and> ss_queue (session_of p (pr_server pr')) = []"
proof -
  have "calls_left a \<le> n" using assms(5) by (auto simp: calls_left_def split: option.splits progress.splits)
  note off = turns_work_off [OF this]
  let ?b = "fst (spec_outputs work (replicate n Turn) a)"
  have ok: "spec_accepts work work_ok (es @ replicate n Turn) q"
    using assms(3) turns_accepted [of "[]" n a] unfolding assms(4) by (simp add: spec_accepts_append)
  have out: "spec_outputs work (es @ replicate n Turn) q
      = (?b, snd (spec_outputs work es q) @ snd (spec_outputs work (replicate n Turn) a))"
    unfolding assms(4) by (simp add: spec_outputs_append split_def Let_def)
  obtain pr' where r: "run_outputs (serve_calls sl stamp p) (es @ replicate n Turn) pr
      = Inr (pr', snd (spec_outputs work es q) @ snd (spec_outputs work (replicate n Turn) a))" "works_as p pr' ?b"
    using interleaved.run_judged [OF conjI [OF assms(1,2)] ok, of stamp] unfolding out by auto
  obtain v st s rest where w: "works_with p pr' ?b v st s rest" using r(2) by (auto simp: works_as_def)
  have "outstanding ?b = []" using off(2) by (simp add: calls_left_idle outstanding_def)
  then have "ss_queue s = []" using outstanding_pending [OF w] by simp
  then show ?thesis using r(1) off(1) works_withD(1,2) [OF w] by auto
qed

theorem every_command_is_answered_witness:
  "\<exists>pr' outs rest. run_outputs (serve_calls (demo_slab (\<lambda>f. f)) ''t'' 1) ([demo_arrival] @ replicate 15 Turn) demo_process = Inr (pr', outs @ rest)
     \<and> map fst (concat rest) = [5, 6] \<and> ss_queue (session_of 1 (pr_server pr')) = []"
proof -
  have ok: "spec_accepts work work_ok [demo_arrival] demo_workshop" using demo_start(2) by simp
  have out: "outstanding (fst (spec_outputs work [demo_arrival] demo_workshop)) = [5, 6]"
    and enough: "5 * Suc (length (ws_waiting (fst (spec_outputs work [demo_arrival] demo_workshop)))) \<le> 15"
    using demo_start(3) by (simp_all add: outstanding_def enter_command_def demo_waits)
  show ?thesis
    using every_command_is_answered [OF demo_start(1) demo_slab_ok ok refl enough, of "''t''"] unfolding out by (elim exE conjE) (intro exI conjI)
qed

end
