(* ===== verification/Host_Template.thy ===== *)
theory Host_Template
  imports Traffic
begin

text \<open>
  What the driver tells the mid layer about its hosts: the host template of \<open>kernel/hba.c\<close> with the
  constants of \<open>include/vscsi.h\<close>, and the limits that \<open>scsitap_create_session\<close> sets.  They are
  what keeps the commands inside the buffers of the target.
\<close>

section \<open>The template and the host\<close>

definition SCSITAP_MAX_CMD_LEN :: nat where "SCSITAP_MAX_CMD_LEN = 16"
definition SCSITAP_CANQUEUE :: nat where "SCSITAP_CANQUEUE = 8192"
definition SCSITAP_MAX_LUNS :: nat where "SCSITAP_MAX_LUNS = 256"
definition SCSITAP_MAX_TARGETS :: nat where "SCSITAP_MAX_TARGETS = 1"
definition SCSITAP_MAX_CHANNELS :: nat where "SCSITAP_MAX_CHANNELS = 0"
definition SCSITAP_CMDS_PER_LUN :: nat where "SCSITAP_CMDS_PER_LUN = 128"
definition SCSITAP_MAX_SECTORS :: nat where "SCSITAP_MAX_SECTORS = 256"
definition SCSITAP_PROC_NAME :: string where "SCSITAP_PROC_NAME = ''scsitap''"

lemmas limit_defs = SCSITAP_MAX_CMD_LEN_def SCSITAP_CANQUEUE_def SCSITAP_MAX_LUNS_def SCSITAP_MAX_TARGETS_def
  SCSITAP_MAX_CHANNELS_def SCSITAP_CMDS_PER_LUN_def SCSITAP_MAX_SECTORS_def

text \<open>The handlers are functions on the session behind the host, as the theory \<open>Hba\<close> has them.\<close>

record scsi_host_template =
  ht_name :: string
  ht_proc_name :: string
  ht_queuecommand :: "nat option \<Rightarrow> nat \<Rightarrow> nat \<Rightarrow> scsitap_session \<Rightarrow> (scsitap_session \<times> int) res"
  ht_eh_device_reset_handler :: "scsitap_session \<Rightarrow> scsitap_session \<times> int"
  ht_eh_abort_handler :: "slab \<Rightarrow> nat \<Rightarrow> scsitap_session \<Rightarrow> (scsitap_session \<times> int) res"
  ht_eh_host_reset_handler :: "slab \<Rightarrow> scsitap_session \<Rightarrow> (scsitap_session \<times> int) res"
  ht_this_id :: int
  ht_can_queue :: nat
  ht_sg_tablesize :: nat
  ht_cmd_per_lun :: nat
  ht_use_clustering :: bool
  ht_max_sectors :: nat
  ht_emulated :: bool

text \<open>\<open>SG_ALL\<close> and \<open>ENABLE_CLUSTERING\<close> are constants of the kernel.\<close>

definition scsitap_host_template :: "nat \<Rightarrow> bool \<Rightarrow> scsi_host_template" where
  "scsitap_host_template SG_ALL ENABLE_CLUSTERING = \<lparr>
     ht_name = ''vscsihba'',
     ht_proc_name = SCSITAP_PROC_NAME,
     ht_queuecommand = scsitap_queuecommand,
     ht_eh_device_reset_handler = scsitap_eh_device_reset,
     ht_eh_abort_handler = scsitap_eh_abort,
     ht_eh_host_reset_handler = scsitap_eh_host_reset,
     ht_this_id = - 1,
     ht_can_queue = SCSITAP_CANQUEUE,
     ht_sg_tablesize = SG_ALL,
     ht_cmd_per_lun = SCSITAP_CMDS_PER_LUN,
     ht_use_clustering = ENABLE_CLUSTERING,
     ht_max_sectors = SCSITAP_MAX_SECTORS,
     ht_emulated = True\<rparr>"

text \<open>The fields of \<open>struct Scsi_Host\<close> that the driver sets, and the template it was allocated from.\<close>

record scsi_host =
  sh_hostt :: scsi_host_template
  sh_max_id :: nat
  sh_max_lun :: nat
  sh_max_channel :: nat
  sh_max_cmd_len :: nat

definition set_host_limits :: "scsi_host \<Rightarrow> scsi_host" where
  "set_host_limits shost = shost\<lparr>sh_max_id := SCSITAP_MAX_TARGETS, sh_max_lun := SCSITAP_MAX_LUNS,
     sh_max_channel := SCSITAP_MAX_CHANNELS, sh_max_cmd_len := SCSITAP_MAX_CMD_LEN\<rparr>"

text \<open>
  What the mid layer promises to a host.  A command names a unit below \<open>max_lun\<close>, its block is
  no longer than \<open>max_cmd_len\<close> and whole, its buffer holds at most \<open>max_sectors\<close> sectors of 512 bytes
  and what the block says it moves, and one that sends data has some.
\<close>

definition within_limits :: "scsi_host \<Rightarrow> scsi_cmnd \<Rightarrow> bool" where
  "within_limits h c \<longleftrightarrow> unat (sc_device_lun c) < sh_max_lun h \<and> unat (sc_cmd_len c) \<le> sh_max_cmd_len h
     \<and> unat (sc_request_bufflen c) \<le> 512 * ht_max_sectors (sh_hostt h)"

definition consistent :: "scsi_cmnd \<Rightarrow> bool" where
  "consistent c \<longleftrightarrow> command_size (sc_cmnd c ! 0) \<le> unat (sc_cmd_len c) \<and> transfer_len (sc_cmnd c) \<le> unat (sc_request_bufflen c)
     \<and> (sc_data_direction c = DMA_TO_DEVICE \<longrightarrow> sc_request_bufflen c \<noteq> 0)"

section \<open>The limits fit the target\<close>

lemma host_limits:
  assumes "h = set_host_limits h0" and "sh_hostt h0 = scsitap_host_template sg cl"
  shows "within_limits h c \<longleftrightarrow> unat (sc_device_lun c) < 256 \<and> unat (sc_cmd_len c) \<le> 16 \<and> unat (sc_request_bufflen c) \<le> 131072"
    and "ht_can_queue (sh_hostt h) = 8192"
  using assms by (simp_all add: within_limits_def set_host_limits_def scsitap_host_template_def limit_defs)

lemma narrow_lun:
  fixes l m :: u32
  assumes "unat l < 256" and "unat m < 256"
  shows "(ucast l :: u8) = ucast m \<longleftrightarrow> l = m"
proof
  assume "(ucast l :: u8) = ucast m"
  then have "unat (ucast l :: u8) = unat (ucast m :: u8)" by simp
  with assms show "l = m" by (simp add: unsigned_ucast_eq take_bit_nat_eq_self word_unat_eq_iff)
qed simp

lemma limits_serviceable:
  assumes "within_limits h c" and "consistent c" and "h = set_host_limits h0" and "sh_hostt h0 = scsitap_host_template sg cl"
    and "unit_of (engine_at 6 v) (ucast (tk_lun t)) \<noteq> None"
  shows "serviceable v t c"
  using assms(1,2,5) unfolding host_limits(1) [OF assms(3,4)]
  by (auto simp: serviceable_def consistent_def whole_cdb_def BUFFER_SIZE_def)

lemma cmd_numbers_exact:
  assumes "session_ok s" and "length (ss_queue s) \<le> 8192"
  shows "unat (ss_cmd_numbers s) = length (ss_queue s)"
proof -
  have "ss_cmd_numbers s = of_nat (length (ss_queue s))"
    using session_okD(2) [OF assms(1)] by (simp add: queue_links_def)
  then show ?thesis using assms(2) by (simp add: unat_of_nat)
qed

text \<open>
  C7.  The limits the driver announces protect the target and its own counter.  When the commands that
  wait are within the limits of the host and consistent, and their units exist, no two units are
  confused by the target's narrowing of their numbers, and as many turns of the target's loop as
  \<open>cmd_numbers\<close> says answer every command, in the order they were queued, without fault.
\<close>

theorem host_limits_protect_target:
  assumes "server_ok v p s" and "slab_ok sl" and "h = set_host_limits h0" and "sh_hostt h0 = scsitap_host_template sg cl"
    and "length (ss_queue s) \<le> ht_can_queue (sh_hostt h)"
    and cmds: "\<forall>t\<in>set (ss_queue s). tk_flags t = SCSITAP_TASK_SUBMITTED \<and> tk_lun t = sc_device_lun (ss_cmnds s (tk_sc t))
        \<and> within_limits h (ss_cmnds s (tk_sc t)) \<and> consistent (ss_cmnds s (tk_sc t))
        \<and> unit_of (engine_at 6 v) (ucast (tk_lun t)) \<noteq> None"
  shows "(\<forall>t\<in>set (ss_queue s). \<forall>u\<in>set (ss_queue s). (ucast (tk_lun t) :: u8) = ucast (tk_lun u) \<longrightarrow> tk_lun t = tk_lun u)
    \<and> (\<exists>v' s'. server_loop sl sig stamp (unat (ss_cmd_numbers s)) v = Inr (Some v') \<and> server_ok v' p s' \<and> ss_queue s' = []
        \<and> map snd (ss_done s') = map snd (ss_done s) @ pending s)"
proof
  note limits = host_limits(1) [OF assms(3,4)]
  show "\<forall>t\<in>set (ss_queue s). \<forall>u\<in>set (ss_queue s). (ucast (tk_lun t) :: u8) = ucast (tk_lun u) \<longrightarrow> tk_lun t = tk_lun u"
  proof (intro ballI impI)
    fix t u assume tu: "t \<in> set (ss_queue s)" "u \<in> set (ss_queue s)" and eq: "(ucast (tk_lun t) :: u8) = ucast (tk_lun u)"
    have "unat (tk_lun w) < 256" if "w \<in> set (ss_queue s)" for w using cmds that limits by auto
    with narrow_lun eq tu show "tk_lun t = tk_lun u" by blast
  qed
  have "session_ok s" using assms(1) by (simp add: server_ok_def serving_def)
  then have n: "unat (ss_cmd_numbers s) = length (ss_queue s)"
    using assms(5) cmd_numbers_exact unfolding host_limits(2) [OF assms(3,4)] by blast
  have "\<forall>t\<in>set (ss_queue s). tk_flags t = SCSITAP_TASK_SUBMITTED \<and> serviceable v t (ss_cmnds s (tk_sc t))"
    using cmds limits_serviceable [OF _ _ assms(3,4)] by blast
  from queue_served_in_order [OF assms(1,2) this] n
  show "\<exists>v' s'. server_loop sl sig stamp (unat (ss_cmd_numbers s)) v = Inr (Some v') \<and> server_ok v' p s' \<and> ss_queue s' = []
      \<and> map snd (ss_done s') = map snd (ss_done s) @ pending s" by simp
qed

definition demo_host :: scsi_host where
  "demo_host = \<lparr>sh_hostt = scsitap_host_template 255 True, sh_max_id = 8, sh_max_lun = 8, sh_max_channel = 0, sh_max_cmd_len = 12\<rparr>"

theorem host_limits_protect_target_witness:
  "\<exists>v' s'. server_loop (demo_slab (\<lambda>f. f)) False ''t'' 1 (demo_server (demo_transfer (demo_cdb 0x2a 2 1) 512 DMA_TO_DEVICE)) = Inr (Some v')
     \<and> server_ok v' 1 s' \<and> ss_queue s' = [] \<and> map snd (ss_done s') = [5]"
proof -
  let ?c = "demo_transfer (demo_cdb 0x2a 2 1) 512 DMA_TO_DEVICE"
  have lun: "tk_lun (demo_task SCSITAP_TASK_SUBMITTED) = sc_device_lun ?c" "sc_device_lun ?c = 0" "sc_cmd_len ?c = 16"
      "sc_request_bufflen ?c = 512"
    by (simp_all add: demo_task_def demo_transfer_def demo_cmnd_def)
  have h: "sh_hostt demo_host = scsitap_host_template 255 True" by (simp add: demo_host_def)
  have "within_limits (set_host_limits demo_host) ?c" "consistent ?c"
    using lun by (simp_all add: host_limits(1) [OF refl h] consistent_def command_size_def demo_cdb_fields)
  moreover have "ht_can_queue (sh_hostt (set_host_limits demo_host)) = 8192"
    by (rule host_limits(2) [OF refl h])
  moreover have "ss_cmd_numbers (demo_waiting ?c) = 1" by (simp add: demo_waiting_def upd_cmnd_def demo_defs)
  ultimately show ?thesis
    using host_limits_protect_target [OF demo_server_ok demo_slab_ok refl h, of ?c False "''t''"] lun
    by (auto simp: demo_transfer_ok demo_server_engine)
qed

end
