(* ===== verification/Ledger.thy ===== *)
theory Ledger
  imports Driver "HOL-Library.Multiset"
begin

text \<open>
  The books of the driver: what becomes of every command that the mid layer hands over, in any run of
  the state machine of the theory \<open>Driver\<close>.
\<close>

section \<open>The books\<close>

text \<open>
  A command is named by the address of its session and its own.  \<open>account\<close> is what a session
  holds or has handed back through \<open>scsi_done\<close>, \<open>ledger\<close> the sum over all sessions, those
  that were removed included.
\<close>

type_synonym commands = "(nat \<times> nat) multiset"

definition held :: "scsitap_session \<Rightarrow> commands" where
  "held s = image_mset (Pair (ss_addr s)) (mset (pending s))"

definition called :: "scsitap_session \<Rightarrow> commands" where
  "called s = image_mset (Pair (ss_addr s)) (mset (map snd (ss_done s)))"

definition account :: "scsitap_session \<Rightarrow> commands" where
  "account s = held s + called s"

definition ledger :: "scsitap_sessions \<Rightarrow> commands" where
  "ledger D = sum_list (map account (sl_queue D)) + sum_list (map called (sl_removed D))"

definition all_held :: "driver \<Rightarrow> commands" where
  "all_held d = sum_list (map held (sl_queue (dr_sessions d)))"

definition all_called :: "driver \<Rightarrow> commands" where
  "all_called d = sum_list (map called (sl_queue (dr_sessions d) @ sl_removed (dr_sessions d)))"

text \<open>The commands an event hands to the driver, and those whose fate the error handler takes over.\<close>

fun accepted :: "event \<Rightarrow> driver \<Rightarrow> commands" where
  "accepted (Queue_command p sc c dn slot) d = (case session_at (dr_sessions d) p of
       None \<Rightarrow> {#}
     | Some s \<Rightarrow> if ss_flags s \<noteq> SCSITAP_CONNECTION_READY \<or> slot \<noteq> None then {#(p, sc)#} else {#})"
| "accepted e d = {#}"

fun given_up :: "event \<Rightarrow> driver \<Rightarrow> commands" where
  "given_up (Abort_command p sc) d = (case session_at (dr_sessions d) p of
       None \<Rightarrow> {#}
     | Some s \<Rightarrow> if sc \<in> set (pending s) then {#(p, sc)#} else {#})"
| "given_up (Reset_host p) d = (case session_at (dr_sessions d) p of None \<Rightarrow> {#} | Some s \<Rightarrow> held s)"
| "given_up e d = {#}"

primrec all_accepted :: "slab \<Rightarrow> event list \<Rightarrow> driver \<Rightarrow> commands" where
  "all_accepted sl [] d = {#}"
| "all_accepted sl (e # es) d = accepted e d + (case driver_exec sl e d of Inl f \<Rightarrow> {#} | Inr d' \<Rightarrow> all_accepted sl es d')"

primrec all_given_up :: "slab \<Rightarrow> event list \<Rightarrow> driver \<Rightarrow> commands" where
  "all_given_up sl [] d = {#}"
| "all_given_up sl (e # es) d = given_up e d + (case driver_exec sl e d of Inl f \<Rightarrow> {#} | Inr d' \<Rightarrow> all_given_up sl es d')"

section \<open>Handlers on one session balance\<close>

lemma account_simps [simp]:
  "account (s\<lparr>ss_queue_lock := b\<rparr>) = account s" "account (s\<lparr>ss_host_lock := b\<rparr>) = account s"
  "account (set_task_flags a f s) = account s" "account (upd_cmnd sc g s) = account s"
  "account (attach_client p arg s) = account s" "account (detach_client s) = account s"
  by (simp_all add: account_def held_def called_def set_task_flags_def upd_cmnd_def attach_client_def detach_client_def Let_def
      comp_def del: if_image_distrib)

lemma find_mset: "find (\<lambda>t. k t = a) q = Some u \<Longrightarrow> distinct (map k q) \<Longrightarrow> mset q = add_mset u (mset (filter (\<lambda>t. k t \<noteq> a) q))"
proof (induction q)
  case (Cons t q)
  show ?case
  proof (cases "k t = a")
    case True
    with Cons.prems have "\<forall>x\<in>set q. k x \<noteq> a" by (metis distinct.simps(2) image_eqI list.set_map list.simps(9))
    then have "filter (\<lambda>t. k t \<noteq> a) q = q" by (simp add: filter_id_conv)
    with True Cons.prems show ?thesis by simp
  qed (use Cons in simp)
qed simp

text \<open>A task that is completed moves from the queue to the log of callbacks.\<close>

lemma complete_account:
  assumes "scsitap_complete_task sl a s = Inr s'" and "slab_ok sl" and "distinct (map tk_addr (ss_queue s))"
    and "\<forall>t\<in>set (ss_queue s). tk_flags t \<noteq> SCSITAP_TASK_ABORTED"
  shows "account s' = account s"
proof -
  obtain u where u: "find (\<lambda>t. tk_addr t = a) (ss_queue s) = Some u"
    using assms(1) by (auto simp: scsitap_complete_task_def split: option.splits)
  have "held s = add_mset (ss_addr s, tk_sc u) (image_mset (Pair (ss_addr s)) (mset (map tk_sc (filter (\<lambda>t. tk_addr t \<noteq> a) (ss_queue s)))))"
    using arg_cong [OF find_mset [OF u assms(3)], of "image_mset (\<lambda>t. (ss_addr s, tk_sc t))"]
    by (simp add: held_def image_mset.compositionality comp_def)
  moreover have "tk_flags u \<noteq> SCSITAP_TASK_ABORTED" using assms(4) find_SomeD [OF u] by simp
  ultimately show ?thesis
    using assms(1,2) u
    by (auto simp: scsitap_complete_task_def call_scsi_done_def Let_def account_def called_def upd_cmnd_def split: option.splits)
      (simp add: held_def)
qed

lemma queue_inv_parts:
  assumes "queue_inv s"
  shows "distinct (map tk_addr (ss_queue s))" and "\<forall>t\<in>set (ss_queue s). tk_flags t \<noteq> SCSITAP_TASK_ABORTED"
  using assms by (auto simp: queue_inv_def queue_links_def live_flags_def c_consts)

lemma write_account:
  assumes "ctl_write sl n ub s = Inr (s', r)" and "queue_inv s" and "slab_ok sl"
  shows "account s' = account s"
proof -
  have q: "distinct (map tk_addr (ss_queue s))" "\<forall>t\<in>set (ss_queue s). tk_flags t \<noteq> SCSITAP_TASK_ABORTED"
    using queue_inv_parts [OF assms(2)] by auto
  have "account s1 = account s" if "scsitap_complete_task sl a (upd_cmnd c f (s\<lparr>ss_queue_lock := True\<rparr>)) = Inr s1" for a c f s1
    using complete_account [OF that assms(3)] q by simp
  with assms(1) show ?thesis
    by (auto simp: ctl_write_def ctl_write_D_def lock_defs and_then_Inr_iff Let_def split: if_splits option.splits prod.splits)
qed

lemma read_same:
  assumes "ctl_read sig fp n ub s = Inr (Some (s', ub', r))"
  shows "s' = s"
  using assms by (auto simp: ctl_read_def lock_defs and_then_Inr_iff split: if_splits)

lemma receive_account:
  assumes "ioctl_receive arg s = Inr (s', r)"
  shows "account s' = account s"
  using assms by (auto simp: ioctl_receive_def lock_defs and_then_Inr_iff split: if_splits option.splits)

lemma account_change:
  assumes "ss_addr s' = ss_addr s" and "ss_done s' = ss_done s"
  shows "account s' + held s = account s + held s'"
  using assms by (simp add: account_def called_def ac_simps)

lemma image_remove1: "x \<in> set xs \<Longrightarrow> image_mset f (mset (remove1 x xs)) + {#f x#} = image_mset f (mset xs)"
  by (metis add_mset_add_single image_mset_add_mset insert_DiffM mset_remove1 set_mset_mset)

lemma abort_account:
  assumes "scsitap_eh_abort sl sc s = Inr (s', r)" and "session_ok s" and "slab_ok sl"
  shows "account s' + (if sc \<in> set (pending s) then {#(ss_addr s, sc)#} else {#}) = account s"
proof -
  have s': "pending s' = remove1 sc (pending s)" "ss_done s' = ss_done s"
    using eh_abort_removes_fact [OF session_okD(5) [OF assms(2)] assms(3), of sc] assms(1) by auto
  have "ss_addr s' = ss_addr s" using eh_abort_identity [OF assms(1)] by (simp add: same_identity_def)
  then show ?thesis
    using image_remove1 [of sc "pending s" "Pair (ss_addr s)"]
    by (cases "sc \<in> set (pending s)") (simp_all only: account_def held_def called_def s' remove1_idem if_True if_False not_False_eq_True add_0_right, simp_all add: ac_simps)
qed

lemma reset_account:
  assumes "scsitap_eh_host_reset sl s = Inr (s', r)" and "session_ok s" and "slab_ok sl"
  shows "account s' + held s = account s"
proof -
  have s': "ss_queue s' = []" "ss_done s' = ss_done s"
    using host_reset_drains_fact [OF session_okD(5) [OF assms(2)] assms(3)] assms(1) by auto
  have "ss_addr s' = ss_addr s" using host_reset_identity [OF assms(1)] by (simp add: same_identity_def)
  with s' show ?thesis by (simp add: account_def held_def called_def ac_simps)
qed

lemma queuecommand_account:
  assumes "scsitap_queuecommand slot sc dn (upd_cmnd sc (\<lambda>_. c) s) = Inr (s', r)"
  shows "account s' = account s + (if ss_flags s \<noteq> SCSITAP_CONNECTION_READY \<or> slot \<noteq> None then {#(ss_addr s, sc)#} else {#})"
  using assms
  by (auto simp: scsitap_queuecommand_def scsitap_alloc_task_def lock_defs and_then_Inr_iff Let_def queue_task_def upd_cmnd_def
      account_def held_def called_def split: if_splits option.splits)

lemma finish_each_account:
  assumes "finish_each sl as s = Inr s'" and "slab_ok sl" and "distinct (map tk_addr (ss_queue s))"
    and "\<forall>t\<in>set (ss_queue s). tk_flags t \<noteq> SCSITAP_TASK_ABORTED"
  shows "account s' = account s"
  using assms
proof (induction as arbitrary: s)
  case (Cons a as)
  then obtain t s1 where t: "find (\<lambda>t. tk_addr t = a) (ss_queue s) = Some t"
      and s1: "scsitap_complete_task sl a (upd_cmnd (tk_sc t) not_connected s) = Inr s1" "finish_each sl as s1 = Inr s'"
    by (auto simp: and_then_Inr_iff not_connected_def [abs_def] split: option.splits)
  have "ss_queue s1 = filter (\<lambda>u. tk_addr u \<noteq> a) (ss_queue s)"
    using s1(1) by (auto simp: scsitap_complete_task_def call_scsi_done_def Let_def upd_cmnd_def split: option.splits if_splits)
  then have "account s' = account s1"
    by (intro Cons.IH [OF s1(2) Cons.prems(2)]) (use Cons.prems(3,4) in \<open>auto simp: distinct_map_filter\<close>)
  moreover have "account s1 = account s"
    using complete_account [OF s1(1) Cons.prems(2)] Cons.prems(3,4) by simp
  ultimately show ?case by simp
qed simp

section \<open>Every event balances\<close>

lemma sum_list_replace:
  assumes "distinct (map k q)" and "s \<in> set q" and "k s' = k s"
  shows "sum_list (map f (map (\<lambda>t. if k t = k s' then s' else t) q)) + f s = sum_list (map f q) + (f s' :: commands)"
  using assms
proof (induction q)
  case (Cons t q)
  show ?case
  proof (cases "k t = k s")
    case True
    then have "s = t" using Cons.prems(1,2) by (auto simp: image_iff)
    moreover have "map (\<lambda>t. if k t = k s' then s' else t) q = q"
      using Cons.prems(1,3) True by (intro map_idI) (auto simp: image_iff)
    ultimately show ?thesis using Cons.prems(3) by (simp add: ac_simps)
  next
    case False
    with Cons show ?thesis by (auto simp: ac_simps)
  qed
qed simp

lemma sum_list_find:
  assumes "find (\<lambda>t. k t = a) q = Some u" and "distinct (map k q)"
  shows "sum_list (map f q) = (f u :: commands) + sum_list (map f (filter (\<lambda>t. k t \<noteq> a) q))"
proof -
  have sum: "sum_list (map f xs) = sum_mset (image_mset f (mset xs))" for xs
    by (metis mset_map sum_mset_sum_list)
  show ?thesis
    unfolding sum using arg_cong [OF find_mset [OF assms], of "\<lambda>M. sum_mset (image_mset f M)"] by simp
qed

lemma put_ledger:
  assumes "session_at D p = Some s" and "distinct (map ss_addr (sl_queue D))" and "ss_addr s' = p"
  shows "ledger (put_session s' D) + account s = ledger D + account s'"
proof -
  have s: "s \<in> set (sl_queue D)" "ss_addr s = p" using assms(1) by (auto simp: session_at_def dest: find_SomeD)
  have "sl_removed (put_session s' D) = sl_removed D" by (simp add: put_session_def)
  then show ?thesis
    using sum_list_replace [OF assms(2) s(1), of s' account] assms(3) s(2)
    by (simp add: ledger_def put_session_def ac_simps)
qed

lemma balance_trans:
  fixes x y u v g a :: commands
  assumes "x + u = y + v" and "v + g = u + a"
  shows "x + g = y + a"
proof -
  have "x + g + u = (x + u) + g" by (simp add: ac_simps)
  also have "\<dots> = (y + v) + g" by (simp only: assms(1))
  also have "\<dots> = y + (v + g)" by (simp add: ac_simps)
  also have "\<dots> = y + (u + a)" by (simp only: assms(2))
  also have "\<dots> = y + a + u" by (simp add: ac_simps)
  finally show ?thesis by simp
qed

text \<open>A handler on one session: its balance is the driver's.\<close>

lemma at_session_ledger:
  assumes "with_sessions (at_session p h) d = Inr d'" and "driver_ok d"
    and "\<And>s s' r. session_at (dr_sessions d) p = Some s \<Longrightarrow> session_ok s \<Longrightarrow> ss_addr s = p \<Longrightarrow> h s = Inr (s', r) \<Longrightarrow>
      ss_addr s' = p \<and> account s' + g = account s + a"
  shows "ledger (dr_sessions d') + g = ledger (dr_sessions d) + a"
proof -
  obtain s s' r where s: "session_at (dr_sessions d) p = Some s" "h s = Inr (s', r)" "dr_sessions d' = put_session s' (dr_sessions d)"
    using assms(1) by (auto simp: with_sessions_def at_session_def and_then_Inr_iff split: option.splits)
  note sd = driver_okD [OF assms(2) s(1)]
  have bal: "ss_addr s' = p" "account s' + g = account s + a" using assms(3) [OF s(1) sd(2,3) s(2)] by auto
  have "ledger (dr_sessions d') + account s = ledger (dr_sessions d) + account s'"
    using put_ledger [OF s(1) _ bal(1)] assms(2) s(3) by (simp add: driver_ok_def)
  from balance_trans [OF this bal(2)] show ?thesis .
qed

lemma ledger_simps [simp]:
  "ledger (D\<lparr>sl_lock := b\<rparr>) = ledger D" "ledger (spin_unlock_sessions D) = ledger D"
  "ledger (D\<lparr>sl_work := w\<rparr>) = ledger D" "ledger (D\<lparr>sl_work_pending := b\<rparr>) = ledger D" "ledger (D\<lparr>sl_scans := x\<rparr>) = ledger D"
  by (simp_all add: ledger_def spin_unlock_sessions_def)

lemma attach_ledger:
  assumes "session_at D p = Some s" and "distinct (map ss_addr (sl_queue D))"
  shows "ledger (put_session (attach_client p arg s) D) = ledger D"
proof -
  have "ss_addr (attach_client p arg s) = p"
    using assms(1) by (auto simp: attach_client_def session_at_def dest: find_SomeD)
  from put_ledger [OF assms this] show ?thesis by simp
qed

lemma create_ledger:
  assumes "scsitap_create_session host rc cb m D = (D', sp)" and "distinct (map ss_addr (sl_queue D))"
    and "\<And>p. host = Some p \<Longrightarrow> session_at D p = None"
  shows "ledger D' = ledger D" and "distinct (map ss_addr (sl_queue D'))"
proof -
  have "account (new_session p m cb) = {#}" for p by (simp add: account_def held_def called_def new_session_def)
  then show "ledger D' = ledger D"
    using assms(1) by (auto simp: scsitap_create_session_def ledger_def split: option.splits if_splits)
  show "distinct (map ss_addr (sl_queue D'))"
    using assms by (auto simp: scsitap_create_session_def session_at_None new_session_def split: option.splits if_splits)
qed

lemma register_ledger:
  assumes "ioctl_register host rc cb f arg D = Inr (D', f', r)" and "distinct (map ss_addr (sl_queue D))"
    and "\<And>p. host = Some p \<Longrightarrow> session_at D p = None"
  shows "ledger D' = ledger D"
proof -
  let ?L = "D\<lparr>sl_lock := True\<rparr>"
  define R where "R = (case scsitap_get_session ?L (fl_minor f) of Some s \<Rightarrow> (?L, Some (ss_addr s))
     | None \<Rightarrow> scsitap_create_session host rc cb (fl_minor f) ?L)"
  obtain D2 sp where R: "R = (D2, sp)" by fastforce
  have at: "session_at ?L p = session_at D p" for p by (simp add: session_at_def)
  have D2: "ledger D2 = ledger D \<and> distinct (map ss_addr (sl_queue D2))"
  proof (cases "scsitap_get_session ?L (fl_minor f)")
    case None
    then have "scsitap_create_session host rc cb (fl_minor f) ?L = (D2, sp)" using R by (simp add: R_def)
    from create_ledger [OF this] assms(2,3) at show ?thesis by simp
  next
    case (Some s)
    then show ?thesis using R assms(2) by (auto simp: R_def)
  qed
  have "ledger D' = ledger D2"
  proof (cases sp)
    case None
    then show ?thesis using assms(1) R by (auto simp: ioctl_register_def R_def [symmetric] spin_lock_sessions_def Let_def split: if_splits)
  next
    case (Some p)
    then obtain s where s: "session_at D2 p = Some s"
      using assms(1) R by (auto simp: ioctl_register_def R_def [symmetric] spin_lock_sessions_def Let_def split: if_splits option.splits)
    have "session_at (D2\<lparr>sl_work := w, sl_work_pending := b\<rparr>) p = Some s" for w b using s by (simp add: session_at_def)
    with attach_ledger [OF _ _, of _ p s arg] s D2 show ?thesis
      using assms(1) R Some
      by (auto simp: ioctl_register_def R_def [symmetric] spin_lock_sessions_def Let_def split: if_splits)
  qed
  with D2 show ?thesis by simp
qed

lemma destroy_ledger:
  assumes "scsitap_destroy_session sl p D = Inr (D', r)" and "distinct (map ss_addr (sl_queue D))"
    and "\<And>s. session_at D p = Some s \<Longrightarrow> session_ok s" and "slab_ok sl"
  shows "ledger D' = ledger D"
proof -
  obtain s where s: "session_at D p = Some s"
    using assms(1) by (auto simp: scsitap_destroy_session_def split: option.splits)
  show ?thesis
  proof (cases "ss_Device_Open s = 0")
    case False
    with assms(1) s show ?thesis by (simp add: scsitap_destroy_session_def)
  next
    case True
    note ok = assms(3) [OF s]
    obtain s2 where s2: "finish_each sl (map tk_addr (ss_queue s)) (s\<lparr>ss_queue_lock := True\<rparr>) = Inr s2"
        "D' = D\<lparr>sl_queue := filter (\<lambda>t. ss_addr t \<noteq> p) (sl_queue D), sl_last_id := sl_last_id D - 1,
           sl_removed := sl_removed D @ [spin_unlock_queue s2]\<rparr>"
      using assms(1) s True lock_unlock(1) [OF ok] by (auto simp: scsitap_destroy_session_def and_then_Inr_iff)
    have "account s2 = account s"
      using finish_each_account [OF s2(1) assms(4)] queue_inv_parts [OF session_okD(1) [OF ok]] by simp
    moreover have "queue_inv (s\<lparr>ss_queue_lock := True\<rparr>)" using session_okD(1) [OF ok] by (simp add: queue_inv_def)
    then have "ss_queue s2 = []" using finish_each_ok [OF _ assms(4), of "s\<lparr>ss_queue_lock := True\<rparr>"] s2(1) by auto
    ultimately have "called (spin_unlock_queue s2) = account s"
      by (simp add: account_def held_def) (simp add: called_def spin_unlock_queue_def)
    moreover have "sum_list (map account (sl_queue D)) = account s + sum_list (map account (filter (\<lambda>t. ss_addr t \<noteq> p) (sl_queue D)))"
      by (rule sum_list_find [OF _ assms(2)]) (use s in \<open>simp add: session_at_def\<close>)
    ultimately show ?thesis unfolding s2(2) ledger_def by (simp add: ac_simps)
  qed
qed

lemma unregister_ledger:
  assumes "ioctl_unregister sl f D = Inr (D', f', r)" and "distinct (map ss_addr (sl_queue D))"
    and "\<And>p s. session_at D p = Some s \<Longrightarrow> session_ok s" and "slab_ok sl"
  shows "ledger D' = ledger D"
proof -
  have "ledger E = ledger D" if "scsitap_destroy_session sl p (D\<lparr>sl_lock := True\<rparr>) = Inr (E, x)" for p E x
  proof -
    have "session_at (D\<lparr>sl_lock := True\<rparr>) p = session_at D p" by (simp add: session_at_def)
    with destroy_ledger [OF that _ _ assms(4)] assms(2,3) show ?thesis by simp
  qed
  with assms(1) show ?thesis
    by (auto simp: ioctl_unregister_def spin_lock_sessions_def and_then_Inr_iff split: if_splits option.splits)
qed

lemma ioctl_ledger:
  assumes "ioctl_on sl host rc cb fd cmd arg d = Inr d'" and "driver_ok d" and "slab_ok sl"
    and "\<And>p. host = Some p \<Longrightarrow> session_at (dr_sessions d) p = None"
  shows "ledger (dr_sessions d') = ledger (dr_sessions d)"
proof (cases "dr_files d fd")
  case None
  with assms(1) show ?thesis by (simp add: ioctl_on_def)
next
  case (Some f)
  let ?D = "dr_sessions d"
  have dist: "distinct (map ss_addr (sl_queue ?D))" using assms(2) by (simp add: driver_ok_def)
  obtain E f' r where E: "scsitap_ctl_ioctl sl host rc cb f cmd arg ?D = Inr (E, f', r)" "dr_sessions d' = E"
    using assms(1) Some by (auto simp: ioctl_on_def and_then_Inr_iff)
  have receive: "ledger E = ledger ?D" if "at_session p (ioctl_receive arg) ?D = Inr (E, r)" for p
  proof -
    have "with_sessions (at_session p (ioctl_receive arg)) d = Inr (d\<lparr>dr_sessions := E\<rparr>)"
      using that by (simp add: with_sessions_def)
    from at_session_ledger [OF this assms(2), of "{#}" "{#}"] show ?thesis
      using receive_account receive_identity by (fastforce simp: same_identity_def)
  qed
  consider "ioctl_register host rc cb f arg ?D = Inr (E, f', r)" | p where "at_session p (ioctl_receive arg) ?D = Inr (E, r)"
    | "ioctl_unregister sl f ?D = Inr (E, f', r)" | "E = ?D"
    using E(1) by (auto simp: scsitap_ctl_ioctl_def and_then_Inr_iff split: if_splits option.splits)
  then show ?thesis
  proof cases
    case 1
    from register_ledger [OF this dist assms(4)] show ?thesis by (simp add: E(2))
  next
    case 2
    then show ?thesis using receive E(2) by blast
  next
    case 3
    from unregister_ledger [OF this dist _ assms(3)] driver_okD(2) [OF assms(2)] show ?thesis by (simp add: E(2))
  next
    case 4
    then show ?thesis using E(2) by simp
  qed
qed

lemma event_balance:
  assumes "driver_exec sl e d = Inr d'" and "driver_ok d" and "slab_ok sl" and "allowed d e"
  shows "ledger (dr_sessions d') + given_up e d = ledger (dr_sessions d) + accepted e d"
proof (cases e)
  case (Open_ctl fd minor)
  with assms(1) show ?thesis by auto
next
  case (Register fd arg host rc cb)
  with assms(4) have "host = Some p \<Longrightarrow> session_at (dr_sessions d) p = None" for p by simp
  with ioctl_ledger [OF _ assms(2,3)] assms(1) Register show ?thesis by simp
next
  case (Receive_task fd arg)
  with ioctl_ledger [where host = None, OF _ assms(2,3)] assms(1) show ?thesis by auto
next
  case (Set_task fd arg)
  with ioctl_ledger [where host = None, OF _ assms(2,3)] assms(1) show ?thesis by auto
next
  case (Unregister fd)
  with ioctl_ledger [where host = None, OF _ assms(2,3)] assms(1) show ?thesis by auto
next
  case (Read_ctl fd sig n ub)
  have "ledger (put_session s (dr_sessions d)) = ledger (dr_sessions d)" if "session_at (dr_sessions d) p = Some s" for p s
    using put_ledger [OF that, of s] driver_okD(3) [OF assms(2) that] assms(2) by (simp add: driver_ok_def)
  with Read_ctl assms(1,2) show ?thesis
    by (auto simp: scsitap_ctl_read_def and_then_Inr_iff split: option.splits dest!: read_same)
next
  case (Write_ctl fd n ub)
  show ?thesis
  proof (cases "dr_files d fd")
    case (Some f)
    show ?thesis
    proof (cases "fl_private f")
      case None
      with Some Write_ctl assms(1) show ?thesis by (auto simp: with_sessions_def scsitap_ctl_write_def)
    next
      case priv: (Some p)
      then have run: "with_sessions (at_session p (ctl_write sl n ub)) d = Inr d'"
        using Some Write_ctl assms(1) by (simp add: with_sessions_def scsitap_ctl_write_def)
      have "ledger (dr_sessions d') + {#} = ledger (dr_sessions d) + {#}"
        by (rule at_session_ledger [OF run assms(2)])
          (use write_account [OF _ session_okD(1) assms(3)] write_identity in \<open>auto simp: same_identity_def\<close>)
      with Write_ctl show ?thesis by simp
    qed
  qed (use Write_ctl assms(1) in simp)
next
  case (Close_ctl fd)
  show ?thesis
  proof (cases "dr_files d fd")
    case (Some f)
    have dist: "distinct (map ss_addr (sl_queue (dr_sessions d)))" using assms(2) by (simp add: driver_ok_def)
    have "ledger (put_session (detach_client s) ((dr_sessions d)\<lparr>sl_lock := True\<rparr>)) = ledger (dr_sessions d)"
      if s: "session_at (dr_sessions d) p = Some s" for p s
    proof -
      have "ss_addr (detach_client s) = p" using driver_okD(3) [OF assms(2) s] by (simp add: detach_sel)
      moreover have "session_at ((dr_sessions d)\<lparr>sl_lock := True\<rparr>) p = Some s" using s by (simp add: session_at_def)
      ultimately show ?thesis using put_ledger [of "(dr_sessions d)\<lparr>sl_lock := True\<rparr>" p s "detach_client s"] dist by simp
    qed
    with Some Close_ctl assms(1) show ?thesis
      by (auto simp: with_sessions_def scsitap_ctl_release_def and_then_Inr_iff spin_lock_sessions_def at_session_def
          session_at_def split: option.splits if_splits)
  qed (use Close_ctl assms(1) in simp)
next
  case (Queue_command p sc c dn slot)
  obtain s where s: "session_at (dr_sessions d) p = Some s" using assms(4) Queue_command by auto
  have run: "with_sessions (at_session p (\<lambda>s. scsitap_queuecommand slot sc dn (upd_cmnd sc (\<lambda>_. c) s))) d = Inr d'"
    using assms(1) Queue_command by simp
  have "ledger (dr_sessions d') + {#} = ledger (dr_sessions d) + accepted e d"
    by (rule at_session_ledger [OF run assms(2)])
      (use Queue_command queuecommand_account queuecommand_identity in \<open>fastforce simp: same_identity_def\<close>)
  with Queue_command show ?thesis by simp
next
  case (Abort_command p sc)
  have run: "with_sessions (at_session p (scsitap_eh_abort sl sc)) d = Inr d'"
    using assms(1) Abort_command by simp
  have "ledger (dr_sessions d') + given_up e d = ledger (dr_sessions d) + {#}"
    by (rule at_session_ledger [OF run assms(2)])
      (use Abort_command abort_account [OF _ _ assms(3)] eh_abort_identity in \<open>fastforce simp: same_identity_def\<close>)
  with Abort_command show ?thesis by simp
next
  case (Reset_host p)
  have run: "with_sessions (at_session p (scsitap_eh_host_reset sl)) d = Inr d'"
    using assms(1) Reset_host by simp
  have "ledger (dr_sessions d') + given_up e d = ledger (dr_sessions d) + {#}"
    by (rule at_session_ledger [OF run assms(2)])
      (use Reset_host reset_account [OF _ _ assms(3)] host_reset_identity in \<open>fastforce simp: same_identity_def\<close>)
  with Reset_host show ?thesis by simp
next
  case Run_scan
  with assms(1) show ?thesis by (auto simp: scsitap_scan_hba_def and_then_Inr_iff split: option.splits)
qed

lemma balance_seq:
  fixes x y z g h a b :: commands
  assumes "x + h = y + b" and "y + g = z + a"
  shows "x + (g + h) = z + (a + b)"
proof -
  have "x + (g + h) = (x + h) + g" by (simp add: ac_simps)
  also have "\<dots> = (y + b) + g" by (simp only: assms(1))
  also have "\<dots> = (y + g) + b" by (simp add: ac_simps)
  also have "\<dots> = (z + a) + b" by (simp only: assms(2))
  finally show ?thesis by (simp add: ac_simps)
qed

lemma run_balance:
  assumes "driver_ok d" and "slab_ok sl" and "allowed_run (driver_exec sl) allowed es d"
  shows "\<exists>d'. run_events (driver_exec sl) es d = Inr d' \<and> driver_ok d'
    \<and> ledger (dr_sessions d') + all_given_up sl es d = ledger (dr_sessions d) + all_accepted sl es d"
  using assms(1,3)
proof (induction es arbitrary: d)
  case (Cons e es)
  obtain d1 where d1: "driver_exec sl e d = Inr d1" "driver_ok d1"
    using driver_progress [OF Cons.prems(1)] assms(2) Cons.prems(2) by fastforce
  have "allowed_run (driver_exec sl) allowed es d1" using Cons.prems(2) d1(1) by simp
  from Cons.IH [OF d1(2) this] obtain d' where d': "run_events (driver_exec sl) es d1 = Inr d'" "driver_ok d'"
      "ledger (dr_sessions d') + all_given_up sl es d1 = ledger (dr_sessions d1) + all_accepted sl es d1" by blast
  have "ledger (dr_sessions d1) + given_up e d = ledger (dr_sessions d) + accepted e d"
    by (rule event_balance [OF d1(1) Cons.prems(1) assms(2)]) (use Cons.prems(2) in simp)
  from balance_seq [OF d'(3) this] d' d1(1) show ?case by auto
qed simp

lemma split_ledger: "ledger (dr_sessions d) = all_held d + all_called d"
  by (simp add: ledger_def all_held_def all_called_def account_def [abs_def] sum_list_addf ac_simps)

text \<open>
  C13.  No command is lost and none is finished twice.  After any allowed run of the driver, the
  commands it accepted are exactly, with multiplicity, the ones the listed sessions still hold, the
  ones handed back through their callback, and the ones the error handler took over.
\<close>

theorem every_command_accounted:
  assumes "slab_ok sl" and "allowed_run (driver_exec sl) allowed es driver_init"
  shows "\<exists>d. run_events (driver_exec sl) es driver_init = Inr d
    \<and> all_held d + all_called d + all_given_up sl es driver_init = all_accepted sl es driver_init"
proof -
  obtain d where "run_events (driver_exec sl) es driver_init = Inr d"
      "ledger (dr_sessions d) + all_given_up sl es driver_init = ledger (dr_sessions driver_init) + all_accepted sl es driver_init"
    using run_balance [OF driver_init_ok assms] by blast
  moreover have "ledger (dr_sessions driver_init) = {#}" by (simp add: ledger_def driver_init_def no_sessions_def)
  ultimately show ?thesis by (simp add: split_ledger)
qed

theorem every_command_accounted_witness:
  "\<exists>d. run_events (driver_exec (demo_slab (\<lambda>f. f)))
       [Open_ctl 0 4, Register 0 9 (Some 1) 0 (\<lambda>_. demo_cmnd None), Queue_command 1 5 (demo_cmnd None) 3 (Some 7)] driver_init = Inr d
     \<and> all_held d + all_called d = {#(1, 5)#}"
proof -
  let ?sl = "demo_slab (\<lambda>f. f)"
  let ?es = "[Open_ctl 0 4, Register 0 9 (Some 1) 0 (\<lambda>_. demo_cmnd None), Queue_command 1 5 (demo_cmnd None) 3 (Some 7)]"
  have wf: "wf_cmnd (demo_cmnd None)" "sc_SCp_ptr (demo_cmnd None) = None"
    by (simp_all add: wf_cmnd_def demo_cmnd_def cmnd_data_def c_consts)
  note defs = driver_init_def no_sessions_def ioctl_on_def scsitap_ctl_ioctl_def ioctl_register_def scsitap_create_session_def
    scsitap_get_session_def session_at_def spin_lock_sessions_def spin_unlock_sessions_def put_session_def attach_client_def
    new_session_def scsitap_ctl_open_def c_consts
  have "allowed_run (driver_exec ?sl) allowed ?es driver_init"
    using wf by (simp add: defs split: sum.splits)
  from every_command_accounted [OF demo_slab_ok this] show ?thesis
    by (simp add: defs split: sum.splits)
qed
end
