(* ===== verification/Module_Life.thy ===== *)
theory Module_Life
  imports Ledger
begin

text \<open>
  The life of the kernel module: \<open>insmod\<close>, the events of the driver, \<open>rmmod\<close>.  The slab cache,
  the registered device number and the driver's state come and go together.
\<close>

section \<open>The module's globals\<close>

text \<open>
  \<open>mo_cache\<close> says that \<open>scsitap_task_cache\<close> exists, \<open>mo_chrdevs\<close> is the kernel's table of
  character devices, by major number, \<open>mo_driver\<close> the state of a loaded module.
\<close>

record kmodule =
  mo_cache :: bool
  mo_control_major :: int
  mo_chrdevs :: "int \<Rightarrow> string option"
  mo_driver :: "driver option"

definition control_name :: string where
  "control_name = ''vscsihba''"

definition scsitap_unregister_interface :: "kmodule \<Rightarrow> kmodule" where
  "scsitap_unregister_interface m = m\<lparr>mo_chrdevs := (mo_chrdevs m)(mo_control_major m := None)\<rparr>"

text \<open>
  \<open>cache\<close> says whether \<open>kmem_cache_create\<close> succeeds, \<open>major\<close> is what \<open>register_chrdev\<close>
  returns: the number it has registered, or an error.
\<close>

definition insmod :: "bool \<Rightarrow> int \<Rightarrow> kmodule \<Rightarrow> kmodule \<times> int" where
  "insmod cache major m =
     (let registered = (if cache \<and> 0 \<le> major then (mo_chrdevs m)(major \<mapsto> control_name) else mo_chrdevs m);
          control = (if cache then major else mo_control_major m)
      in case scsitap_init cache major of
           (None, rc) \<Rightarrow> (m\<lparr>mo_cache := False, mo_control_major := control, mo_chrdevs := registered, mo_driver := None\<rparr>, rc)
         | (Some ss, rc) \<Rightarrow> (m\<lparr>mo_cache := True, mo_control_major := control, mo_chrdevs := registered,
                            mo_driver := Some \<lparr>dr_sessions = ss, dr_files = (\<lambda>_. None)\<rparr>\<rparr>, rc))"

text \<open>An event of the loaded driver; the exit function, whose result is what the sessions ended as.\<close>

definition in_module :: "slab \<Rightarrow> event \<Rightarrow> kmodule \<Rightarrow> kmodule res" where
  "in_module sl e m = (case mo_driver m of
       None \<Rightarrow> Inl Use_after_free
     | Some d \<Rightarrow> and_then (driver_exec sl e d) (\<lambda>d'. Inr (m\<lparr>mo_driver := Some d'\<rparr>)))"

definition rmmod :: "slab \<Rightarrow> kmodule \<Rightarrow> (kmodule \<times> scsitap_sessions) res" where
  "rmmod sl m = (case mo_driver m of
       None \<Rightarrow> Inl Use_after_free
     | Some d \<Rightarrow> and_then (scsitap_cleanup sl (dr_sessions d)) (\<lambda>ss.
         Inr (scsitap_unregister_interface (m\<lparr>mo_cache := False, mo_driver := None\<rparr>), ss)))"

section \<open>Loading and running\<close>

lemma insmod_ok:
  assumes "0 < major"
  shows "insmod True major m = (m\<lparr>mo_cache := True, mo_control_major := major, mo_chrdevs := (mo_chrdevs m)(major \<mapsto> control_name),
    mo_driver := Some driver_init\<rparr>, 0)"
  using assms by (simp add: insmod_def scsitap_init_def scsitap_register_interface_def driver_init_def Let_def)

lemma in_module_run:
  assumes "run_events (driver_exec sl) es d = Inr d'" and "mo_driver m = Some d"
  shows "run_events (in_module sl) es m = Inr (m\<lparr>mo_driver := Some d'\<rparr>)"
  using assms
proof (induction es arbitrary: d m)
  case Nil
  then show ?case by simp
next
  case (Cons e es)
  then obtain d1 where "driver_exec sl e d = Inr d1" "run_events (driver_exec sl) es d1 = Inr d'"
    by (auto simp: and_then_Inr_iff)
  with Cons.IH [of d1 "m\<lparr>mo_driver := Some d1\<rparr>"] Cons.prems(2) show ?case by (simp add: in_module_def)
qed

section \<open>Unloading\<close>

text \<open>What the removal of a session that holds nothing leaves: the session, unlocked, on the list of the removed.\<close>

lemma destroy_idle:
  assumes "session_at D p = Some s" and "session_ok s" and "ss_Device_Open s = 0" and "ss_queue s = []"
  shows "scsitap_destroy_session sl p D = Inr (D\<lparr>sl_queue := filter (\<lambda>t. ss_addr t \<noteq> p) (sl_queue D),
    sl_last_id := sl_last_id D - 1, sl_removed := sl_removed D @ [s]\<rparr>, 0)"
  using assms lock_unlock [OF assms(2)] by (simp add: scsitap_destroy_session_def)

lemma destroy_each_idle:
  assumes "distinct (map ss_addr (sl_queue D))"
    and "\<forall>s\<in>set (sl_queue D). session_ok s \<and> ss_Device_Open s = 0 \<and> ss_queue s = []"
  shows "\<exists>D'. destroy_each sl (map ss_addr (sl_queue D)) D = Inr D' \<and> sl_queue D' = []
    \<and> sl_removed D' = sl_removed D @ sl_queue D \<and> sl_lock D' = sl_lock D"
  using assms
proof (induction "sl_queue D" arbitrary: D)
  case Nil
  then show ?case by (intro exI [of _ D]) (simp flip: Nil.hyps)
next
  case (Cons s q)
  have q: "sl_queue D = s # q" using Cons.hyps(2) by simp
  have at: "session_at D (ss_addr s) = Some s" using q by (simp add: session_at_def)
  let ?D = "D\<lparr>sl_queue := q, sl_last_id := sl_last_id D - 1, sl_removed := sl_removed D @ [s]\<rparr>"
  have "ss_addr s \<notin> ss_addr ` set q" using Cons.prems(1) q by simp
  then have "filter (\<lambda>t. ss_addr t \<noteq> ss_addr s) q = q" by (intro filter_True ballI) (metis imageI)
  then have one: "scsitap_destroy_session sl (ss_addr s) D = Inr (?D, 0)"
    using destroy_idle [OF at, of sl] Cons.prems(2) q by simp
  from Cons.hyps(1) [of ?D] Cons.prems q obtain D' where
    "destroy_each sl (map ss_addr q) ?D = Inr D'" "sl_queue D' = []" "sl_removed D' = sl_removed D @ s # q" "sl_lock D' = sl_lock D"
    by auto
  with one q show ?case by simp
qed

lemma cleanup_idle:
  assumes "driver_ok d" and "\<forall>fd. dr_files d fd = None" and "\<forall>s\<in>set (sl_queue (dr_sessions d)). ss_queue s = []"
  shows "\<exists>ss. scsitap_cleanup sl (dr_sessions d) = Inr ss \<and> sl_queue ss = [] \<and> \<not> sl_lock ss
    \<and> sl_removed ss = sl_removed (dr_sessions d) @ sl_queue (dr_sessions d)"
proof -
  let ?D = "(dr_sessions d)\<lparr>sl_lock := True\<rparr>"
  have "session_ok s \<and> ss_Device_Open s = 0" if "s \<in> set (sl_queue (dr_sessions d))" for s
  proof -
    have "session_inv d s" using assms(1) that by (simp add: driver_ok_def)
    moreover have "clients d (ss_addr s) = {}" using assms(2) by (simp add: clients_def)
    ultimately show ?thesis by (simp add: session_inv_def unat_eq_0)
  qed
  moreover have "distinct (map ss_addr (sl_queue ?D))" using assms(1) by (simp add: driver_ok_def)
  ultimately obtain D' where "destroy_each (sl\<lparr>slab_alive := False\<rparr>) (map ss_addr (sl_queue ?D)) ?D = Inr D'" "sl_queue D' = []"
      "sl_removed D' = sl_removed ?D @ sl_queue ?D"
    using destroy_each_idle [of ?D "sl\<lparr>slab_alive := False\<rparr>"] assms(3) by auto
  moreover have "\<not> sl_lock (dr_sessions d)" using assms(1) by (simp add: driver_ok_def)
  ultimately show ?thesis
    by (intro exI [of _ "spin_unlock_sessions D'"])
      (simp add: scsitap_cleanup_def spin_lock_sessions_def spin_unlock_sessions_def Let_def)
qed

text \<open>
  C14.  The life of the module.  Loaded, run through any events its surroundings allow and unloaded
  when no file is open and no command is queued, no session, no slab cache, no driver state
  and no device number of it is left (a scan that is still scheduled then is not looked at).  Every command it ever accepted was called back exactly once or was
  taken over by the error handler.
\<close>

theorem module_leaves_nothing:
  assumes "slab_ok sl" and "0 < major" and "mo_chrdevs m major = None" and "allowed_run (driver_exec sl) allowed es driver_init"
    and "run_events (driver_exec sl) es driver_init = Inr d" and "\<forall>fd. dr_files d fd = None"
    and "\<forall>s\<in>set (sl_queue (dr_sessions d)). ss_queue s = []"
  shows "\<exists>m1 m2 m3 ss. insmod True major m = (m1, 0) \<and> run_events (in_module sl) es m1 = Inr m2 \<and> rmmod sl m2 = Inr (m3, ss)
    \<and> mo_chrdevs m3 = mo_chrdevs m \<and> \<not> mo_cache m3 \<and> mo_driver m3 = None \<and> sl_queue ss = []
    \<and> sum_list (map called (sl_removed ss)) + all_given_up sl es driver_init = all_accepted sl es driver_init"
proof -
  obtain m1 where m1: "insmod True major m = (m1, 0)" "mo_driver m1 = Some driver_init" "mo_control_major m1 = major"
      "mo_chrdevs m1 = (mo_chrdevs m)(major \<mapsto> control_name)"
    using insmod_ok [OF assms(2), of m] by simp
  let ?m2 = "m1\<lparr>mo_driver := Some d\<rparr>"
  have ok: "driver_ok d" and ledger: "ledger (dr_sessions d) + all_given_up sl es driver_init = all_accepted sl es driver_init"
    using run_balance [OF driver_init_ok assms(1,4)] assms(5) by (auto simp: ledger_def driver_init_def no_sessions_def)
  obtain ss where ss: "scsitap_cleanup sl (dr_sessions d) = Inr ss" "sl_queue ss = []"
      "sl_removed ss = sl_removed (dr_sessions d) @ sl_queue (dr_sessions d)"
    using cleanup_idle [OF ok assms(6,7)] by blast
  have "account s = called s" if "s \<in> set (sl_queue (dr_sessions d))" for s
    using assms(7) that by (simp add: account_def held_def)
  then have eq: "map account (sl_queue (dr_sessions d)) = map called (sl_queue (dr_sessions d))" by simp
  have "sum_list (map called (sl_removed ss)) = ledger (dr_sessions d)"
    unfolding ledger_def ss(3) map_append sum_list_append eq by (simp only: ac_simps)
  moreover have "(mo_chrdevs m)(major := None) = mo_chrdevs m" using assms(3) by auto
  ultimately show ?thesis
    using m1 ss(1,2) in_module_run [OF assms(5) m1(2)] ledger
    by (intro exI [of _ m1] exI [of _ ?m2] exI [of _ "scsitap_unregister_interface (?m2\<lparr>mo_cache := False, mo_driver := None\<rparr>)"] exI [of _ ss])
      (simp add: rmmod_def scsitap_unregister_interface_def)
qed

definition unloaded :: kmodule where
  "unloaded = \<lparr>mo_cache = False, mo_control_major = 0, mo_chrdevs = (\<lambda>_. None), mo_driver = None\<rparr>"

theorem module_leaves_nothing_witness:
  "\<exists>m1 m2 m3 ss. insmod True 240 unloaded = (m1, 0)
    \<and> run_events (in_module (demo_slab (\<lambda>f. f)))
         [Open_ctl 0 4, Register 0 9 (Some 1) 0 (\<lambda>_. demo_cmnd None), Close_ctl 0, Queue_command 1 5 (demo_cmnd None) 3 (Some 7)] m1 = Inr m2
    \<and> rmmod (demo_slab (\<lambda>f. f)) m2 = Inr (m3, ss) \<and> mo_chrdevs m3 = mo_chrdevs unloaded \<and> \<not> mo_cache m3 \<and> mo_driver m3 = None
    \<and> sl_queue ss = [] \<and> sum_list (map called (sl_removed ss)) = {#(1, 5)#}"
proof -
  let ?sl = "demo_slab (\<lambda>f. f)"
  let ?es = "[Open_ctl 0 4, Register 0 9 (Some 1) 0 (\<lambda>_. demo_cmnd None), Close_ctl 0, Queue_command 1 5 (demo_cmnd None) 3 (Some 7)]"
  have wf: "wf_cmnd (demo_cmnd None)" "sc_SCp_ptr (demo_cmnd None) = None"
    by (simp_all add: wf_cmnd_def demo_cmnd_def cmnd_data_def c_consts)
  have "allowed_run (driver_exec ?sl) allowed ?es driver_init"
    using wf by (simp add: registration_defs split: sum.splits)
  moreover have "\<exists>d. run_events (driver_exec ?sl) ?es driver_init = Inr d \<and> (\<forall>fd. dr_files d fd = None)
      \<and> (\<forall>s\<in>set (sl_queue (dr_sessions d)). ss_queue s = [])"
    using wf by (simp add: registration_defs scsitap_queuecommand_def)
  moreover have "all_given_up ?sl ?es driver_init = {#}" "all_accepted ?sl ?es driver_init = {#(1, 5)#}"
    by (simp_all add: registration_defs split: sum.split)
  ultimately show ?thesis
    using module_leaves_nothing [OF demo_slab_ok _ _ _, of 240 unloaded ?es] by (auto simp: unloaded_def)
qed

end
