(* ===== verification/Discs.thy ===== *)
theory Discs
  imports Engine
begin

text \<open>
  Targets of DVD-R and DVD-ROM units: every command of the disc table of \<open>user/scsi.c\<close> returns and
  leaves the unit a disc, changing discs keeps the old image, and the answers that carry lengths.
\<close>

section \<open>Discs\<close>

text \<open>
  A unit as \<open>add_lun\<close> leaves it for a disc: it has a stream, a block size, a size below 2 GB and a
  serial number that fits its length byte.
\<close>

definition disc_ok :: "lun_data \<Rightarrow> bool" where
  "disc_ok l \<longleftrightarrow> ld_cmds l = Some scsi_mmc_commands \<and> ld_fh l \<noteq> None \<and> ld_block_size l \<noteq> 0
     \<and> 0 \<le> ld_lunsizeinmb l \<and> ld_lunsizeinmb l < 2048 \<and> length (ld_serial_number l) < 252"

definition disc_target :: "engine \<Rightarrow> bool" where
  "disc_target e \<longleftrightarrow> td_type (en_target e) = TARGET_TYPE_EMULATION \<and> distinct (map ld_lun (td_luns (en_target e)))
     \<and> (\<forall>l\<in>set (td_luns (en_target e)). disc_ok l)"

text \<open>What a command on a disc keeps: the size of the data buffer, and the unit a disc with its number.\<close>

definition keeps_disc :: "scsi_io \<Rightarrow> scsi_io \<Rightarrow> bool" where
  "keeps_disc io io' \<longleftrightarrow> length (io_data io') = length (io_data io) \<and> disc_ok (io_ld io') \<and> ld_lun (io_ld io') = ld_lun (io_ld io)"

definition runs_on_disc :: "(scsi_io \<Rightarrow> scsi_io res) \<Rightarrow> scsi_io \<Rightarrow> bool" where
  "runs_on_disc f io \<longleftrightarrow> (\<exists>io'. f io = Inr io' \<and> keeps_disc io io')"

lemma keeps_unit_disc:
  assumes "keeps_unit io io'" and "disc_ok (io_ld io)"
  shows "keeps_disc io io'"
proof -
  obtain h where h: "io_ld io' = (io_ld io)\<lparr>ld_fh := h\<rparr>"
      "map_option (\<lambda>h. (fh_ino h, fh_writable h)) h = map_option (\<lambda>h. (fh_ino h, fh_writable h)) (ld_fh (io_ld io))"
    using assms(1) by (auto simp: keeps_unit_def)
  then have "h \<noteq> None" using assms(2) by (auto simp: disc_ok_def)
  with h(1) assms show ?thesis by (simp add: keeps_disc_def keeps_unit_def disc_ok_def)
qed

lemma safe_on_disc: "runs_safely f io \<Longrightarrow> disc_ok (io_ld io) \<Longrightarrow> runs_on_disc f io"
  using keeps_unit_disc by (auto simp: runs_safely_def runs_on_disc_def)

lemma safe_no_data:
  "runs_safely spc_mode_sense10 io" "runs_safely mmc_synchronize_cache io" "runs_safely mmc_reserve_track io"
  "runs_safely mmc_prevent_allow_media_removal io" "runs_safely mmc_set_cd_speed io" "runs_safely mmc_set_streaming io"
  by (auto simp: spc_mode_sense10_def [abs_def] mmc_synchronize_cache_def [abs_def] mmc_reserve_track_def [abs_def]
      mmc_prevent_allow_media_removal_def [abs_def] mmc_set_cd_speed_def [abs_def] mmc_set_streaming_def [abs_def] intro!: safe_intros)

text \<open>The stream's position moves and data is stored: what the commands that look at the image do.\<close>

lemma safe_seek:
  assumes "ld_fh (io_ld io) = Some h" and "fh_ino h' = fh_ino h" and "fh_writable h' = fh_writable h"
  shows "keeps_unit io (set_fh (Some h') io)"
  using assms by (auto simp: keeps_unit_def set_fh_def unit_image_def)

lemma safe_fixed:
  assumes "65536 \<le> length (io_data io)"
  shows "runs_safely (mmc_read_buffer_capacity cdb) io" "runs_safely (mmc_read_disc_information cdb) io"
    "runs_safely (mmc_report_key cdb) io" "runs_safely (mmc_get_performance cdb) io"
proof -
  have al: "unat (cdb_be16 cdb n) \<le> length (io_data io)" for n by (rule unat_u16_le [OF assms])
  show "runs_safely (mmc_read_buffer_capacity cdb) io"
    using assms by (auto simp: mmc_read_buffer_capacity_def [abs_def] intro!: safe_intros)
  show "runs_safely (mmc_report_key cdb) io"
    using assms al unfolding mmc_report_key_def [abs_def] Let_def
    by (simp add: runs_safely_def clear_data_ok put_data_ok finish_cmd_def check_condition_def)
  show "runs_safely (mmc_read_disc_information cdb) io"
    using assms al by (simp add: mmc_read_disc_information_def runs_safely_def Let_def clear_data_ok put_data_ok finish_cmd_def disc_information_def)
  show "runs_safely (mmc_get_performance cdb) io"
    using assms by (simp add: mmc_get_performance_def runs_safely_def Let_def put_data_ok finish_cmd_def ILLEGAL_REQUEST_def
        check_condition_def performance_dvd_r_def write_speeds_dvd_r_def)
qed

lemma safe_disc_capacity:
  assumes "65536 \<le> length (io_data io)" and "disc_ok (io_ld io)"
  shows "runs_safely sbc_read_capacity10 io"
proof -
  obtain h where h: "ld_fh (io_ld io) = Some h" using assms(2) by (auto simp: disc_ok_def)
  then show ?thesis
    using capacity_on_stream [OF h] keeps_unit_stream [OF h] assms by (fastforce simp: runs_safely_def disc_ok_def)
qed

lemma safe_track:
  assumes "65536 \<le> length (io_data io)" and "disc_ok (io_ld io)"
  shows "runs_safely (mmc_read_track_information cdb) io"
proof -
  obtain h where h: "ld_fh (io_ld io) = Some h" using assms(2) by (auto simp: disc_ok_def)
  have bs: "ld_block_size (io_ld io) \<noteq> 0" using assms(2) by (simp add: disc_ok_def)
  have al: "unat (cdb_be16 cdb n) \<le> length (io_data io)" for n by (rule unat_u16_le [OF assms(1)])
  have lens: "length (track_head p) = 24" "length track_tail = 6" for p by (simp_all add: track_head_def track_tail_def)
  show ?thesis
    using assms(1) al h bs lens
    by (simp add: mmc_read_track_information_def runs_safely_def with_fh_def div_blocks_def clear_data_ok put_data_ok
        finish_cmd_def check_condition_def Let_def)
qed

lemma safe_toc:
  assumes "65536 \<le> length (io_data io)" and "0 \<le> sint (cdb_be16 cdb 7)"
  shows "runs_safely (mmc_read_toc cdb) io"
proof -
  have "sint (cdb_be16 cdb 7) < 2 ^ 15" using sint_less [of "cdb_be16 cdb 7"] by simp
  then have "nat (sint (cdb_be16 cdb 7)) \<le> length (io_data io)" using assms by simp
  then show ?thesis
    using assms by (simp add: mmc_read_toc_def runs_safely_def clear_data_ok put_data_ok finish_cmd_def check_condition_def Let_def toc_sense_def)
qed

lemma safe_structure:
  assumes "65536 \<le> length (io_data io)" and "disc_ok (io_ld io)"
  shows "runs_safely (mmc_read_dvd_structure cdb) io"
proof -
  obtain h where h: "ld_fh (io_ld io) = Some h" using assms(2) by (auto simp: disc_ok_def)
  have bs: "ld_block_size (io_ld io) \<noteq> 0" using assms(2) by (simp add: disc_ok_def)
  have al: "unat (cdb_be16 cdb n) \<le> length (io_data io)" for n by (rule unat_u16_le [OF assms(1)])
  have rom: "runs_safely dvd_rom_physical io'" if "io_ld io' = io_ld io" "65536 \<le> length (io_data io')" for io'
    using that h bs by (auto simp: dvd_rom_physical_def runs_safely_def with_fh_def div_blocks_def put_data_ok set_fh_def
        keeps_unit_def unit_image_def fseek_end_def Let_def)
  show ?thesis
  proof (cases "cdb ! 7 = 0 \<and> ld_current_profile (io_ld io) = 0x0010")
    case True
    let ?io = "io\<lparr>io_data := patch 0 [8, 2, 0, 0] (patch 0 (replicate (unat (cdb_be16 cdb 8)) 0) (io_data io))\<rparr>"
    have len: "length (io_data ?io) = length (io_data io)" using assms(1) al by simp
    obtain io3 where io3: "dvd_rom_physical ?io = Inr io3" "keeps_unit ?io io3"
      using rom [of ?io] len assms(1) by (auto simp: runs_safely_def)
    have "keeps_unit io io3" by (rule keeps_unit_trans [OF _ io3(2)]) (use len in simp)
    then have "keeps_unit io (io3\<lparr>io_size := n, io_status := st\<rparr>)" for n st
      by (rule keeps_unit_trans) simp
    with True io3(1) assms(1) al show ?thesis
      by (simp add: mmc_read_dvd_structure_def dvd_structure_lead_in_def runs_safely_def clear_data_ok put_data_ok finish_cmd_def Let_def)
  next
    case False
    with assms(1) al show ?thesis
      by (auto simp: mmc_read_dvd_structure_def dvd_structure_lead_in_def runs_safely_def clear_data_ok put_data_ok finish_cmd_def ILLEGAL_REQUEST_def
          check_condition_def dvd_r_prerecorded_def Let_def)
  qed
qed

lemma safe_configuration:
  assumes "65536 \<le> length (io_data io)" and "disc_ok (io_ld io)"
  shows "runs_safely (mmc_get_configuration cdb) io"
proof -
  have al: "unat (cdb_be16 cdb n) \<le> length (io_data io)" for n by (rule unat_u16_le [OF assms(1)])
  have ser: "length (ld_serial_number (io_ld io)) < 252" using assms(2) by (simp add: disc_ok_def)
  have lens: "length (serial_field s) < length s + 4" "length (profile_entries p) = 32" "length (by_profile p a b) \<le> 1" for s p a b
    by (simp_all add: serial_field_def ascii_def profile_entries_def profile_list_def by_profile_def)
  have feat: "length flags \<le> 1 \<and> length rest < 256" if "feature n (io_ld io) = Some (flags, rest)" for n flags rest
    using that ser lens(1) [of "ld_serial_number (io_ld io)"] lens(2) lens(3)
    by (auto simp: feature_def feature_high_def Let_def split: if_splits)
  have lenb: "length (be16_bytes w) = 2" for w by simp
  show ?thesis
  proof (cases "feature (cdb_be16 cdb 2) (io_ld io)")
    case None
    with assms(1) al show ?thesis
      by (simp add: mmc_get_configuration_def configuration_header_def runs_safely_def Let_def clear_data_ok put_data_ok finish_cmd_def)
  next
    case (Some r)
    obtain flags rest where r: "r = (flags, rest)" by fastforce
    have "length flags \<le> 1" "length rest < 256" using feat Some r by auto
    with assms(1) al Some r show ?thesis
      by (simp add: mmc_get_configuration_def configuration_header_def runs_safely_def Let_def clear_data_ok put_data_ok finish_cmd_def)
  qed
qed

section \<open>Changing discs\<close>

text \<open>A DVD-R that is ejected: its image moves to the stamp's name, a fresh image takes its place.\<close>

lemma insert_ok:
  assumes "\<not> fs_denied (io_fs io) (ld_filename (io_ld io))"
  shows "\<exists>h fs. insert_new_dvd_r stamp io = Inr (set_fh (Some h) (io\<lparr>io_fs := fs\<rparr>)) \<and> fh_writable h"
  using assms
  by (cases "ld_fh (io_ld io)")
    (auto simp: insert_new_dvd_r_def Let_def fopen_w_plus_def set_fh_def rename_file_def split: option.splits)

lemma start_stop_on_disc:
  assumes "disc_ok (io_ld io)" and "ld_current_profile (io_ld io) = 0x0011 \<longrightarrow> \<not> fs_denied (io_fs io) (ld_filename (io_ld io))"
  shows "runs_on_disc (mmc_start_stop_unit stamp) io"
proof (cases "ld_current_profile (io_ld io) = 0x0011")
  case True
  with assms insert_ok [of io stamp] show ?thesis
    by (auto simp: runs_on_disc_def mmc_start_stop_unit_def finish_cmd_def keeps_disc_def set_fh_def disc_ok_def)
next
  case False
  with assms(1) show ?thesis by (simp add: runs_on_disc_def mmc_start_stop_unit_def finish_cmd_def keeps_disc_def)
qed

section \<open>Transfers on a disc\<close>

lemma disc_small: "disc_ok l \<Longrightarrow> small_unit l"
  by (simp add: disc_ok_def small_unit_def)

lemma stream_on_disc:
  assumes "f io = Inr (set_fh (Some h) io')" and "disc_ok (io_ld io)" and "io_ld io' = io_ld io" and "length (io_data io') = length (io_data io)"
  shows "runs_on_disc f io"
  using assms by (simp add: runs_on_disc_def keeps_disc_def set_fh_def disc_ok_def)

text \<open>The bytes a READ(10) or WRITE(10) to a disc addresses.\<close>

definition disc_lba :: "lun_data \<Rightarrow> bytes \<Rightarrow> nat" where
  "disc_lba l cdb = unat (cdb_be32 cdb 2) * unat (ld_block_size l)"

definition disc_len :: "lun_data \<Rightarrow> bytes \<Rightarrow> nat" where
  "disc_len l cdb = unat (cdb_be16 cdb 7) * unat (ld_block_size l)"

lemma read_disc:
  assumes "disc_ok (io_ld io)" and "disc_len (io_ld io) cdb \<le> length (io_data io)"
    and "disc_lba (io_ld io) cdb + disc_len (io_ld io) cdb \<le> unit_bytes (io_ld io) \<longrightarrow>
      disc_lba (io_ld io) cdb + disc_len (io_ld io) cdb \<le> length (unit_image (io_fs io) (io_ld io))"
  shows "runs_on_disc (sbc_read10 cdb) io"
proof (cases "disc_lba (io_ld io) cdb + disc_len (io_ld io) cdb > unit_bytes (io_ld io)")
  case True
  with assms(1) transfer_beyond(2) [OF disc_small [OF assms(1)]] show ?thesis
    by (simp add: runs_on_disc_def keeps_disc_def disc_lba_def disc_len_def add_mult_distrib)
next
  case False
  obtain h where h: "ld_fh (io_ld io) = Some h" using assms(1) by (auto simp: disc_ok_def)
  have img: "disc_lba (io_ld io) cdb + disc_len (io_ld io) cdb \<le> length (fs_data (io_fs io) (fh_ino h))"
    using False assms(3) h by (simp add: unit_image_def)
  obtain h' where h': "sbc_read10 cdb io = Inr (set_fh (Some h') (io\<lparr>io_data := patch 0
      (segment (disc_lba (io_ld io) cdb) (disc_len (io_ld io) cdb) (fs_data (io_fs io) (fh_ino h))) (io_data io),
      io_size := int (disc_len (io_ld io) cdb), io_status := 0\<rparr>))"
    using read_on_stream [OF h disc_small [OF assms(1)] disc_lba_def disc_len_def _ img assms(2)] False by auto
  show ?thesis by (rule stream_on_disc [where f = "sbc_read10 cdb", OF h' assms(1)]) (use img assms(2) in simp_all)
qed

lemma write_disc:
  assumes "disc_ok (io_ld io)" and "disc_len (io_ld io) cdb \<le> length (io_data io)"
    and "disc_lba (io_ld io) cdb + disc_len (io_ld io) cdb \<le> unit_bytes (io_ld io) \<longrightarrow> (\<exists>h. ld_fh (io_ld io) = Some h \<and> fh_writable h)"
  shows "runs_on_disc (sbc_write10 cdb) io"
proof (cases "disc_lba (io_ld io) cdb + disc_len (io_ld io) cdb > unit_bytes (io_ld io)")
  case True
  with assms(1) transfer_beyond(1) [OF disc_small [OF assms(1)]] show ?thesis
    by (simp add: runs_on_disc_def sbc_write10_def Let_def keeps_disc_def disc_lba_def disc_len_def)
next
  case False
  then obtain h where h: "ld_fh (io_ld io) = Some h" "fh_writable h" using assms(3) by auto
  have "sbc_write10 cdb io = write_blocks (disc_lba (io_ld io) cdb) (disc_len (io_ld io) cdb) io"
    by (simp add: sbc_write10_def Let_def disc_lba_def disc_len_def)
  then obtain fs h' where h': "sbc_write10 cdb io
      = Inr (set_fh (Some h') (io\<lparr>io_fs := fs, io_size := int (disc_len (io_ld io) cdb), io_status := 0\<rparr>))"
    using write_on_stream [OF h(1) disc_small [OF assms(1)] h(2) _ assms(2), of "disc_lba (io_ld io) cdb"] False by auto
  show ?thesis by (rule stream_on_disc [where f = "sbc_write10 cdb", OF h' assms(1)]) simp_all
qed

section \<open>The commands of the disc table\<close>

lemma mmc_table_cases:
  assumes "table_func scsi_mmc_commands op = Some f"
  shows "(op, f) \<in> set [(0x00, Spc_test_unit_ready), (0x03, Spc_request_sense), (0x12, Spc_inquiry), (0x1a, Spc_mode_sense6),
    (0x1b, Mmc_start_stop_unit), (0x1e, Mmc_prevent_allow_media_removal), (0x25, Sbc_read_capacity10), (0x28, Sbc_read10),
    (0x2a, Sbc_write10), (0x35, Mmc_synchronize_cache), (0x43, Mmc_read_toc), (0x46, Mmc_get_configuration),
    (0x51, Mmc_read_disc_information), (0x52, Mmc_read_track_information), (0x53, Mmc_reserve_track), (0x55, Spc_mode_select10),
    (0x5a, Spc_mode_sense10), (0x5c, Mmc_read_buffer_capacity), (0xa0, Spc_report_luns), (0xa4, Mmc_report_key),
    (0xac, Mmc_get_performance), (0xad, Mmc_read_dvd_structure), (0xb6, Mmc_set_streaming), (0xbb, Mmc_set_cd_speed)]"
proof -
  obtain n dir where "(op, f, n, dir) \<in> set scsi_mmc_commands" using assms by (rule table_funcE)
  then show ?thesis
    unfolding scsi_mmc_commands_def scsi_mmc_commands_low_def scsi_mmc_commands_high_def append_Cons append_Nil set_simps insert_iff
    by (elim disjE) simp_all
qed

text \<open>
  The requests a disc survives: the buffer is large enough for what the handlers clear and for the
  transfer; READ TOC does not ask for 32768 bytes or more; what a READ addresses is in the image
  unless it is refused; a WRITE that is not refused finds a stream that is open for writing; a DVD-R
  that is ejected may be created anew.
\<close>

definition disc_accepts :: "fs \<Rightarrow> lun_data \<Rightarrow> bytes \<Rightarrow> int \<Rightarrow> nat \<Rightarrow> bool" where
  "disc_accepts fs l cdb sz n \<longleftrightarrow> 65536 \<le> n
     \<and> (cdb ! 0 = 0xa0 \<longrightarrow> sz < int n)
     \<and> (cdb ! 0 = 0x43 \<longrightarrow> 0 \<le> sint (cdb_be16 cdb 7))
     \<and> (cdb ! 0 = 0x1b \<longrightarrow> ld_current_profile l = 0x0011 \<longrightarrow> \<not> fs_denied fs (ld_filename l))
     \<and> (cdb ! 0 = 0x28 \<or> cdb ! 0 = 0x2a \<longrightarrow> disc_len l cdb \<le> n)
     \<and> (cdb ! 0 = 0x28 \<longrightarrow> disc_lba l cdb + disc_len l cdb \<le> unit_bytes l
          \<longrightarrow> disc_lba l cdb + disc_len l cdb \<le> length (unit_image fs l))
     \<and> (cdb ! 0 = 0x2a \<longrightarrow> disc_lba l cdb + disc_len l cdb \<le> unit_bytes l
          \<longrightarrow> (case ld_fh l of None \<Rightarrow> False | Some h \<Rightarrow> fh_writable h))"

lemma disc_command:
  assumes "table_func scsi_mmc_commands (cdb ! 0) = Some f" and "disc_ok (io_ld io)"
    and "disc_accepts (io_fs io) (io_ld io) cdb (io_size io) (length (io_data io))"
  shows "runs_on_disc (call_command stamp f td cdb) io"
proof -
  have big: "65536 \<le> length (io_data io)" using assms(3) by (simp add: disc_accepts_def)
  note plain = safe_plain [OF big] safe_mode_sense6 [OF big] safe_inquiry [OF big] safe_no_data safe_fixed [OF big]
    safe_disc_capacity [OF big assms(2)] safe_track [OF big assms(2)] safe_structure [OF big assms(2)]
    safe_configuration [OF big assms(2)]
  note plain = plain [THEN safe_on_disc [OF _ assms(2)]]
  have luns: "cdb ! 0 = 0xa0 \<Longrightarrow> runs_on_disc (spc_report_luns td cdb) io"
    using assms(3) safe_report_luns [OF big, of td cdb] safe_on_disc [OF _ assms(2)] by (simp add: disc_accepts_def)
  have toc: "cdb ! 0 = 0x43 \<Longrightarrow> runs_on_disc (mmc_read_toc cdb) io"
    using assms(3) safe_toc [OF big, of cdb] safe_on_disc [OF _ assms(2)] by (simp add: disc_accepts_def)
  have start: "cdb ! 0 = 0x1b \<Longrightarrow> runs_on_disc (mmc_start_stop_unit stamp) io"
    using assms(3) start_stop_on_disc [OF assms(2)] by (simp add: disc_accepts_def)
  have rd: "cdb ! 0 = 0x28 \<Longrightarrow> runs_on_disc (sbc_read10 cdb) io"
    using assms(3) read_disc [OF assms(2), of cdb] by (simp add: disc_accepts_def)
  have wr: "cdb ! 0 = 0x2a \<Longrightarrow> runs_on_disc (sbc_write10 cdb) io"
    using assms(3) write_disc [OF assms(2), of cdb] by (auto simp: disc_accepts_def split: option.splits)
  show ?thesis
    using mmc_table_cases [OF assms(1)] plain luns toc start rd wr
    unfolding set_simps insert_iff prod.inject
    by (elim disjE conjE) (simp_all add: runs_on_disc_def)
qed

section \<open>A target of discs\<close>

definition disc_fits :: "engine \<Rightarrow> u8 \<times> bytes \<times> int \<Rightarrow> bool" where
  "disc_fits e r \<longleftrightarrow> (case r of (lun, cdb, sz) \<Rightarrow>
     (case unit_of e lun of None \<Rightarrow> False | Some l \<Rightarrow> disc_accepts (en_fs e) l cdb sz (length (en_data e))))"

lemma replace_lun_keeps:
  "map ld_lun (replace_lun l ls) = map ld_lun ls" "set (replace_lun l ls) \<subseteq> insert l (set ls)"
  by (induction ls) auto

lemma run_disc_found:
  assumes "disc_target e" and "unit_of e lun = Some l" and "table_func scsi_mmc_commands (cdb ! 0) = Some f"
    and "call_command stamp f (en_target e) cdb
        \<lparr>io_fs = en_fs e, io_ld = l, io_data = en_data e, io_size = sz, io_status = 0\<rparr> = Inr io"
  shows "run_scsi_command stamp lun cdb sz e =
    Inr (\<lparr>en_fs = io_fs io, en_target = (en_target e)\<lparr>td_luns := replace_lun (io_ld io) (td_luns (en_target e))\<rparr>, en_data = io_data io\<rparr>, io_status io)"
proof -
  have "ld_cmds l = Some scsi_mmc_commands"
    using assms(1) unit_ofD [OF assms(2)] by (auto simp: disc_target_def disc_ok_def)
  with assms show ?thesis
    by (simp add: run_scsi_command_def find_lun_def unit_of_def disc_target_def Let_def)
qed

lemma disc_request:
  assumes "disc_target e" and "disc_fits e r"
  shows "\<exists>e'. serve stamp r e = Inr e' \<and> disc_target e' \<and> same_shape e e'"
proof -
  obtain lun cdb sz where r: "r = (lun, cdb, sz)" by (cases r)
  obtain l where l: "unit_of e lun = Some l" and acc: "disc_accepts (en_fs e) l cdb sz (length (en_data e))"
    using assms(2) by (auto simp: disc_fits_def r split: option.splits)
  have ok: "disc_ok l" using assms(1) unit_ofD [OF l] by (simp add: disc_target_def)
  show ?thesis
  proof (cases "table_func scsi_mmc_commands (cdb ! 0)")
    case None
    have "ld_cmds l = Some scsi_mmc_commands" using ok by (simp add: disc_ok_def)
    with assms(1) l None show ?thesis
      by (simp add: same_shape_def serve_def r run_scsi_command_def find_lun_def unit_of_def disc_target_def same_shape_def Let_def)
  next
    case (Some f)
    let ?io = "\<lparr>io_fs = en_fs e, io_ld = l, io_data = en_data e, io_size = sz, io_status = 0\<rparr>"
    obtain io where io: "call_command stamp f (en_target e) cdb ?io = Inr io" "keeps_disc ?io io"
      using disc_command [OF Some, of ?io] ok acc by (auto simp: runs_on_disc_def)
    let ?e = "\<lparr>en_fs = io_fs io, en_target = (en_target e)\<lparr>td_luns := replace_lun (io_ld io) (td_luns (en_target e))\<rparr>, en_data = io_data io\<rparr>"
    have "disc_target ?e" "same_shape e ?e"
      using assms(1) io(2) replace_lun_keeps [of "io_ld io" "td_luns (en_target e)"]
      by (auto simp: disc_target_def keeps_disc_def same_shape_def)
    with run_disc_found [OF assms(1) l Some io(1)] show ?thesis by (simp add: serve_def r)
  qed
qed

interpretation disc_machine: state_machine "serve stamp" disc_fits disc_target for stamp
  by unfold_locales (use disc_request in blast)


section \<open>Properties of discs\<close>

definition demo_disc :: lun_data where
  "demo_disc = demo_lun\<lparr>ld_device_type := 5, ld_luntype := 2, ld_lunsizeinmb := 4, ld_cmds := Some scsi_mmc_commands, ld_block_size := 2048,
     ld_is_blank := 1, ld_current_profile := 0x0011\<rparr>"

lemma demo_disc_ok:
  "disc_target (demo_engine demo_disc n)" "unit_of (demo_engine demo_disc n) 0 = Some demo_disc" "ld_current_profile demo_disc = 0x11"
  "ld_fh demo_disc = Some \<lparr>fh_ino = 1, fh_pos = 0, fh_writable = True\<rparr>" "ld_filename demo_disc = ''disk''"
  by (simp_all add: disc_target_def disc_ok_def demo_engine_def demo_disc_def demo_lun_def unit_of_def c_consts)

text \<open>Most requests fit whatever has been requested before: all but READ, WRITE and START STOP UNIT.\<close>

definition steady :: "u8 \<times> bytes \<times> int \<Rightarrow> bool" where
  "steady r \<longleftrightarrow> fst (snd r) ! 0 \<notin> {0x28, 0x2a, 0x1b}"

lemma steady_fits: "steady r \<Longrightarrow> same_shape e e' \<Longrightarrow> disc_fits e r \<Longrightarrow> disc_fits e' r"
  using unit_exists [of e "fst r"] unit_exists [of e' "fst r"]
  by (cases r) (auto simp: steady_def disc_fits_def disc_accepts_def same_shape_def split: option.splits)

lemma steady_run: "disc_target e \<Longrightarrow> \<forall>r\<in>set rs. steady r \<and> disc_fits e r \<Longrightarrow> allowed_run (serve stamp) disc_fits rs e"
proof (induction rs arbitrary: e)
  case (Cons r rs)
  then obtain e' where e': "serve stamp r e = Inr e'" "disc_target e'" "same_shape e e'"
    using disc_request [of e r stamp] by auto
  with Cons have "\<forall>r\<in>set rs. steady r \<and> disc_fits e' r" using steady_fits by fastforce
  with Cons e' show ?case by simp
qed simp

text \<open>
  C22.  A target of DVD-R and DVD-ROM units answers any sequence of requests each of which it can
  accept when it comes, whatever the bytes of the command blocks: no command faults or runs for
  ever, and the units stay discs with their numbers.
\<close>

theorem disc_engine_never_faults:
  assumes "disc_target e" and "allowed_run (serve stamp) disc_fits rs e"
  shows "\<exists>e'. run_events (serve stamp) rs e = Inr e' \<and> disc_target e'"
  using disc_machine.run_inv [OF assms] .

theorem disc_engine_never_faults_witness:
  "\<exists>e'. run_events (serve ''t'') [(0, 0x46 # replicate 15 0, 8), (0, 0x25 # replicate 15 0, 8), (0, 0xa0 # replicate 15 0, 16)]
     (demo_engine demo_disc 4096) = Inr e' \<and> disc_target e'" (is "\<exists>e'. run_events _ ?rs _ = _ \<and> _")
proof -
  have "\<forall>r\<in>set ?rs. steady r \<and> disc_fits (demo_engine demo_disc 4096) r"
    by (simp add: steady_def disc_fits_def disc_accepts_def demo_disc_ok demo_disk)
  from disc_engine_never_faults [OF demo_disc_ok(1) steady_run [OF demo_disc_ok(1) this]] show ?thesis .
qed

text \<open>
  Ejecting a DVD-R.  START STOP UNIT gives the unit a new, empty image under its file name; an
  image that was not empty is kept whole under the name made of the time, where it replaces whatever
  had that name: two discs ejected within a second leave only the later.
\<close>

lemma eject_keeps_image:
  assumes "disc_target e" and "unit_of e lun = Some l" and "ld_current_profile l = 0x0011" and "cdb ! 0 = 0x1b"
    and "ld_fh l = Some h" and "fs_dir (en_fs e) (ld_filename l) = Some (fh_ino h)" and "\<not> fs_denied (en_fs e) (ld_filename l)"
    and "stamp \<noteq> ld_filename l" and "lun_image e lun \<noteq> []" and "fh_ino h < fs_next (en_fs e)"
  shows "\<exists>e'. run_scsi_command stamp lun cdb sz e = Inr (e', 0) \<and> lun_image e' lun = []
    \<and> fs_dir (en_fs e') = (fs_dir (en_fs e))(ld_filename l \<mapsto> fs_next (en_fs e), stamp \<mapsto> fh_ino h)
    \<and> fs_data (en_fs e') (fh_ino h) = lun_image e lun
    \<and> (\<forall>i. i \<noteq> fs_next (en_fs e) \<longrightarrow> fs_data (en_fs e') i = fs_data (en_fs e) i)"
proof -
  let ?io = "\<lparr>io_fs = en_fs e, io_ld = l, io_data = en_data e, io_size = sz, io_status = 0\<rparr>"
  let ?fs = "(en_fs e)\<lparr>fs_dir := (fs_dir (en_fs e))(ld_filename l := None, stamp \<mapsto> fh_ino h, ld_filename l \<mapsto> fs_next (en_fs e)),
    fs_data := (fs_data (en_fs e))(fs_next (en_fs e) := []), fs_next := fs_next (en_fs e) + 1\<rparr>"
  let ?l = "l\<lparr>ld_fh := Some \<lparr>fh_ino = fs_next (en_fs e), fh_pos = 0, fh_writable = True\<rparr>\<rparr>"
  have img: "fs_data (en_fs e) (fh_ino h) = lun_image e lun" using assms(2,5) by (simp add: lun_image_def unit_image_def)
  have f: "table_func scsi_mmc_commands (cdb ! 0) = Some Mmc_start_stop_unit"
    using assms(4) by (simp add: table_func_def scsi_mmc_commands_def scsi_mmc_commands_low_def)
  have "call_command stamp Mmc_start_stop_unit (en_target e) cdb ?io = Inr (?io\<lparr>io_fs := ?fs, io_ld := ?l, io_size := 0, io_status := 0\<rparr>)"
    using assms(3,5-9) img
    by (simp add: mmc_start_stop_unit_def insert_new_dvd_r_def fseek_end_def ftello_def set_fh_def rename_file_def fopen_w_plus_def
        finish_cmd_def Let_def)
  from run_disc_found [OF assms(1,2) f this]
  have run: "run_scsi_command stamp lun cdb sz e
      = Inr (\<lparr>en_fs = ?fs, en_target = (en_target e)\<lparr>td_luns := replace_lun ?l (td_luns (en_target e))\<rparr>, en_data = en_data e\<rparr>, 0)" (is "_ = Inr (?e, 0)")
    by simp
  have "find (\<lambda>x. ld_lun x = lun) (replace_lun ?l ls) = Some ?l" if "find (\<lambda>x. ld_lun x = lun) ls = Some l" for ls
    using that unit_ofD [OF assms(2)] by (induction ls) (auto split: if_splits)
  then have "unit_of ?e lun = Some ?l" using assms(2) by (simp add: unit_of_def)
  then have "lun_image ?e lun = []" by (simp add: lun_image_def unit_image_def)
  moreover have "fs_dir ?fs = (fs_dir (en_fs e))(ld_filename l \<mapsto> fs_next (en_fs e), stamp \<mapsto> fh_ino h)"
    using assms(8) by (auto simp: fun_eq_iff)
  ultimately show ?thesis using run img assms(10) by auto
qed

lemma eject_keeps_image_witness:
  "\<exists>e'. run_scsi_command ''t'' 0 (0x1b # replicate 15 0) 0 (demo_engine demo_disc 4096) = Inr (e', 0) \<and> lun_image e' 0 = []
     \<and> fs_dir (en_fs e') ''t'' = Some 1 \<and> fs_data (en_fs e') 1 = replicate 4096 0"
proof -
  have img: "lun_image (demo_engine demo_disc 4096) 0 = replicate 4096 0"
    by (simp add: lun_image_def demo_disc_ok unit_image_def) (simp add: demo_engine_def)
  have fs: "fs_dir (en_fs (demo_engine demo_disc 4096)) = [''disk'' \<mapsto> 1]" "fs_next (en_fs (demo_engine demo_disc 4096)) = 2"
    "\<not> fs_denied (en_fs (demo_engine demo_disc 4096)) n" for n
    by (simp_all add: demo_engine_def)
  show ?thesis
    using eject_keeps_image [where cdb = "0x1b # replicate 15 0" and stamp = "''t''" and sz = 0, OF demo_disc_ok(1,2) [of 4096] demo_disc_ok(3) _ demo_disc_ok(4)] img fs
    by (auto simp: demo_disc_ok)
qed

lemma serial_field_length: "length (serial_field s) mod 4 = 0" "length (serial_field s) < length s + 4"
proof -
  have "(n + (4 - n mod 4) mod 4) mod 4 = 0" for n :: nat
  proof -
    have "n mod 4 = 0 \<or> n mod 4 = 1 \<or> n mod 4 = 2 \<or> n mod 4 = 3" by linarith
    moreover have "(n + (4 - n mod 4) mod 4) mod 4 = (n mod 4 + (4 - n mod 4) mod 4) mod 4" by (simp add: mod_add_left_eq)
    ultimately show ?thesis by (elim disjE) simp_all
  qed
  then show "length (serial_field s) mod 4 = 0" by (simp add: serial_field_def ascii_def)
  show "length (serial_field s) < length s + 4" by (simp add: serial_field_def ascii_def)
qed

text \<open>
  C35.  GET CONFIGURATION, for a feature the unit has and a disc profile: the length in the header
  counts the bytes that follow it, the feature carries the number that was asked for, and its own
  length counts the rest of the response and is a multiple of four.
\<close>

theorem configuration_lengths:
  assumes "disc_target e" and "unit_of e lun = Some l" and "cdb ! 0 = 0x46" and "65536 \<le> length (en_data e)"
    and "ld_current_profile l \<in> {0x0010, 0x0011}" and "feature (cdb_be16 cdb 2) l = Some (flags, rest)"
  shows "\<exists>e'. run_scsi_command stamp lun cdb sz e = Inr (e', 0)
    \<and> segment 0 (12 + length rest) (en_data e') = be32_bytes (of_nat (8 + length rest)) @ [0, 0]
        @ be16_bytes (word_of_int (ld_current_profile l)) @ be16_bytes (cdb_be16 cdb 2) @ flags @ [of_nat (length rest)] @ rest
    \<and> length flags = 1 \<and> length rest mod 4 = 0 \<and> length rest < 256"
proof -
  let ?io = "\<lparr>io_fs = en_fs e, io_ld = l, io_data = en_data e, io_size = sz, io_status = 0\<rparr>"
  have ok: "disc_ok l" using assms(1) unit_ofD [OF assms(2)] by (simp add: disc_target_def)
  have shape: "length flags = 1 \<and> length rest mod 4 = 0 \<and> length rest < 256"
    using assms(5,6) serial_field_length [of "ld_serial_number l"] ok
    by (auto simp: feature_def feature_high_def Let_def by_profile_def profile_entries_def profile_list_def disc_ok_def split: if_splits)
  have al: "unat (cdb_be16 cdb 7) \<le> length (en_data e)" by (rule unat_u16_le [OF assms(4)])
  let ?body = "be16_bytes (cdb_be16 cdb 2) @ flags @ [of_nat (length rest)] @ rest"
  let ?head = "int_bytes (int (8 + length rest)) @ [0, 0] @ be16_bytes (word_of_int (ld_current_profile l))"
  let ?d = "patch 0 ?head (patch 8 ?body (patch 0 (replicate (unat (cdb_be16 cdb 7)) 0) (en_data e)))"
  have call: "call_command stamp Mmc_get_configuration (en_target e) cdb ?io
      = Inr (?io\<lparr>io_data := ?d, io_size := uint (cdb_be16 cdb 7), io_status := 0\<rparr>)"
    using assms(4,6) shape al
    by (simp add: mmc_get_configuration_def configuration_header_def Let_def clear_data_ok put_data_ok finish_cmd_def)
  have f: "table_func scsi_mmc_commands (cdb ! 0) = Some Mmc_get_configuration"
    using assms(3) by (simp add: table_func_def scsi_mmc_commands_def scsi_mmc_commands_low_def)
  have "segment 0 (8 + length ?body) ?d = ?head @ ?body"
    by (rule segment_two_patches) (use assms(4) shape al in simp_all)
  moreover have "8 + length ?body = 12 + length rest" using shape by simp
  ultimately have "segment 0 (12 + length rest) ?d = ?head @ ?body" by (simp only:)
  with run_disc_found [OF assms(1,2) f call] shape show ?thesis by (auto simp: int_bytes_def)
qed

theorem configuration_lengths_witness:
  "\<exists>e'. run_scsi_command ''t'' 0 ([0x46, 0, 0, 3, 0, 0, 0, 0, 16] @ replicate 7 0) 16 (demo_engine demo_disc 4096) = Inr (e', 0)
     \<and> segment 0 16 (en_data e') = [0, 0, 0, 12, 0, 0, 0, 0x11, 0, 3, 3, 4, 0x29, 0, 0, 0]"
proof -
  have n: "cdb_be16 ([0x46, 0, 0, 3, 0, 0, 0, 0, 16] @ replicate 7 0) 2 = 3"
    by (simp add: cdb_be16_def segment_def be16_def)
  have f: "feature 3 demo_disc = Some ([3], [0x29, 0, 0, 0])" by (simp add: feature_def feature_high_def Let_def)
  have b: "be32_bytes 12 = [0, 0, 0, 12]" "be16_bytes 0x11 = [0, 0x11]" "be16_bytes 3 = [0, 3]"
    by (simp_all add: be32_bytes_def le32_bytes_def be16_bytes_def)
  show ?thesis
    using configuration_lengths [where cdb = "[0x46, 0, 0, 3, 0, 0, 0, 0, 16] @ replicate 7 0" and stamp = "''t''" and sz = 16
        and flags = "[3]" and rest = "[0x29, 0, 0, 0]", OF demo_disc_ok(1,2) [of 4096]] n f b
    by (auto simp: demo_disc_ok demo_disk)
qed

end
