(* ===== verification/Disc_Drive.thy ===== *)
theory Disc_Drive
  imports Discs
begin

text \<open>
  What CD/DVD units promise: drives with discs in them, and a shelf.  A burning program reads, writes,
  reserves, synchronises and ejects; the engine of \<open>user/scsi.c\<close> with the files of the target process
  refines that.
\<close>

section \<open>The specification\<close>

text \<open>A drive: the bytes of its disc, its nominal capacity and block size, whether it writes, its file.\<close>

record drive =
  dv_disc :: bytes
  dv_capacity :: nat
  dv_block :: nat
  dv_burner :: bool
  dv_name :: string

text \<open>The drives by unit number, and the shelf: the files that are not in a drive.\<close>

type_synonym drives = "(u8 \<Rightarrow> drive option) \<times> (string \<Rightarrow> bytes option)"

text \<open>A request: the time it comes as a file name, a unit, a command block and a data buffer.\<close>

type_synonym disc_request = "string \<times> u8 \<times> bytes \<times> bytes"

definition drive_lba :: "drive \<Rightarrow> bytes \<Rightarrow> nat" where
  "drive_lba v cdb = unat (cdb_be32 cdb 2) * dv_block v"

definition drive_len :: "drive \<Rightarrow> bytes \<Rightarrow> nat" where
  "drive_len v cdb = unat (cdb_be16 cdb 7) * dv_block v"

definition drive_beyond :: "drive \<Rightarrow> bytes \<Rightarrow> bool" where
  "drive_beyond v cdb \<longleftrightarrow> drive_lba v cdb + drive_len v cdb > dv_capacity v"

definition last_block :: "drive \<Rightarrow> u32" where
  "last_block v = word_of_int (int (length (dv_disc v)) div int (dv_block v) - 1)"

text \<open>
  READ(10) and WRITE(10) beyond the nominal capacity are refused.  A WRITE makes the disc as long as it
  needs.  START STOP UNIT puts the disc of a DVD-R, unless it is empty, on the shelf under the time's
  name and leaves an empty one.  READ CAPACITY tells the number of the last block that was written.  The
  other commands have no effect and no data.
\<close>

definition disc_drive :: "disc_request \<Rightarrow> drives \<Rightarrow> drives \<times> u8 \<times> bytes" where
  "disc_drive r s = (case r of (stamp, lun, cdb, buf) \<Rightarrow> case s of (d, shelf) \<Rightarrow>
     (case d lun of
        None \<Rightarrow> (s, 0, [])
      | Some v \<Rightarrow>
         if cdb ! 0 = 0x28 then
           (if drive_beyond v cdb then (s, 2, []) else (s, 0, segment (drive_lba v cdb) (drive_len v cdb) (dv_disc v)))
         else if cdb ! 0 = 0x2a then
           (if drive_beyond v cdb then (s, 2, [])
            else ((d(lun \<mapsto> v\<lparr>dv_disc := burn (drive_lba v cdb) (segment 0 (drive_len v cdb) buf) (dv_disc v)\<rparr>), shelf), 0, []))
         else if cdb ! 0 = 0x1b \<and> dv_burner v then
           ((d(lun \<mapsto> v\<lparr>dv_disc := []\<rparr>), if dv_disc v = [] then shelf else shelf(stamp \<mapsto> dv_disc v)), 0, [])
         else if cdb ! 0 = 0x25 then (s, 0, be32_bytes (last_block v) @ be32_bytes (of_nat (dv_block v)))
         else (s, 0, [])))"

text \<open>
  The requests of a burning program: the buffer is large enough; what is read has been written; only a
  DVD-R is written; the time is not the name of a disc in a drive.
\<close>

definition drive_accepts :: "drives \<Rightarrow> disc_request \<Rightarrow> bool" where
  "drive_accepts s r \<longleftrightarrow> (case r of (stamp, lun, cdb, buf) \<Rightarrow> case s of (d, shelf) \<Rightarrow>
     (case d lun of
        None \<Rightarrow> False
      | Some v \<Rightarrow> cdb ! 0 \<in> {0x00, 0x1b, 0x1e, 0x25, 0x28, 0x2a, 0x35, 0x53, 0xb6, 0xbb} \<and> 12 \<le> length buf
          \<and> (cdb ! 0 \<in> {0x28, 0x2a} \<longrightarrow> drive_len v cdb \<le> length buf)
          \<and> (cdb ! 0 = 0x28 \<longrightarrow> drive_beyond v cdb \<or> drive_lba v cdb + drive_len v cdb \<le> length (dv_disc v))
          \<and> (cdb ! 0 = 0x2a \<longrightarrow> drive_beyond v cdb \<or> dv_burner v)
          \<and> (cdb ! 0 = 0x1b \<longrightarrow> (\<forall>m. \<forall>w\<in>set_option (d m). dv_name w \<noteq> stamp))))"

section \<open>Changing discs\<close>

text \<open>What \<open>insert_new_dvd_r\<close> does to the names and contents of the directory.\<close>

lemma insert_content:
  assumes "fs_ok (io_fs io)" and "ld_fh (io_ld io) = Some h" and "fs_dir (io_fs io) (ld_filename (io_ld io)) = Some (fh_ino h)"
    and "\<not> fs_denied (io_fs io) (ld_filename (io_ld io))" and "stamp \<noteq> ld_filename (io_ld io)"
    and "old = fs_data (io_fs io) (fh_ino h)"
  shows "\<exists>fs' h'. insert_new_dvd_r stamp io = Inr (set_fh (Some h') (io\<lparr>io_fs := fs'\<rparr>)) \<and> fh_writable h'
    \<and> fs_dir fs' (ld_filename (io_ld io)) = Some (fh_ino h') \<and> fs_ok fs' \<and> fs_denied fs' = fs_denied (io_fs io)
    \<and> (\<forall>n. n \<noteq> ld_filename (io_ld io) \<longrightarrow> n \<noteq> stamp \<longrightarrow> fs_dir fs' n = fs_dir (io_fs io) n)
    \<and> content fs' = (if old = [] then content (io_fs io) else (content (io_fs io))(stamp \<mapsto> old))(ld_filename (io_ld io) \<mapsto> [])"
proof -
  let ?name = "ld_filename (io_ld io)"
  define fs where "fs = (if old = [] then io_fs io else rename_file ?name stamp (io_fs io))"
  have c: "content (io_fs io) ?name = Some old" using assms(3,6) by (simp add: content_def)
  have fs: "fs_ok fs" "fs_denied fs = fs_denied (io_fs io)" "\<And>n. n \<noteq> ?name \<Longrightarrow> n \<noteq> stamp \<Longrightarrow> fs_dir fs n = fs_dir (io_fs io) n"
      "\<And>n. n \<noteq> ?name \<Longrightarrow> content fs n = (if old = [] then content (io_fs io) else (content (io_fs io))(stamp \<mapsto> old)) n"
    using content_rename [OF assms(1) c assms(5)] assms(1,3) by (auto simp: fs_def rename_file_def)
  obtain fs' i where w: "fopen_w_plus ?name fs = (fs', Some \<lparr>fh_ino = i, fh_pos = 0, fh_writable = True\<rparr>)" "fs_dir fs' ?name = Some i"
      "content fs' = (content fs)(?name \<mapsto> [])" "fs_ok fs'" "fs_denied fs' = fs_denied fs" "\<forall>n. n \<noteq> ?name \<longrightarrow> fs_dir fs' n = fs_dir fs n"
    using content_empty [OF fs(1), of ?name] fs(2) assms(4) by auto
  have "insert_new_dvd_r stamp io = Inr (set_fh (Some \<lparr>fh_ino = i, fh_pos = 0, fh_writable = True\<rparr>) (io\<lparr>io_fs := fs'\<rparr>))"
    using assms(2,6) w(1)
    by (cases "old = []") (simp_all add: insert_new_dvd_r_def fs_def fseek_end_def ftello_def set_fh_def Let_def)
  moreover have "content fs' = (if old = [] then content (io_fs io) else (content (io_fs io))(stamp \<mapsto> old))(?name \<mapsto> [])"
    using fs(4) w(3) by (auto simp: fun_eq_iff)
  ultimately show ?thesis using w fs(2,3)
    by (intro exI [of _ fs'] exI [of _ "\<lparr>fh_ino = i, fh_pos = 0, fh_writable = True\<rparr>"]) simp
qed

section \<open>The engine as drives\<close>

text \<open>
  The names of the units' image files, what a unit is as a drive, and what the engine is as drives and a
  shelf.
\<close>

definition image_names :: "engine \<Rightarrow> string set" where
  "image_names e = ld_filename ` set (td_luns (en_target e))"

definition drive_of :: "fs \<Rightarrow> lun_data \<Rightarrow> drive" where
  "drive_of fs l = \<lparr>dv_disc = unit_image fs l, dv_capacity = unit_bytes l, dv_block = unat (ld_block_size l),
     dv_burner = (ld_current_profile l = 0x0011), dv_name = ld_filename l\<rparr>"

definition drives_of :: "engine \<Rightarrow> drives" where
  "drives_of e = (\<lambda>lun. map_option (drive_of (en_fs e)) (unit_of e lun),
     \<lambda>name. if name \<in> image_names e then None else content (en_fs e) name)"

text \<open>
  A unit is backed by its file: its stream is on the inode its file name stands for, and a DVD-R can
  write it and create it anew.
\<close>

definition backed :: "fs \<Rightarrow> lun_data \<Rightarrow> bool" where
  "backed fs l \<longleftrightarrow> (case ld_fh l of None \<Rightarrow> False | Some h \<Rightarrow> fs_dir fs (ld_filename l) = Some (fh_ino h)
     \<and> (ld_current_profile l = 0x0011 \<longrightarrow> fh_writable h \<and> \<not> fs_denied fs (ld_filename l)))"

text \<open>A target of drives: discs on files of their own, in a directory without hard links.\<close>

definition drives_ok :: "engine \<Rightarrow> bool" where
  "drives_ok e \<longleftrightarrow> disc_target e \<and> distinct (map ld_filename (td_luns (en_target e))) \<and> fs_ok (en_fs e)
     \<and> (\<forall>l\<in>set (td_luns (en_target e)). backed (en_fs e) l)"

lemma backedE:
  assumes "backed fs l"
  obtains h where "ld_fh l = Some h" and "fs_dir fs (ld_filename l) = Some (fh_ino h)"
    and "ld_current_profile l = 0x0011 \<longrightarrow> fh_writable h \<and> \<not> fs_denied fs (ld_filename l)"
    and "unit_image fs l = fs_data fs (fh_ino h)" and "content fs (ld_filename l) = Some (unit_image fs l)"
  using assms by (auto simp: backed_def unit_image_def content_def split: option.splits)

lemma backed_other:
  assumes "backed fs l" and "fs_dir fs' (ld_filename l) = fs_dir fs (ld_filename l)"
    and "content fs' (ld_filename l) = content fs (ld_filename l)" and "fs_denied fs' = fs_denied fs"
  shows "backed fs' l \<and> unit_image fs' l = unit_image fs l"
proof -
  obtain h where "ld_fh l = Some h" "fs_dir fs (ld_filename l) = Some (fh_ino h)"
    by (rule backedE [OF assms(1)])
  with assms show ?thesis by (auto simp: backed_def unit_image_def content_def)
qed

lemma unit_of_replaced:
  assumes "unit_of e lun = Some l" and "ld_lun l' = lun"
    and "e' = \<lparr>en_fs = fs, en_target = (en_target e)\<lparr>td_luns := replace_lun l' (td_luns (en_target e))\<rparr>, en_data = d\<rparr>"
  shows "unit_of e' = (unit_of e)(lun \<mapsto> l')"
proof -
  have "find (\<lambda>x. ld_lun x = m) (replace_lun l' ls) = (if m = lun then Some l' else find (\<lambda>x. ld_lun x = m) ls)"
    if "find (\<lambda>x. ld_lun x = lun) ls = Some l" for m ls
    using that assms(2) by (induction ls) (auto split: if_splits)
  then show ?thesis using assms(1,3) by (auto simp: unit_of_def fun_eq_iff)
qed

text \<open>The state after a command on a backed disc: the unit's stream may be another, the rest of the unit stays.\<close>

lemma drives_step:
  assumes "drives_ok e" and "unit_of e lun = Some l" and "fs_ok fs" and "backed fs (l\<lparr>ld_fh := Some h\<rparr>)" and "fs_denied fs = fs_denied (en_fs e)"
    and "\<forall>n\<in>image_names e. n \<noteq> ld_filename l \<longrightarrow> fs_dir fs n = fs_dir (en_fs e) n \<and> content fs n = content (en_fs e) n"
    and "e' = \<lparr>en_fs = fs, en_target = (en_target e)\<lparr>td_luns := replace_lun (l\<lparr>ld_fh := Some h\<rparr>) (td_luns (en_target e))\<rparr>, en_data = d\<rparr>"
  shows "drives_ok e'"
    and "drives_of e' = ((fst (drives_of e))(lun \<mapsto> (drive_of (en_fs e) l)\<lparr>dv_disc := fs_data fs (fh_ino h)\<rparr>),
        \<lambda>n. if n \<in> image_names e then None else content fs n)"
proof -
  let ?l = "l\<lparr>ld_fh := Some h\<rparr>" and ?ls = "td_luns (en_target e)"
  have dt: "disc_target e" and dist: "distinct (map ld_lun ?ls)" "distinct (map ld_filename ?ls)" and bk: "\<forall>l\<in>set ?ls. backed (en_fs e) l"
    using assms(1) by (simp_all add: drives_ok_def disc_target_def)
  note u = unit_ofD [OF assms(2)]
  have ls: "replace_lun ?l ?ls = map (\<lambda>x. if ld_lun x = ld_lun l then ?l else x) ?ls"
    using replace_lun_split [OF dist(1), of l ?l] u by simp
  have only: "x = l" if "x \<in> set ?ls" "ld_lun x = ld_lun l" for x
    using dist(1) that u by (auto simp: distinct_map inj_on_def)
  have names: "map ld_filename (replace_lun ?l ?ls) = map ld_filename ?ls"
    using only unfolding ls by auto
  have other: "x \<in> set ?ls \<Longrightarrow> x \<noteq> l \<Longrightarrow> ld_filename x \<noteq> ld_filename l" for x
    using dist(2) u by (auto simp: distinct_map inj_on_def)
  have same: "backed fs x \<and> unit_image fs x = unit_image (en_fs e) x" if "x \<in> set ?ls" "x \<noteq> l" for x
  proof -
    have "backed (en_fs e) x" using bk that(1) by blast
    then show ?thesis
      using assms(5,6) other [OF that] that(1) by (intro backed_other) (auto simp: image_names_def)
  qed
  have "disc_target e'"
    using dt u replace_lun_keeps [of ?l ?ls] by (auto simp: disc_target_def assms(7) disc_ok_def)
  moreover have "\<forall>x\<in>set (replace_lun ?l ?ls). backed fs x" using assms(4) same only by (auto simp: ls)
  ultimately show "drives_ok e'"
    using assms(3) dist(2) names by (simp add: drives_ok_def assms(7))
  have "unit_of e' = (unit_of e)(lun \<mapsto> ?l)" by (rule unit_of_replaced [OF assms(2) _ assms(7)]) (use u in simp)
  moreover have "drive_of fs x = drive_of (en_fs e) x" if "unit_of e m = Some x" "m \<noteq> lun" for x m
    using same [of x] unit_ofD [OF that(1)] u that(2) by (auto simp: drive_of_def)
  moreover have "drive_of fs ?l = (drive_of (en_fs e) l)\<lparr>dv_disc := fs_data fs (fh_ino h)\<rparr>"
    by (simp add: drive_of_def unit_image_def unit_bytes_def)
  ultimately have "map_option (drive_of fs) (unit_of e' m)
      = ((fst (drives_of e))(lun \<mapsto> (drive_of (en_fs e) l)\<lparr>dv_disc := fs_data fs (fh_ino h)\<rparr>)) m" for m
    by (cases "unit_of e m") (auto simp: drives_of_def)
  moreover have "image_names e' = image_names e"
    using arg_cong [OF names, of set] by (simp add: image_names_def assms(7))
  ultimately show "drives_of e' = ((fst (drives_of e))(lun \<mapsto> (drive_of (en_fs e) l)\<lparr>dv_disc := fs_data fs (fh_ino h)\<rparr>),
        \<lambda>n. if n \<in> image_names e then None else content fs n)"
    by (auto simp: drives_of_def assms(7))
qed


section \<open>One request\<close>

lemma disc_step:
  assumes "drives_ok e" and "unit_of e lun = Some l" and "table_func scsi_mmc_commands (cdb ! 0) = Some f"
    and "call_command stamp f (en_target e) cdb \<lparr>io_fs = en_fs e, io_ld = l, io_data = en_data e, io_size = sz, io_status = 0\<rparr>
      = Inr (set_fh (Some h) io)"
    and "io_ld io = l" and "io_fs io = fs"
    and "fs_ok fs" and "backed fs (l\<lparr>ld_fh := Some h\<rparr>)" and "fs_denied fs = fs_denied (en_fs e)" and "content fs = c(ld_filename l \<mapsto> x)"
    and "\<forall>n\<in>image_names e. n \<noteq> ld_filename l \<longrightarrow> fs_dir fs n = fs_dir (en_fs e) n \<and> c n = content (en_fs e) n"
  shows "\<exists>e'. run_scsi_command stamp lun cdb sz e = Inr (e', io_status io) \<and> en_data e' = io_data io \<and> drives_ok e'
    \<and> drives_of e' = ((fst (drives_of e))(lun \<mapsto> (drive_of (en_fs e) l)\<lparr>dv_disc := x\<rparr>), \<lambda>n. if n \<in> image_names e then None else c n)"
proof -
  have "disc_target e" and "l \<in> set (td_luns (en_target e))" using assms(1) unit_ofD [OF assms(2)] by (simp_all add: drives_ok_def)
  then have name: "ld_filename l \<in> image_names e" by (simp add: image_names_def)
  have "content fs (ld_filename l) = Some x" using assms(10) by simp
  then have x: "fs_data fs (fh_ino h) = x" using assms(8) by (simp add: backed_def content_def)
  have others: "\<forall>n\<in>image_names e. n \<noteq> ld_filename l \<longrightarrow> fs_dir fs n = fs_dir (en_fs e) n \<and> content fs n = content (en_fs e) n"
    using assms(10,11) by simp
  have "(\<lambda>n. if n \<in> image_names e then None else content fs n) = (\<lambda>n. if n \<in> image_names e then None else c n)"
    using name assms(10) by auto
  with run_disc_found [OF \<open>disc_target e\<close> assms(2-4)] drives_step [OF assms(1,2,7-9) others refl, of "io_data io"] assms(5,6) x
  show ?thesis by (simp add: set_fh_def)
qed

text \<open>A command that only moves the stream, or not even that.\<close>

lemma disc_look:
  assumes "drives_ok e" and "unit_of e lun = Some l" and "table_func scsi_mmc_commands (cdb ! 0) = Some f" and "ld_fh l = Some h"
    and "call_command stamp f (en_target e) cdb \<lparr>io_fs = en_fs e, io_ld = l, io_data = en_data e, io_size = sz, io_status = 0\<rparr>
      = Inr (set_fh (Some h') io)"
    and "same_stream h h'" and "io_ld io = l" and "io_fs io = en_fs e"
  shows "\<exists>e'. run_scsi_command stamp lun cdb sz e = Inr (e', io_status io) \<and> en_data e' = io_data io \<and> drives_ok e'
    \<and> drives_of e' = drives_of e"
proof -
  have "l \<in> set (td_luns (en_target e))" using unit_ofD [OF assms(2)] by blast
  then have b: "backed (en_fs e) l" and fs: "fs_ok (en_fs e)" using assms(1) by (auto simp: drives_ok_def)
  then have c: "content (en_fs e) = (content (en_fs e))(ld_filename l \<mapsto> unit_image (en_fs e) l)"
    by (auto elim!: backedE)
  have "backed (en_fs e) (l\<lparr>ld_fh := Some h'\<rparr>)" using b assms(4,6) by (simp add: backed_def same_stream_def)
  note s = disc_step [OF assms(1-3,5,7,8) fs this refl c]
  have "(drive_of (en_fs e) l)\<lparr>dv_disc := unit_image (en_fs e) l\<rparr> = drive_of (en_fs e) l" by (simp add: drive_of_def)
  moreover have "(fst (drives_of e))(lun \<mapsto> drive_of (en_fs e) l) = fst (drives_of e)"
    using assms(2) by (auto simp: drives_of_def)
  ultimately show ?thesis using s by (auto simp: drives_of_def)
qed

lemma set_same: "ld_fh (io_ld io) = Some h \<Longrightarrow> set_fh (Some h) io = io"
  by (cases io, cases "io_ld io") (simp add: set_fh_def)

lemma disc_idle:
  assumes "drives_ok e" and "unit_of e lun = Some l" and "table_func scsi_mmc_commands (cdb ! 0) = Some f"
    and "call_command stamp f (en_target e) cdb \<lparr>io_fs = en_fs e, io_ld = l, io_data = en_data e, io_size = sz, io_status = 0\<rparr> = Inr io"
    and "io_ld io = l" and "io_fs io = en_fs e"
  shows "\<exists>e'. run_scsi_command stamp lun cdb sz e = Inr (e', io_status io) \<and> drives_ok e' \<and> drives_of e' = drives_of e"
proof -
  have "disc_target e" using assms(1) by (simp add: drives_ok_def)
  then obtain h where h: "ld_fh l = Some h" using unit_ofD [OF assms(2)] by (auto simp: disc_target_def disc_ok_def)
  show ?thesis using disc_look [OF assms(1-3) h, of stamp sz h io] assms(4-6) h set_same [of io h] by (auto simp: same_stream_def)
qed

lemma drives_data [simp]:
  "drives_ok (e\<lparr>en_data := d\<rparr>) = drives_ok e" "drives_of (e\<lparr>en_data := d\<rparr>) = drives_of e" "unit_of (e\<lparr>en_data := d\<rparr>) = unit_of e"
  by (simp_all add: drives_ok_def disc_target_def drives_of_def unit_of_def image_names_def fun_eq_iff)

lemma drive_fields:
  "drive_lba (drive_of fs l) cdb = disc_lba l cdb" "drive_len (drive_of fs l) cdb = disc_len l cdb"
  "drive_beyond (drive_of fs l) cdb \<longleftrightarrow> disc_lba l cdb + disc_len l cdb > unit_bytes l"
  by (simp_all add: drive_lba_def drive_len_def drive_beyond_def drive_of_def disc_lba_def disc_len_def)

text \<open>A request as the engine gets it, with the bytes it answers.\<close>

definition serve_disc :: "disc_request \<Rightarrow> engine \<Rightarrow> (engine \<times> u8 \<times> bytes) res" where
  "serve_disc r e = (case r of (stamp, lun, cdb, buf) \<Rightarrow>
     and_then (run_scsi_command stamp lun cdb (int (length buf)) (e\<lparr>en_data := buf\<rparr>)) (\<lambda>(e', st).
       Inr (e', st, if st \<noteq> 0 then []
         else if cdb ! 0 = 0x28 then (case unit_of e lun of None \<Rightarrow> [] | Some l \<Rightarrow> segment 0 (disc_len l cdb) (en_data e'))
         else if cdb ! 0 = 0x25 then segment 0 8 (en_data e')
         else [])))"


text \<open>What is known of the unit a request is for.\<close>

lemma drive_unitE:
  assumes "drives_ok e" and "unit_of e lun = Some l"
  obtains h where "disc_ok l" and "ld_fh l = Some h" and "l\<lparr>ld_fh := Some h\<rparr> = l" and "fs_dir (en_fs e) (ld_filename l) = Some (fh_ino h)"
    and "ld_current_profile l = 0x0011 \<longrightarrow> fh_writable h \<and> \<not> fs_denied (en_fs e) (ld_filename l)"
    and "unit_image (en_fs e) l = fs_data (en_fs e) (fh_ino h)" and "fs_ok (en_fs e)" and "ld_filename l \<in> image_names e"
proof -
  have l: "l \<in> set (td_luns (en_target e))" using unit_ofD [OF assms(2)] by blast
  then have b: "backed (en_fs e) l" "fs_ok (en_fs e)" "disc_ok l" "ld_filename l \<in> image_names e"
    using assms(1) by (auto simp: drives_ok_def disc_target_def image_names_def)
  from b(1) show thesis by (rule backedE) (rule that, use b in auto)
qed

lemma disc_entries:
  "table_func scsi_mmc_commands 0x28 = Some Sbc_read10" "table_func scsi_mmc_commands 0x2a = Some Sbc_write10"
  "table_func scsi_mmc_commands 0x1b = Some Mmc_start_stop_unit" "table_func scsi_mmc_commands 0x25 = Some Sbc_read_capacity10"
  "table_func scsi_mmc_commands 0x00 = Some Spc_test_unit_ready" "table_func scsi_mmc_commands 0x1e = Some Mmc_prevent_allow_media_removal"
  "table_func scsi_mmc_commands 0x35 = Some Mmc_synchronize_cache" "table_func scsi_mmc_commands 0x53 = Some Mmc_reserve_track"
  "table_func scsi_mmc_commands 0xb6 = Some Mmc_set_streaming" "table_func scsi_mmc_commands 0xbb = Some Mmc_set_cd_speed"
  by (simp_all add: table_func_def scsi_mmc_commands_def scsi_mmc_commands_low_def scsi_mmc_commands_high_def)

lemma drive_read:
  assumes "drives_ok e" and "unit_of e lun = Some l" and "cdb ! 0 = 0x28" and "disc_len l cdb \<le> length (en_data e)"
    and "beyond \<longleftrightarrow> disc_lba l cdb + disc_len l cdb > unit_bytes l"
    and "\<not> beyond \<longrightarrow> disc_lba l cdb + disc_len l cdb \<le> length (unit_image (en_fs e) l)"
  shows "\<exists>e'. run_scsi_command stamp lun cdb sz e = Inr (e', if beyond then 2 else 0) \<and> drives_ok e' \<and> drives_of e' = drives_of e
    \<and> (\<not> beyond \<longrightarrow> segment 0 (disc_len l cdb) (en_data e') = segment (disc_lba l cdb) (disc_len l cdb) (unit_image (en_fs e) l))"
proof -
  obtain h where h: "disc_ok l" "ld_fh l = Some h" "l\<lparr>ld_fh := Some h\<rparr> = l" "unit_image (en_fs e) l = fs_data (en_fs e) (fh_ino h)"
    using drive_unitE [OF assms(1,2)] by metis
  let ?io = "\<lparr>io_fs = en_fs e, io_ld = l, io_data = en_data e, io_size = sz, io_status = 0\<rparr>"
  have f: "table_func scsi_mmc_commands (cdb ! 0) = Some Sbc_read10" using assms(3) disc_entries by simp
  show ?thesis
  proof (cases beyond)
    case True
    have "call_command stamp Sbc_read10 (en_target e) cdb ?io = Inr (?io\<lparr>io_status := 2\<rparr>)"
      using transfer_beyond(2) [of ?io cdb] disc_small [OF h(1)] assms(5) True by (simp add: disc_lba_def disc_len_def add_mult_distrib)
    from disc_idle [OF assms(1,2) f this] True show ?thesis by auto
  next
    case False
    obtain h' where h': "same_stream h h'" "call_command stamp Sbc_read10 (en_target e) cdb ?io = Inr (set_fh (Some h')
        (?io\<lparr>io_data := patch 0 (segment (disc_lba l cdb) (disc_len l cdb) (fs_data (en_fs e) (fh_ino h))) (en_data e), io_size := int (disc_len l cdb)\<rparr>))"
      using read_on_stream [of ?io h "disc_lba l cdb" cdb "disc_len l cdb"] h disc_small [OF h(1)] assms(4-6) False
      by (auto simp: disc_lba_def disc_len_def)
    from disc_look [OF assms(1,2) f h(2) h'(2,1)] False assms(4,6) h(4) show ?thesis
      by (auto simp: segment_patch_same)
  qed
qed

lemma drive_write:
  assumes "drives_ok e" and "unit_of e lun = Some l" and "cdb ! 0 = 0x2a" and "disc_len l cdb \<le> length (en_data e)"
    and "beyond \<longleftrightarrow> disc_lba l cdb + disc_len l cdb > unit_bytes l" and "\<not> beyond \<longrightarrow> ld_current_profile l = 0x0011"
  shows "\<exists>e'. run_scsi_command stamp lun cdb sz e = Inr (e', if beyond then 2 else 0) \<and> drives_ok e'
    \<and> drives_of e' = (if beyond then drives_of e else
        ((fst (drives_of e))(lun \<mapsto> (drive_of (en_fs e) l)\<lparr>dv_disc := burn (disc_lba l cdb) (segment 0 (disc_len l cdb) (en_data e)) (unit_image (en_fs e) l)\<rparr>),
         snd (drives_of e)))"
proof -
  obtain h where h: "disc_ok l" "ld_fh l = Some h" "l\<lparr>ld_fh := Some h\<rparr> = l" "fs_dir (en_fs e) (ld_filename l) = Some (fh_ino h)"
      "ld_current_profile l = 0x0011 \<longrightarrow> fh_writable h \<and> \<not> fs_denied (en_fs e) (ld_filename l)"
      "unit_image (en_fs e) l = fs_data (en_fs e) (fh_ino h)" "fs_ok (en_fs e)" "ld_filename l \<in> image_names e"
    using drive_unitE [OF assms(1,2)] by metis
  let ?io = "\<lparr>io_fs = en_fs e, io_ld = l, io_data = en_data e, io_size = sz, io_status = 0\<rparr>"
  have f: "table_func scsi_mmc_commands (cdb ! 0) = Some Sbc_write10" using assms(3) disc_entries by simp
  have w: "call_command stamp Sbc_write10 (en_target e) cdb ?io = write_blocks (disc_lba l cdb) (disc_len l cdb) ?io"
    by (simp add: sbc_write10_def disc_lba_def disc_len_def Let_def)
  show ?thesis
  proof (cases beyond)
    case True
    have "call_command stamp Sbc_write10 (en_target e) cdb ?io = Inr (?io\<lparr>io_status := 2\<rparr>)"
      using transfer_beyond(1) [of ?io] disc_small [OF h(1)] assms(5) True w by simp
    from disc_idle [OF assms(1,2) f this] True show ?thesis by auto
  next
    case False
    let ?x = "burn (disc_lba l cdb) (segment 0 (disc_len l cdb) (en_data e)) (fs_data (en_fs e) (fh_ino h))"
    let ?fs = "(en_fs e)\<lparr>fs_data := (fs_data (en_fs e))(fh_ino h := ?x)\<rparr>"
    obtain h' where h': "same_stream h h'" "call_command stamp Sbc_write10 (en_target e) cdb ?io
        = Inr (set_fh (Some h') (?io\<lparr>io_fs := ?fs, io_size := int (disc_len l cdb)\<rparr>))"
      using write_on_stream [of ?io h "disc_lba l cdb" "disc_len l cdb"] h disc_small [OF h(1)] assms(4-6) False unfolding w by auto
    note c = content_write [OF h(7,4), of ?x]
    have "backed ?fs (l\<lparr>ld_fh := Some h'\<rparr>)" using h h'(1) by (simp add: backed_def same_stream_def)
    from disc_step [OF assms(1,2) f h'(2) _ _ c(2) this _ c(1)] h(6) False show ?thesis
      by (auto simp: drives_of_def)
  qed
qed

lemma drive_eject:
  assumes "drives_ok e" and "unit_of e lun = Some l" and "cdb ! 0 = 0x1b" and "stamp \<notin> image_names e"
  shows "\<exists>e'. run_scsi_command stamp lun cdb sz e = Inr (e', 0) \<and> drives_ok e'
    \<and> drives_of e' = (if ld_current_profile l \<noteq> 0x0011 then drives_of e else
        ((fst (drives_of e))(lun \<mapsto> (drive_of (en_fs e) l)\<lparr>dv_disc := []\<rparr>),
         if unit_image (en_fs e) l = [] then snd (drives_of e) else (snd (drives_of e))(stamp \<mapsto> unit_image (en_fs e) l)))"
proof -
  obtain h where h: "disc_ok l" "ld_fh l = Some h" "l\<lparr>ld_fh := Some h\<rparr> = l" "fs_dir (en_fs e) (ld_filename l) = Some (fh_ino h)"
      "ld_current_profile l = 0x0011 \<longrightarrow> fh_writable h \<and> \<not> fs_denied (en_fs e) (ld_filename l)"
      "unit_image (en_fs e) l = fs_data (en_fs e) (fh_ino h)" "fs_ok (en_fs e)" "ld_filename l \<in> image_names e"
    using drive_unitE [OF assms(1,2)] by metis
  let ?io = "\<lparr>io_fs = en_fs e, io_ld = l, io_data = en_data e, io_size = sz, io_status = 0\<rparr>"
  have f: "table_func scsi_mmc_commands (cdb ! 0) = Some Mmc_start_stop_unit" using assms(3) disc_entries by simp
  show ?thesis
  proof (cases "ld_current_profile l = 0x0011")
    case False
    then have "call_command stamp Mmc_start_stop_unit (en_target e) cdb ?io = Inr (?io\<lparr>io_size := 0\<rparr>)"
      by (simp add: mmc_start_stop_unit_def finish_cmd_def)
    from disc_idle [OF assms(1,2) f this] False show ?thesis by auto
  next
    case True
    let ?old = "unit_image (en_fs e) l"
    let ?c = "if ?old = [] then content (en_fs e) else (content (en_fs e))(stamp \<mapsto> ?old)"
    have stamp: "stamp \<noteq> ld_filename l" using assms(4) h(8) by blast
    obtain fs h' where i: "insert_new_dvd_r stamp ?io = Inr (set_fh (Some h') (?io\<lparr>io_fs := fs\<rparr>))" "fh_writable h'"
        "fs_dir fs (ld_filename l) = Some (fh_ino h')" "fs_ok fs" "fs_denied fs = fs_denied (en_fs e)"
        "\<forall>n. n \<noteq> ld_filename l \<longrightarrow> n \<noteq> stamp \<longrightarrow> fs_dir fs n = fs_dir (en_fs e) n" "content fs = ?c(ld_filename l \<mapsto> [])"
      using insert_content [of ?io h stamp ?old] h stamp True by auto
    have "call_command stamp Mmc_start_stop_unit (en_target e) cdb ?io = Inr (set_fh (Some h') (?io\<lparr>io_fs := fs, io_size := 0\<rparr>))"
      using i(1) True by (simp add: mmc_start_stop_unit_def finish_cmd_def set_fh_def)
    moreover have "backed fs (l\<lparr>ld_fh := Some h'\<rparr>)" using i(2,3,5) h(5) True by (simp add: backed_def)
    moreover have "\<forall>n\<in>image_names e. n \<noteq> ld_filename l \<longrightarrow> fs_dir fs n = fs_dir (en_fs e) n \<and> ?c n = content (en_fs e) n"
      using i(6) assms(4) by auto
    moreover have "(\<lambda>n. if n \<in> image_names e then None else ?c n)
        = (if ?old = [] then snd (drives_of e) else (snd (drives_of e))(stamp \<mapsto> ?old))"
      using assms(4) by (auto simp: drives_of_def fun_eq_iff)
    ultimately show ?thesis
      using disc_step [OF assms(1,2) f, of stamp sz h' "?io\<lparr>io_fs := fs, io_size := 0\<rparr>" fs ?c "[]"] i(4,5,7) True by auto
  qed
qed

lemma drive_capacity:
  assumes "drives_ok e" and "unit_of e lun = Some l" and "cdb ! 0 = 0x25" and "12 \<le> length (en_data e)" and "v = drive_of (en_fs e) l"
  shows "\<exists>e'. run_scsi_command stamp lun cdb sz e = Inr (e', 0) \<and> drives_ok e' \<and> drives_of e' = drives_of e
    \<and> segment 0 8 (en_data e') = be32_bytes (last_block v) @ be32_bytes (of_nat (dv_block v))"
proof -
  obtain h where h: "disc_ok l" "ld_fh l = Some h" "unit_image (en_fs e) l = fs_data (en_fs e) (fh_ino h)"
    using drive_unitE [OF assms(1,2)] by metis
  let ?io = "\<lparr>io_fs = en_fs e, io_ld = l, io_data = en_data e, io_size = sz, io_status = 0\<rparr>"
  have f: "table_func scsi_mmc_commands (cdb ! 0) = Some Sbc_read_capacity10" using assms(3) disc_entries by simp
  obtain h' d where h': "same_stream h h'" "call_command stamp Sbc_read_capacity10 (en_target e) cdb ?io
        = Inr (set_fh (Some h') (?io\<lparr>io_data := patch 0 d (en_data e), io_size := 8\<rparr>))" "length d = 12"
      "take 8 d = be32_bytes (last_block v) @ be32_bytes (of_nat (dv_block v))"
    using capacity_on_stream [of ?io h] h assms(4,5) by (auto simp: disc_ok_def last_block_def drive_of_def)
  have "segment 0 8 (patch 0 d (en_data e)) = take 8 d" using assms(4) h'(3) by (simp add: patch_def segment_def)
  with disc_look [OF assms(1,2) f h(2) h'(2,1)] h'(4) show ?thesis by auto
qed

lemma drive_quiet:
  assumes "drives_ok e" and "unit_of e lun = Some l" and "cdb ! 0 \<in> {0x00, 0x1e, 0x35, 0x53, 0xb6, 0xbb}"
  shows "\<exists>e'. run_scsi_command stamp lun cdb sz e = Inr (e', 0) \<and> drives_ok e' \<and> drives_of e' = drives_of e"
proof -
  let ?io = "\<lparr>io_fs = en_fs e, io_ld = l, io_data = en_data e, io_size = sz, io_status = 0\<rparr>"
  obtain f where f: "table_func scsi_mmc_commands (cdb ! 0) = Some f"
      "call_command stamp f (en_target e) cdb ?io = Inr (?io\<lparr>io_size := 0\<rparr>)"
    using assms(3) disc_entries
    by (auto simp: finish_cmd_def spc_test_unit_ready_def mmc_prevent_allow_media_removal_def mmc_synchronize_cache_def
        mmc_reserve_track_def mmc_set_streaming_def mmc_set_cd_speed_def)
  from disc_idle [OF assms(1,2) f] show ?thesis by simp
qed

lemma drives_at: "fst (drives_of e) lun = map_option (drive_of (en_fs e)) (unit_of e lun)"
  by (simp add: drives_of_def)

lemma drive_names: "fst (drives_of e) m = Some w \<Longrightarrow> dv_name w \<in> image_names e"
  using unit_ofD [of e m] by (auto simp: drives_at drive_of_def image_names_def)

lemma name_of_drive: "n \<in> image_names e \<Longrightarrow> disc_target e \<Longrightarrow> \<exists>m. \<exists>w\<in>set_option (fst (drives_of e) m). dv_name w = n"
proof -
  assume "n \<in> image_names e" and dt: "disc_target e"
  then obtain l where l: "l \<in> set (td_luns (en_target e))" "ld_filename l = n" unfolding image_names_def by blast
  have "ld_lun l \<in> set (map ld_lun (td_luns (en_target e)))" using l(1) by simp
  then obtain l' where l': "unit_of e (ld_lun l) = Some l'" using unit_exists by blast
  have "inj_on ld_lun (set (td_luns (en_target e)))" using dt by (simp add: disc_target_def distinct_map)
  then have "l' = l" by (rule inj_onD) (use l(1) unit_ofD [OF l'] in simp_all)
  then show ?thesis using l(2) l' by (intro exI [of _ "ld_lun l"]) (simp add: drives_at drive_of_def)
qed

lemma serve_disc_refines:
  assumes "drives_ok e" and "drive_accepts (drives_of e) r"
  shows "\<exists>e'. serve_disc r e = Inr (e', snd (disc_drive r (drives_of e))) \<and> drives_of e' = fst (disc_drive r (drives_of e)) \<and> drives_ok e'"
proof -
  obtain stamp lun cdb buf where r: "r = (stamp, lun, cdb, buf)" by (cases r)
  have "unit_of e lun \<noteq> None"
    using assms(2) by (cases "unit_of e lun") (simp_all add: drive_accepts_def r split_def drives_at)
  then obtain l where l: "unit_of e lun = Some l" by blast
  let ?e = "e\<lparr>en_data := buf\<rparr>" and ?v = "drive_of (en_fs e) l" and ?sz = "int (length buf)"
  have e: "drives_ok ?e" "unit_of ?e lun = Some l" using assms(1) l by simp_all
  have d: "drives_of e = (fst (drives_of e), snd (drives_of e))" "fst (drives_of e) lun = Some ?v" using l by (simp_all add: drives_at)
  have acc: "cdb ! 0 \<in> {0x00, 0x1b, 0x1e, 0x25, 0x28, 0x2a, 0x35, 0x53, 0xb6, 0xbb}" "12 \<le> length buf"
      "cdb ! 0 \<in> {0x28, 0x2a} \<longrightarrow> disc_len l cdb \<le> length buf"
      "cdb ! 0 = 0x28 \<longrightarrow> drive_beyond ?v cdb \<or> disc_lba l cdb + disc_len l cdb \<le> length (unit_image (en_fs e) l)"
      "cdb ! 0 = 0x2a \<longrightarrow> drive_beyond ?v cdb \<or> ld_current_profile l = 0x0011"
      "cdb ! 0 = 0x1b \<longrightarrow> (\<forall>m. \<forall>w\<in>set_option (fst (drives_of e) m). dv_name w \<noteq> stamp)"
    using assms(2) d(2) unfolding drive_accepts_def r by (simp_all add: split_def drive_fields(1,2)) (simp_all add: drive_of_def)
  have v: "dv_disc ?v = unit_image (en_fs e) l" "dv_burner ?v \<longleftrightarrow> ld_current_profile l = 0x0011" by (simp_all add: drive_of_def)
  have same: "(fst (drives_of e), snd (drives_of e)) = drives_of e" by simp
  consider "cdb ! 0 = 0x28" | "cdb ! 0 = 0x2a" | "cdb ! 0 = 0x1b" | "cdb ! 0 = 0x25" | "cdb ! 0 \<in> {0x00, 0x1e, 0x35, 0x53, 0xb6, 0xbb}"
    using acc(1) by auto
  then show ?thesis
  proof cases
    case 1
    with drive_read [OF e, of cdb "drive_beyond ?v cdb" stamp ?sz] acc l show ?thesis
      by (auto simp: serve_disc_def disc_drive_def r split_def d(2) v drive_fields)
  next
    case 2
    with drive_write [OF e, of cdb "drive_beyond ?v cdb" stamp ?sz] acc l show ?thesis
      by (auto simp: serve_disc_def disc_drive_def r split_def d(2) v drive_fields)
  next
    case 3
    have "disc_target e" using assms(1) by (simp add: drives_ok_def)
    then have "stamp \<notin> image_names e" using acc(6) 3 name_of_drive [of stamp e] by blast
    with 3 drive_eject [OF e, of cdb stamp ?sz] l show ?thesis
      by (auto simp: serve_disc_def disc_drive_def r split_def d(2) v image_names_def)
  next
    case 4
    with drive_capacity [OF e, of cdb ?v stamp ?sz] acc(2) l show ?thesis
      by (auto simp: serve_disc_def disc_drive_def r split_def d(2))
  next
    case 5
    with drive_quiet [OF e, of cdb stamp ?sz] l show ?thesis
      by (auto simp: serve_disc_def disc_drive_def r split_def d(2))
  qed
qed

interpretation disc_drives: guarded_refinement serve_disc disc_drive drives_of drives_ok drive_accepts
  by unfold_locales (rule serve_disc_refines)

section \<open>A new drive\<close>

text \<open>
  A target without units has no drives; \<open>add_lun\<close> for a DVD-R with a number and a file of its own gives
  it an empty one, whatever the file held.
\<close>

lemma empty_target: "td_type (en_target e) = TARGET_TYPE_EMULATION \<Longrightarrow> td_luns (en_target e) = [] \<Longrightarrow> fs_ok (en_fs e) \<Longrightarrow> drives_ok e"
  by (simp add: drives_ok_def disc_target_def)

lemma add_burner:
  assumes "drives_ok e" and "of_int lun \<notin> ld_lun ` set (td_luns (en_target e))" and "lunfile \<notin> image_names e"
    and "\<not> fs_denied (en_fs e) lunfile" and "0 \<le> mb" and "mb < 2048" and "length stamp < 252"
  shows "\<exists>fs t l. add_lun stamp m (en_target e) lun lunfile LUN_TYPE_DVD_R mb (en_fs e) = (fs, t, Some l)
    \<and> drives_ok (e\<lparr>en_fs := fs, en_target := t\<rparr>)
    \<and> drives_of (e\<lparr>en_fs := fs, en_target := t\<rparr>) = ((fst (drives_of e))(of_int lun \<mapsto>
          \<lparr>dv_disc = [], dv_capacity = nat (mb * 1048576), dv_block = 2048, dv_burner = True, dv_name = lunfile\<rparr>),
        (snd (drives_of e))(lunfile := None))"
proof -
  have ok: "fs_ok (en_fs e)" "disc_target e" "distinct (map ld_filename (td_luns (en_target e)))"
      "\<And>x. x \<in> set (td_luns (en_target e)) \<Longrightarrow> backed (en_fs e) x"
    using assms(1) by (simp_all add: drives_ok_def)
  obtain fs i where w: "fopen_w_plus lunfile (en_fs e) = (fs, Some \<lparr>fh_ino = i, fh_pos = 0, fh_writable = True\<rparr>)" "fs_dir fs lunfile = Some i"
      "content fs = (content (en_fs e))(lunfile \<mapsto> [])" "fs_ok fs" "fs_denied fs = fs_denied (en_fs e)"
      "\<forall>n. n \<noteq> lunfile \<longrightarrow> fs_dir fs n = fs_dir (en_fs e) n"
    using content_empty [OF ok(1) assms(4)] by blast
  let ?l = "m\<lparr>ld_device_type := 0x05, ld_current_profile := 0x0011, ld_is_blank := 1, ld_block_size := 2048,
      ld_vendor := ''VirtualDVDR'', ld_productid := ''VdR'', ld_revision := ''0'', ld_serial_number := stamp,
      ld_cmds := Some scsi_mmc_commands, ld_filename := lunfile, ld_fh := Some \<lparr>fh_ino = i, fh_pos = 0, fh_writable = True\<rparr>,
      ld_lun := of_int lun, ld_luntype := LUN_TYPE_DVD_R, ld_lunsizeinmb := mb\<rparr>"
  let ?t = "(en_target e)\<lparr>td_luns := ?l # td_luns (en_target e)\<rparr>"
  let ?e = "e\<lparr>en_fs := fs, en_target := ?t\<rparr>"
  have add: "add_lun stamp m (en_target e) lun lunfile LUN_TYPE_DVD_R mb (en_fs e) = (fs, ?t, Some ?l)"
    using w(1) by (simp add: add_lun_def link_lun_def Let_def c_consts)
  have same: "backed fs x \<and> unit_image fs x = unit_image (en_fs e) x" if x: "x \<in> set (td_luns (en_target e))" for x
  proof -
    have "ld_filename x \<noteq> lunfile" using x assms(3) by (auto simp: image_names_def)
    then show ?thesis using ok(4) [OF x] w(3,5,6) by (intro backed_other) simp_all
  qed
  have "content fs lunfile = Some []" using w(3) by simp
  then have img: "fs_data fs i = []" using w(2) by (simp add: content_def)
  have "drives_ok ?e"
    using ok(2,3) w(2,4,5) same assms(2-7) by (auto simp: drives_ok_def disc_target_def disc_ok_def backed_def image_names_def)
  moreover have "fst (drives_of ?e) n = ((fst (drives_of e))(of_int lun \<mapsto>
      \<lparr>dv_disc = [], dv_capacity = nat (mb * 1048576), dv_block = 2048, dv_burner = True, dv_name = lunfile\<rparr>)) n" for n
  proof (cases "n = of_int lun")
    case True
    then show ?thesis using img by (simp add: drives_at unit_of_def drive_of_def unit_image_def unit_bytes_def)
  next
    case False
    have "drive_of fs x = drive_of (en_fs e) x" if "find (\<lambda>l. ld_lun l = n) (td_luns (en_target e)) = Some x" for x
      using same [of x] that by (auto simp: drive_of_def dest: find_SomeD)
    with False show ?thesis by (cases "find (\<lambda>l. ld_lun l = n) (td_luns (en_target e))") (auto simp: drives_at unit_of_def)
  qed
  moreover have "snd (drives_of ?e) = (snd (drives_of e))(lunfile := None)"
    using w(3) by (auto simp: drives_of_def image_names_def fun_eq_iff)
  ultimately show ?thesis using add by (intro exI [of _ fs] exI [of _ ?t] exI [of _ ?l]) (auto simp: prod_eq_iff fun_eq_iff)
qed

section \<open>The refinement\<close>

lemma demo_drives:
  "drives_ok (demo_engine demo_disc n)"
  "drives_of (demo_engine demo_disc n) = ([0 \<mapsto> \<lparr>dv_disc = replicate n 0, dv_capacity = 4194304, dv_block = 2048, dv_burner = True, dv_name = ''disk''\<rparr>], \<lambda>_. None)"
proof -
  show "drives_ok (demo_engine demo_disc n)"
    using demo_disc_ok(1) by (simp add: drives_ok_def backed_def fs_ok_def demo_engine_def demo_disc_def demo_lun_def)
  have "unit_of (demo_engine demo_disc n) m = (if m = 0 then Some demo_disc else None)" for m
    by (simp add: unit_of_def demo_engine_def demo_disc_def demo_lun_def)
  then show "drives_of (demo_engine demo_disc n) = ([0 \<mapsto> \<lparr>dv_disc = replicate n 0, dv_capacity = 4194304, dv_block = 2048, dv_burner = True, dv_name = ''disk''\<rparr>], \<lambda>_. None)"
    by (auto simp: drives_of_def fun_eq_iff drive_of_def image_names_def unit_image_def unit_bytes_def content_def demo_engine_def demo_disc_def demo_lun_def)
qed

text \<open>
  C9.  CD/DVD units are drives.  Any sequence of the requests of a burning program that the drives accept
  gets, request by request, the status and the bytes that the specification gives, and leaves in the
  drives and on the shelf what the specification leaves: what was burned is read back, no other drive
  or file changes, ejecting puts the whole disc on the shelf, and READ CAPACITY counts what was burned.
\<close>

theorem discs_refine_drives:
  assumes "drives_ok e" and "spec_accepts disc_drive drive_accepts rs (drives_of e)"
  shows "\<exists>e'. run_outputs serve_disc rs e = Inr (e', snd (spec_outputs disc_drive rs (drives_of e)))
    \<and> drives_of e' = fst (spec_outputs disc_drive rs (drives_of e)) \<and> drives_ok e'"
  using disc_drives.run_guarded [OF assms] .

theorem discs_refine_drives_witness:
  "\<exists>e'. run_outputs serve_disc [(''t'', 0, demo_cdb 0x2a 0 1, replicate 2048 9), (''t'', 0, demo_cdb 0x25 0 0, replicate 12 0),
      (''t'', 0, demo_cdb 0x1b 0 0, replicate 12 0), (''t'', 0, demo_cdb 0x25 0 0, replicate 12 0)] (demo_engine demo_disc 0)
     = Inr (e', [(0, []), (0, [0, 0, 0, 0, 0, 0, 8, 0]), (0, []), (0, be32_bytes (- 1) @ [0, 0, 8, 0])])
     \<and> drives_of e' = ([0 \<mapsto> \<lparr>dv_disc = [], dv_capacity = 4194304, dv_block = 2048, dv_burner = True, dv_name = ''disk''\<rparr>],
         [''t'' \<mapsto> replicate 2048 9])" (is "\<exists>e'. run_outputs _ ?rs ?e = _ \<and> _")
proof -
  have f: "demo_cdb op b n ! 0 = op" "cdb_be32 (demo_cdb op 0 n) 2 = 0" "cdb_be16 (demo_cdb op b n) 7 = ucast n" for op b n
    by (simp_all add: demo_cdb_def cdb_be32_def cdb_be16_def segment_def be32_def be16_def le32_def)
  have b: "be32_bytes 0 = [0, 0, 0, 0]" "be32_bytes 2048 = [0, 0, 8, 0]"
    by (simp_all add: be32_bytes_def le32_bytes_def)
  have burn: "segment 0 2048 (replicate 2048 9) = replicate 2048 (9 :: u8)" "burn 0 (replicate 2048 9) [] = replicate 2048 (9 :: u8)"
    by (simp_all add: burn_def segment_def write_at_def patch_def)
  note d = drive_beyond_def drive_lba_def drive_len_def last_block_def f b burn
  have "spec_accepts disc_drive drive_accepts ?rs (drives_of ?e)"
    by (simp add: demo_drives disc_drive_def drive_accepts_def d)
  from discs_refine_drives [OF demo_drives(1) this] obtain e' where
    "run_outputs serve_disc ?rs ?e = Inr (e', snd (spec_outputs disc_drive ?rs (drives_of ?e)))" "drives_of e' = fst (spec_outputs disc_drive ?rs (drives_of ?e))"
    by blast
  moreover have "spec_outputs disc_drive ?rs (drives_of ?e) = (([0 \<mapsto> \<lparr>dv_disc = [], dv_capacity = 4194304, dv_block = 2048, dv_burner = True,
      dv_name = ''disk''\<rparr>], [''t'' \<mapsto> replicate 2048 9]), [(0, []), (0, [0, 0, 0, 0, 0, 0, 8, 0]), (0, []), (0, be32_bytes (- 1) @ [0, 0, 8, 0])])"
    by (simp add: demo_drives disc_drive_def d)
  ultimately show ?thesis by (metis fst_conv snd_conv)
qed

end
