(* ===== verification/Answers.thy ===== *)
theory Answers
  imports Server
begin

text \<open>
  What the answers of the target carry: the sense data that never arrives, and the data of other
  commands that does.
\<close>

section \<open>Sense data\<close>

text \<open>
  C31.  No sense data reaches the initiator.  Whatever the command, its turn finishes it with the result
  0, or with CHECK CONDITION and sense data of key 0, \<open>no sense\<close>, which the driver makes up: the
  sense data a handler has prepared is never sent.
\<close>

theorem no_sense_data_arrives:
  assumes "server_ok v p s" and "awaits s t" and "serviceable v t (ss_cmnds s (tk_sc t))" and "slab_ok sl"
  shows "\<exists>v' s'. server_step sl sig stamp v = Inr (Some v') \<and> server_ok v' p s' \<and> finished s t s'
    \<and> (sc_result (ss_cmnds s' (tk_sc t)) = 0 \<or> sc_result (ss_cmnds s' (tk_sc t)) = 2
        \<and> sc_sense_buffer (ss_cmnds s' (tk_sc t)) ! 0 = 0x70 \<and> sc_sense_buffer (ss_cmnds s' (tk_sc t)) ! 2 = 0)"
  using turn_serviceable [OF assms] by blast

theorem no_sense_data_arrives_witness:
  "\<exists>v' s'. server_step (demo_slab (\<lambda>f. f)) False ''t'' (demo_server (demo_transfer (demo_cdb 0xff 0 0) 0 DMA_NONE)) = Inr (Some v')
     \<and> server_ok v' 1 s' \<and> (sc_result (ss_cmnds s' 5) = 0 \<or> sc_result (ss_cmnds s' 5) = 2
        \<and> sc_sense_buffer (ss_cmnds s' 5) ! 0 = 0x70 \<and> sc_sense_buffer (ss_cmnds s' 5) ! 2 = 0)"
proof -
  have "transfer_len (demo_cdb 0xff 0 0) = 0" by (simp add: transfer_len_def demo_cdb_def)
  then show ?thesis
    using no_sense_data_arrives [OF demo_server_ok demo_awaits _ demo_slab_ok, of "demo_transfer (demo_cdb 0xff 0 0) 0 DMA_NONE" False "''t''"]
    by (fastforce simp: demo_transfer_ok demo_server_engine serviceable_def BUFFER_SIZE_def demo_task_def)
qed

section \<open>Data\<close>

lemma ready_entry: "table_func scsi_sbc_commands 0 = Some Spc_test_unit_ready"
  by (simp add: table_func_def scsi_sbc_commands_def scsi_sbc_commands_low_def scsi_sbc_commands_high_def)

lemma run_ready:
  assumes "disk_target e" and "unit_of e lun \<noteq> None" and "cdb ! 0 = 0"
  shows "\<exists>e'. run_scsi_command stamp lun cdb sz e = Inr (e', 0) \<and> disk_target e' \<and> en_data e' = en_data e"
proof -
  obtain l where l: "unit_of e lun = Some l" using assms(2) by auto
  let ?io = "\<lparr>io_fs = en_fs e, io_ld = l, io_data = en_data e, io_size = sz, io_status = 0\<rparr>"
  have f: "table_func scsi_sbc_commands (cdb ! 0) = Some Spc_test_unit_ready" using ready_entry assms(3) by simp
  have io: "call_command stamp Spc_test_unit_ready (en_target e) cdb ?io = Inr (?io\<lparr>io_size := 0, io_status := 0\<rparr>)"
      "keeps_unit ?io (?io\<lparr>io_size := 0, io_status := 0\<rparr>)"
    by (simp_all add: spc_test_unit_ready_def finish_cmd_def)
  from run_found [OF assms(1) l f io(1)] disk_target_step [OF assms(1) l io(2) refl] show ?thesis by auto
qed

text \<open>
  C33.  Data of other commands leaks.  The target answers with as many bytes as the request has, and
  does not clear its buffer: TEST UNIT READY, which has no data, called with a data-in buffer of
  \<open>n\<close> bytes gets the first \<open>n\<close> bytes that an earlier command, of any unit, left there.
\<close>

theorem stale_data_leaks:
  assumes "server_ok v p s" and "awaits s t" and "c = ss_cmnds s (tk_sc t)" and "whole_cdb c" and "slab_ok sl"
    and "sc_data_direction c \<noteq> DMA_TO_DEVICE" and "sc_cmnd c ! 0 = 0" and "unit_of (engine_at 6 v) (ucast (tk_lun t)) \<noteq> None"
    and "n = unat (sc_request_bufflen c)" and "0 < n" and "n + 6 < BUFFER_SIZE"
  shows "\<exists>v' s'. server_step sl sig stamp v = Inr (Some v') \<and> server_ok v' p s' \<and> finished s t s'
    \<and> sc_result (ss_cmnds s' (tk_sc t)) = 0
    \<and> cmnd_data (ss_cmnds s' (tk_sc t)) = segment 6 n (ut_request_buffer (cl_task (sv_client v)))"
proof -
  let ?d = "en_data (engine_at 6 v)" and ?Q = "\<lambda>e st. st = 0 \<and> en_data e = en_data (engine_at 6 v)"
  have dt: "disk_target (engine_at 6 v)" using assms(1) by (simp add: server_ok_def)
  have "engine_runs stamp v t c 6 ?d ?Q"
    unfolding engine_runs_def
  proof (intro allI impI)
    fix cdb assume "cdb ! 0 = sc_cmnd c ! 0"
    then have "cdb ! 0 = 0" using assms(7) by simp
    from run_ready [OF _ _ this, of "(engine_at 6 v)\<lparr>en_data := ?d\<rparr>"] dt assms(8)
    show "\<exists>e st. run_scsi_command stamp (ucast (tk_lun t)) cdb (int (unat (sc_request_bufflen c))) ((engine_at 6 v)\<lparr>en_data := ?d\<rparr>) = Inr (e, st)
        \<and> disk_target e \<and> length (en_data e) = length ?d \<and> ?Q e st" by fastforce
  qed
  from turn_in [OF assms(1-6) _ this, of sig] assms(9-11) obtain v' s' e where r:
      "server_step sl sig stamp v = Inr (Some v')" "served v p s t e 0 v' s'" "cmnd_data (ss_cmnds s' (tk_sc t)) = segment 0 n ?d"
    by auto
  then have "cmnd_data (ss_cmnds s' (tk_sc t)) = segment 6 n (ut_request_buffer (cl_task (sv_client v)))"
    by (simp add: segment_def)
  with r(1,2) show ?thesis by (auto simp: served_def)
qed

definition demo_dirty :: "scsi_cmnd \<Rightarrow> server" where
  "demo_dirty c = (demo_server c)\<lparr>sv_client := (sv_client (demo_server c))\<lparr>cl_task :=
     (cl_task (sv_client (demo_server c)))\<lparr>ut_request_buffer := replicate BUFFER_SIZE 9\<rparr>\<rparr>\<rparr>"

lemma demo_dirty_ok:
  assumes "server_ok (demo_server c) p s"
  shows "server_ok (demo_dirty c) p s" and "unit_of (engine_at 6 (demo_dirty c)) = unit_of (engine_at 6 (demo_server c))"
  using assms engine_cong [of "engine_at 6 (demo_dirty c)" "engine_at 6 (demo_server c)"]
  by (simp_all add: server_ok_def serving_def demo_dirty_def)

theorem stale_data_leaks_witness:
  "\<exists>v' s'. server_step (demo_slab (\<lambda>f. f)) False ''t'' (demo_dirty (demo_transfer (demo_cdb 0 0 0) 512 DMA_FROM_DEVICE)) = Inr (Some v')
     \<and> server_ok v' 1 s' \<and> cmnd_data (ss_cmnds s' 5) = replicate 512 9"
proof -
  let ?c = "demo_transfer (demo_cdb 0 0 0) 512 DMA_FROM_DEVICE"
  have b: "segment 6 512 (ut_request_buffer (cl_task (sv_client (demo_dirty ?c)))) = replicate 512 9"
    by (simp add: demo_dirty_def segment_def BUFFER_SIZE_def)
  have "server_ok (demo_server ?c) 1 (demo_waiting ?c)" by (rule demo_server_ok) (simp_all add: demo_transfer_ok)
  from stale_data_leaks [OF demo_dirty_ok(1) [OF this] demo_awaits refl _ demo_slab_ok, of 512 False "''t''"] demo_dirty_ok(2) [OF this] b
  show ?thesis by (auto simp: demo_transfer_ok demo_cdb_fields demo_server_engine BUFFER_SIZE_def demo_task_def)
qed

end
